(* ===== verification/Prelude.thy ===== *)
theory Prelude imports Main "HOL-Library.Word" begin

text \<open>
  The vocabulary that the components share: the machine integers of the C++ code as words, the
  operations of \<open>std::string\<close> and of \<open>boost::algorithm\<close> that the sources call (search,
  sub-string, trimming, ASCII case folding), decimal printing and parsing as
  \<open>std::to_string\<close>, \<open>std::stoi\<close> and \<open>std::stoll\<close> do them, and the generic lemmas on
  lists and options that several component proofs need.

  A \<open>std::string\<close> is a list of bytes, which is what \<open>char list\<close> is in HOL.
  \<open>std::string::npos\<close> is the value \<open>None\<close>.
\<close>

named_theorems cstr_simps "unfolding rules of the string primitives"
named_theorems frame_simps "fields that an operation leaves unchanged"

type_synonym int64 = "64 word"
type_synonym uint64 = "64 word"
type_synonym size_t = "64 word"

section \<open>Searching in strings\<close>

fun find_idx :: "('a \<Rightarrow> bool) \<Rightarrow> 'a list \<Rightarrow> nat option" where
  "find_idx P [] = None"
| "find_idx P (x # xs) = (if P x then Some 0 else map_option Suc (find_idx P xs))"

text \<open>\<open>s.find(c, pos)\<close>: the first position at or after \<open>pos\<close> that holds \<open>c\<close>.\<close>

definition find_from :: "('a \<Rightarrow> bool) \<Rightarrow> nat \<Rightarrow> 'a list \<Rightarrow> nat option" where
  "find_from P pos s = map_option (\<lambda>i. pos + i) (find_idx P (drop pos s))"

definition find_char :: "char \<Rightarrow> nat \<Rightarrow> string \<Rightarrow> nat option" where
  "find_char c pos s = find_from (\<lambda>x. x = c) pos s"

text \<open>\<open>s.rfind(c)\<close>: the last position that holds \<open>c\<close>.\<close>

definition rfind_char :: "char \<Rightarrow> string \<Rightarrow> nat option" where
  "rfind_char c s = map_option (\<lambda>i. length s - 1 - i) (find_idx (\<lambda>x. x = c) (rev s))"

fun is_prefix :: "'a list \<Rightarrow> 'a list \<Rightarrow> bool" where
  "is_prefix [] ys = True"
| "is_prefix (x # xs) [] = False"
| "is_prefix (x # xs) (y # ys) = (x = y \<and> is_prefix xs ys)"

text \<open>\<open>s.find(str)\<close>: the first position at which \<open>str\<close> occurs.\<close>

fun find_sub :: "string \<Rightarrow> string \<Rightarrow> nat option" where
  "find_sub p [] = (if p = [] then Some 0 else None)"
| "find_sub p (x # xs) = (if is_prefix p (x # xs) then Some 0 else map_option Suc (find_sub p xs))"

text \<open>\<open>s.substr(pos, len)\<close> for \<open>pos\<close> within the string, as at every call site.\<close>

definition substr :: "nat \<Rightarrow> nat \<Rightarrow> string \<Rightarrow> string" where
  "substr pos len s = take len (drop pos s)"

lemma find_idx_None [simp]: "find_idx P xs = None \<longleftrightarrow> (\<forall>x\<in>set xs. \<not> P x)"
  by (induction xs) auto

lemma find_idx_Some:
  "find_idx P xs = Some i \<longleftrightarrow> i < length xs \<and> P (xs ! i) \<and> (\<forall>j<i. \<not> P (xs ! j))"
proof (induction xs arbitrary: i)
  case Nil
  then show ?case by simp
next
  case (Cons x xs)
  then show ?case by (cases i) (auto simp: less_Suc_eq_0_disj)
qed

lemma find_idx_skip:
  "\<forall>x\<in>set xs. \<not> P x \<Longrightarrow> find_idx P (xs @ ys) = map_option (\<lambda>i. length xs + i) (find_idx P ys)"
proof (induction xs)
  case Nil
  then show ?case by (simp add: option.map_ident)
next
  case (Cons x xs)
  then show ?case by (simp add: option.map_comp comp_def)
qed

lemma find_idx_hit: "\<forall>x\<in>set xs. \<not> P x \<Longrightarrow> P y \<Longrightarrow> find_idx P (xs @ y # ys) = Some (length xs)"
  by (subst find_idx_skip) auto

lemma find_char_hit:
  "c \<notin> set xs \<Longrightarrow> find_char c (length pre) (pre @ xs @ c # ys) = Some (length pre + length xs)"
  using find_idx_hit [of xs "\<lambda>x. x = c" c ys] by (auto simp: find_char_def find_from_def)

lemma find_char_hit0: "c \<notin> set xs \<Longrightarrow> find_char c 0 (xs @ c # ys) = Some (length xs)"
  using find_char_hit [of c xs "[]" ys] by simp

lemma find_char_miss: "c \<notin> set xs \<Longrightarrow> find_char c (length pre) (pre @ xs) = None"
  by (auto simp: find_char_def find_from_def)

lemma find_char_None: "find_char c 0 s = None \<longleftrightarrow> c \<notin> set s"
  by (auto simp: find_char_def find_from_def)

lemma find_char_bound: "find_char c pos s = Some i \<Longrightarrow> pos \<le> i \<and> i < length s \<and> s ! i = c"
  by (auto simp: find_char_def find_from_def find_idx_Some)

lemma is_prefix_append [simp]: "is_prefix xs (xs @ ys)"
  by (induction xs) auto

lemma is_prefix_iff: "is_prefix xs ys \<longleftrightarrow> take (length xs) ys = xs"
  by (induction xs ys rule: is_prefix.induct) auto

lemma find_sub_bound: "find_sub p s = Some i \<Longrightarrow> i \<le> length s \<and> is_prefix p (drop i s)"
  by (induction p s arbitrary: i rule: find_sub.induct) (auto split: if_splits)

lemma find_sub_skip:
  assumes "c \<notin> set xs"
  shows "find_sub (c # p) (xs @ ys) = map_option (\<lambda>i. length xs + i) (find_sub (c # p) ys)"
  using assms
proof (induction xs)
  case Nil
  then show ?case by (simp add: option.map_ident)
next
  case (Cons x xs)
  then show ?case by (simp add: option.map_comp comp_def)
qed

section \<open>Characters: white space and ASCII case\<close>

definition byte :: "char \<Rightarrow> nat" where
  "byte c = of_char c"

lemma byte_less [simp]: "byte c < 256"
  unfolding byte_def by simp

definition is_space :: "char \<Rightarrow> bool" where
  "is_space c = (byte c = 32 \<or> (9 \<le> byte c \<and> byte c \<le> 13))"

text \<open>A space or a tab.\<close>

definition is_blank :: "char \<Rightarrow> bool" where
  "is_blank c = (c = CHR '' '' \<or> c = CHR 0x09)"

definition is_digit :: "char \<Rightarrow> bool" where
  "is_digit c = (48 \<le> byte c \<and> byte c \<le> 57)"

definition is_upper :: "char \<Rightarrow> bool" where
  "is_upper c = (65 \<le> byte c \<and> byte c \<le> 90)"

definition is_lower :: "char \<Rightarrow> bool" where
  "is_lower c = (97 \<le> byte c \<and> byte c \<le> 122)"

definition lower_char :: "char \<Rightarrow> char" where
  "lower_char c = (if is_upper c then char_of (byte c + 32) else c)"

definition upper_char :: "char \<Rightarrow> char" where
  "upper_char c = (if is_lower c then char_of (byte c - 32) else c)"

definition to_lower :: "string \<Rightarrow> string" where
  "to_lower s = map lower_char s"

definition to_upper :: "string \<Rightarrow> string" where
  "to_upper s = map upper_char s"

definition ltrim :: "string \<Rightarrow> string" where
  "ltrim s = dropWhile is_space s"

definition rtrim :: "string \<Rightarrow> string" where
  "rtrim s = rev (dropWhile is_space (rev s))"

definition trim :: "string \<Rightarrow> string" where
  "trim s = rtrim (ltrim s)"

text \<open>The bytes of a C string: what is before the first NUL.\<close>

definition c_str :: "string \<Rightarrow> string" where
  "c_str s = takeWhile (\<lambda>c. byte c \<noteq> 0) s"

lemma byte_char_of: "byte (char_of n) = n mod 256"
  by (simp add: byte_def)

lemma byte_eq_iff: "byte a = byte b \<longleftrightarrow> a = b"
  by (simp add: byte_def)

lemma byte_lower_char:
  "byte (lower_char c) = (if is_upper c then byte c + 32 else byte c)"
  by (auto simp: lower_char_def byte_char_of is_upper_def)

lemma lower_char_not_upper [simp]: "\<not> is_upper (lower_char c)"
  by (auto simp: is_upper_def byte_lower_char)

lemma lower_char_idem [simp]: "lower_char (lower_char c) = lower_char c"
  using lower_char_not_upper [of c] by (subst lower_char_def) simp

lemma to_lower_idem [simp]: "to_lower (to_lower s) = to_lower s"
  by (simp add: to_lower_def)

lemma length_to_lower [simp]: "length (to_lower s) = length s"
  by (simp add: to_lower_def)

lemma trim_id:
  "s = [] \<or> (\<not> is_space (hd s) \<and> \<not> is_space (last s)) \<Longrightarrow> trim s = s"
proof (elim disjE conjE)
  assume "s = []" then show ?thesis by (simp add: trim_def ltrim_def rtrim_def)
next
  assume h: "\<not> is_space (hd s)" "\<not> is_space (last s)"
  show ?thesis
  proof (cases s)
    case Nil then show ?thesis by (simp add: trim_def ltrim_def rtrim_def)
  next
    case (Cons x xs)
    then have "dropWhile is_space s = s" using h by simp
    moreover have "dropWhile is_space (rev s) = rev s"
      using h Cons by (cases "rev s") (auto simp: last_rev hd_rev [symmetric])
    ultimately show ?thesis by (simp add: trim_def ltrim_def rtrim_def)
  qed
qed

lemma trim_no_space: "\<forall>c\<in>set s. \<not> is_space c \<Longrightarrow> trim s = s"
  by (rule trim_id) (cases s; simp)

section \<open>Decimal numbers\<close>

definition digit_char :: "nat \<Rightarrow> char" where
  "digit_char d = char_of (48 + d)"

definition digit_val :: "char \<Rightarrow> nat" where
  "digit_val c = byte c - 48"

text \<open>\<open>std::to_string\<close> and \<open>operator<<\<close> on integers.\<close>

fun dec_nat :: "nat \<Rightarrow> string" where
  "dec_nat n = (if n < 10 then [digit_char n] else dec_nat (n div 10) @ [digit_char (n mod 10)])"

declare dec_nat.simps [simp del]

definition dec_int :: "int \<Rightarrow> string" where
  "dec_int i = (if i < 0 then CHR ''-'' # dec_nat (nat (- i)) else dec_nat (nat i))"

definition digits_val :: "string \<Rightarrow> nat" where
  "digits_val s = foldl (\<lambda>v c. 10 * v + digit_val c) 0 s"

lemma digit_char_val: "d < 10 \<Longrightarrow> digit_val (digit_char d) = d"
  by (simp add: digit_val_def digit_char_def byte_char_of)

lemma digit_char_is_digit: "d < 10 \<Longrightarrow> is_digit (digit_char d)"
  by (simp add: is_digit_def digit_char_def byte_char_of)

lemma dec_nat_nonempty [simp]: "dec_nat n \<noteq> []"
  by (subst dec_nat.simps) simp

lemma dec_nat_digits: "c \<in> set (dec_nat n) \<Longrightarrow> is_digit c"
proof (induction n rule: dec_nat.induct)
  case (1 n)
  show ?case
  proof (cases "n < 10")
    case True
    then show ?thesis using "1.prems" by (simp add: dec_nat.simps [of n] digit_char_is_digit)
  next
    case False
    then show ?thesis using 1
      by (auto simp: dec_nat.simps [of n] digit_char_is_digit)
  qed
qed

lemma digits_val_snoc: "digits_val (s @ [c]) = 10 * digits_val s + digit_val c"
  by (simp add: digits_val_def)

lemma digits_val_dec_nat [simp]: "digits_val (dec_nat n) = n"
proof (induction n rule: dec_nat.induct)
  case (1 n)
  show ?case
  proof (cases "n < 10")
    case True
    then show ?thesis by (simp add: dec_nat.simps [of n] digits_val_def digit_char_val)
  next
    case False
    then show ?thesis using 1
      by (simp add: dec_nat.simps [of n] digits_val_snoc digit_char_val)
  qed
qed

text \<open>
  \<open>std::stoi\<close> and \<open>std::stoll\<close>: skip white space, an optional sign, then the longest run of
  digits. No digit is \<open>std::invalid_argument\<close>, a value outside the type is
  \<open>std::out_of_range\<close>; every caller catches both alike, so both are \<open>None\<close> here.
\<close>

definition strtol :: "string \<Rightarrow> int option" where
  "strtol s =
     (let t = ltrim s;
          neg = (t \<noteq> [] \<and> hd t = CHR ''-'');
          u = (if t \<noteq> [] \<and> (hd t = CHR ''-'' \<or> hd t = CHR ''+'') then tl t else t);
          ds = takeWhile is_digit u
      in if ds = [] then None
         else Some (if neg then - int (digits_val ds) else int (digits_val ds)))"

definition in_range :: "nat \<Rightarrow> int \<Rightarrow> bool" where
  "in_range w v = (- (2 ^ (w - 1)) \<le> v \<and> v < 2 ^ (w - 1))"

definition stoi :: "string \<Rightarrow> int option" where
  "stoi s = (case strtol s of None \<Rightarrow> None | Some v \<Rightarrow> if in_range 32 v then Some v else None)"

definition stoll :: "string \<Rightarrow> int option" where
  "stoll s = (case strtol s of None \<Rightarrow> None | Some v \<Rightarrow> if in_range 64 v then Some v else None)"

lemma is_digit_not_space: "is_digit c \<Longrightarrow> \<not> is_space c"
  by (auto simp: is_digit_def is_space_def)

lemma is_digit_not_sign: "is_digit c \<Longrightarrow> c \<noteq> CHR ''-'' \<and> c \<noteq> CHR ''+''"
  by (auto simp: is_digit_def byte_def)

lemma strtol_digits:
  assumes "ds \<noteq> []" and "\<forall>c\<in>set ds. is_digit c"
    and "rest = [] \<or> \<not> is_digit (hd rest)"
  shows "strtol (ds @ rest) = Some (int (digits_val ds))"
proof -
  obtain d ds' where ds: "ds = d # ds'" using assms(1) by (cases ds) auto
  have d: "is_digit d" using assms(2) ds by simp
  have tw: "takeWhile is_digit (ds @ rest) = ds"
    using assms(2,3) by (cases rest) (auto simp: takeWhile_append2)
  have "ltrim (ds @ rest) = ds @ rest"
    using ds is_digit_not_space [OF d] by (simp add: ltrim_def)
  then show ?thesis
    using tw ds is_digit_not_sign [OF d] by (simp add: strtol_def Let_def)
qed

lemma strtol_dec_nat [simp]: "strtol (dec_nat n) = Some (int n)"
  using strtol_digits [of "dec_nat n" "[]"] dec_nat_digits by simp

lemma stoi_dec_nat: "n < 2 ^ 31 \<Longrightarrow> stoi (dec_nat n) = Some (int n)"
  by (simp add: stoi_def in_range_def)

lemma stoll_dec_nat: "n < 2 ^ 63 \<Longrightarrow> stoll (dec_nat n) = Some (int n)"
  by (simp add: stoll_def in_range_def)

lemma stoll_range: "stoll s = Some v \<Longrightarrow> in_range 64 v"
  by (auto simp: stoll_def split: option.splits if_splits)

lemma stoi_range: "stoi s = Some v \<Longrightarrow> in_range 32 v"
  by (auto simp: stoi_def split: option.splits if_splits)

end
