(* ===== verification/Bits.thy ===== *)
theory Bits imports Prelude begin

unbundle bit_operations_syntax

text \<open>
  Facts on powers of two and masks of machine words, used by the ring buffer, the lock-free queue,
  the base64 codecs and the Snowflake generator.
\<close>

lemma nat_and_pred_pow2:
  "0 < n \<Longrightarrow> and n (n - 1) = (0::nat) \<Longrightarrow> \<exists>k. n = 2 ^ k"
proof (induction n rule: less_induct)
  case (less n)
  show ?case
  proof (cases "even n")
    case True
    then obtain m where m: "n = 2 * m" by (elim evenE)
    with less.prems have "0 < m" by simp
    then have pred: "n - 1 = 2 * (m - 1) + 1" using m by simp
    have halves: "n div 2 = m" "(n - 1) div 2 = m - 1" "even n"
      unfolding pred using m by simp_all
    then have "and n (n - 1) = 2 * and m (m - 1)"
      by (subst and_rec) simp
    with less.prems(2) have "and m (m - 1) = 0" by simp
    then obtain k where "m = 2 ^ k" using less.IH [of m] m \<open>0 < m\<close> by auto
    then have "n = 2 ^ Suc k" using m by simp
    then show ?thesis ..
  next
    case False
    then obtain m where m: "n = 2 * m + 1" by (elim oddE)
    then have "n div 2 = m" "(n - 1) div 2 = m" "\<not> (odd n \<and> odd (n - 1))" by simp_all
    then have "and n (n - 1) = 2 * m" by (subst and_rec) simp
    with less.prems(2) m have "n = 2 ^ 0" by simp
    then show ?thesis ..
  qed
qed

lemma nat_pow2_and_pred: "and (2 ^ k) (2 ^ k - 1) = (0::nat)"
proof -
  have "and (2 ^ k) (2 ^ k - 1 :: nat) = take_bit k (2 ^ k)"
    by (simp add: take_bit_eq_mask mask_eq_exp_minus_1)
  then show ?thesis by simp
qed

lemma unat_pow2: "k < 64 \<Longrightarrow> unat (2 ^ k :: 64 word) = 2 ^ k"
proof -
  assume "k < 64"
  then have "(2::nat) ^ k < 2 ^ 64" by (intro power_strict_increasing) auto
  then have "unat (of_nat (2 ^ k) :: 64 word) = 2 ^ k"
    by (simp only: unat_of_nat) (simp add: take_bit_nat_eq_self)
  then show ?thesis by simp
qed

lemma unat_and: "unat (a AND b) = and (unat a) (unat (b :: 64 word))"
  by (simp add: unsigned_and_eq)

lemma unat_and_mask:
  "unat (x AND (2 ^ k - 1)) = unat (x :: 64 word) mod 2 ^ k"
proof -
  have "x AND (2 ^ k - 1) = take_bit k x" by (simp add: take_bit_eq_mask mask_eq_exp_minus_1)
  then have "unat (x AND (2 ^ k - 1)) = take_bit k (unat x)" by (simp only: unsigned_take_bit_eq)
  then show ?thesis by (simp only: take_bit_eq_mod)
qed

lemma word_pow2_iff:
  fixes n :: "64 word"
  shows "n \<noteq> 0 \<and> n AND (n - 1) = 0 \<longleftrightarrow> (\<exists>k<64. n = 2 ^ k)"
proof
  assume h: "n \<noteq> 0 \<and> n AND (n - 1) = 0"
  then have pos: "0 < unat n" by (simp add: unat_gt_0)
  have pred: "unat (n - 1) = unat n - 1" using h by (simp add: unat_minus_one)
  have "and (unat n) (unat n - 1) = unat (n AND (n - 1))" by (simp add: unat_and pred)
  then have "and (unat n) (unat n - 1) = 0" using h by simp
  then obtain k where k: "unat n = 2 ^ k" using nat_and_pred_pow2 [OF pos] by blast
  have "(2::nat) ^ k < 2 ^ 64" using k unsigned_less [of n, where 'a = nat] by simp
  then have "k < 64" by (rule power_less_imp_less_exp [rotated]) simp
  moreover from k \<open>k < 64\<close> have "n = 2 ^ k"
    by (metis unat_pow2 word_unat_eq_iff)
  ultimately show "\<exists>k<64. n = 2 ^ k" by blast
next
  assume "\<exists>k<64. n = 2 ^ k"
  then obtain k where k: "k < 64" "n = 2 ^ k" by blast
  have u: "unat n = 2 ^ k" using k by (simp add: unat_pow2)
  then have nz: "n \<noteq> 0" by auto
  have "unat (n AND (n - 1)) = and (2 ^ k) (2 ^ k - 1)"
    using u nz by (simp add: unat_and unat_minus_one)
  then have "unat (n AND (n - 1)) = 0" by (simp only: nat_pow2_and_pred)
  then show "n \<noteq> 0 \<and> n AND (n - 1) = 0" using nz by (simp add: unat_eq_zero)
qed

lemma unat_succ: "unat (x :: 64 word) < 2 ^ 64 - 1 \<Longrightarrow> unat (x + 1) = unat x + 1"
  by (simp add: unat_word_ariths)

lemma unat_succ_mask:
  assumes "k \<le> 63" and "unat (x :: 64 word) < 2 ^ k"
  shows "unat ((x + 1) AND (2 ^ k - 1)) = (unat x + 1) mod 2 ^ k"
proof -
  have "(2::nat) ^ k \<le> 2 ^ 63" using assms(1) by (intro power_increasing) auto
  then have "unat (x + 1) = unat x + 1" using assms(2) by (intro unat_succ) simp
  then show ?thesis by (simp add: unat_and_mask)
qed

end
