(* ===== verification/Fifo.thy ===== *)
theory Fifo imports Prelude begin

text \<open>
  The contract of a first-in first-out queue, which \<open>SPSCQueue\<close>, \<open>LockfreeQueue\<close> and the task
  queue of \<open>SupervisedThreadPool\<close> provide and which their users rely on: what a push and a pop do
  to the contents.  The consequences for whole sequences of operations are proved once, here.
\<close>

datatype 'a queue_op = Push 'a | Pop

text \<open>
  A run of operations, one after the other: the items that were accepted, the items that came out,
  and the queue at the end.
\<close>

fun queue_run ::
  "('q \<Rightarrow> 'a \<Rightarrow> bool \<times> 'q) \<Rightarrow> ('q \<Rightarrow> 'a option \<times> 'q) \<Rightarrow> 'q \<Rightarrow> 'a queue_op list \<Rightarrow>
   'a list \<times> 'a list \<times> 'q" where
  "queue_run push pop q [] = ([], [], q)"
| "queue_run push pop q (Push x # ops) =
     (let (ok, q1) = push q x; (acc, out, q2) = queue_run push pop q1 ops
      in (if ok then x # acc else acc, out, q2))"
| "queue_run push pop q (Pop # ops) =
     (let (r, q1) = pop q; (acc, out, q2) = queue_run push pop q1 ops
      in (acc, (case r of None \<Rightarrow> out | Some x \<Rightarrow> x # out), q2))"

lemma queue_run_push:
  assumes "queue_run push pop q (Push x # ops) = (acc, out, q')"
  obtains acc1 where "queue_run push pop (snd (push q x)) ops = (acc1, out, q')"
    "acc = (if fst (push q x) then x # acc1 else acc1)"
  using assms
  by (cases "push q x"; cases "queue_run push pop (snd (push q x)) ops") auto

lemma queue_run_pop:
  assumes "queue_run push pop q (Pop # ops) = (acc, out, q')"
  obtains out1 where "queue_run push pop (snd (pop q)) ops = (acc, out1, q')"
    "out = (case fst (pop q) of None \<Rightarrow> out1 | Some x \<Rightarrow> x # out1)"
  using assms
  by (cases "pop q"; cases "queue_run push pop (snd (pop q)) ops") auto

locale fifo =
  fixes push :: "'q \<Rightarrow> 'a \<Rightarrow> bool \<times> 'q"
    and pop :: "'q \<Rightarrow> 'a option \<times> 'q"
    and contents :: "'q \<Rightarrow> 'a list"
    and has_room :: "'q \<Rightarrow> bool"
    and invar :: "'q \<Rightarrow> bool"
  assumes push_invar: "invar q \<Longrightarrow> invar (snd (push q x))"
    and pop_invar: "invar q \<Longrightarrow> invar (snd (pop q))"
    and push_result: "invar q \<Longrightarrow> fst (push q x) = has_room q"
    and push_contents: "invar q \<Longrightarrow>
      contents (snd (push q x)) = (if has_room q then contents q @ [x] else contents q)"
    and pop_result: "invar q \<Longrightarrow>
      fst (pop q) = (case contents q of [] \<Rightarrow> None | x # xs \<Rightarrow> Some x)"
    and pop_contents: "invar q \<Longrightarrow> contents (snd (pop q)) = tl (contents q)"
begin

text \<open>
  Nothing is lost, duplicated or reordered by any sequence of operations: what came out, followed
  by what is still inside, is what was inside followed by what was accepted.
\<close>

lemma run_order:
  "invar q \<Longrightarrow> queue_run push pop q ops = (acc, out, q') \<Longrightarrow>
   invar q' \<and> out @ contents q' = contents q @ acc"
proof (induction ops arbitrary: q acc out)
  case Nil
  then show ?case by simp
next
  case (Cons oper ops)
  show ?case
  proof (cases oper)
    case (Push x)
    obtain acc1 where run: "queue_run push pop (snd (push q x)) ops = (acc1, out, q')"
      and acc: "acc = (if fst (push q x) then x # acc1 else acc1)"
      using Cons.prems(2) Push by (auto simp del: queue_run.simps elim: queue_run_push)
    have "invar q' \<and> out @ contents q' = contents (snd (push q x)) @ acc1"
      using Cons.IH [OF _ run] push_invar Cons.prems(1) by blast
    then show ?thesis using acc Cons.prems(1) by (simp add: push_result push_contents)
  next
    case Pop
    obtain out1 where run: "queue_run push pop (snd (pop q)) ops = (acc, out1, q')"
      and out: "out = (case fst (pop q) of None \<Rightarrow> out1 | Some x \<Rightarrow> x # out1)"
      using Cons.prems(2) Pop by (auto simp del: queue_run.simps elim: queue_run_pop)
    have "invar q' \<and> out1 @ contents q' = contents (snd (pop q)) @ acc"
      using Cons.IH [OF _ run] pop_invar Cons.prems(1) by blast
    then show ?thesis using out Cons.prems(1)
      by (auto simp: pop_result pop_contents split: list.splits)
  qed
qed

lemma pop_none: "invar q \<Longrightarrow> fst (pop q) = None \<longleftrightarrow> contents q = []"
  by (simp add: pop_result split: list.splits)

lemma pop_some: "invar q \<Longrightarrow> fst (pop q) = Some x \<longleftrightarrow> (\<exists>xs. contents q = x # xs)"
  by (auto simp: pop_result split: list.splits)

end

text \<open>A queue that accepts exactly while it holds fewer than a fixed number of items.\<close>

locale bounded_fifo = fifo push pop contents has_room invar
  for push :: "'q \<Rightarrow> 'a \<Rightarrow> bool \<times> 'q"
    and pop :: "'q \<Rightarrow> 'a option \<times> 'q"
    and contents :: "'q \<Rightarrow> 'a list"
    and has_room :: "'q \<Rightarrow> bool"
    and invar :: "'q \<Rightarrow> bool" +
  fixes slots :: "'q \<Rightarrow> nat"
  assumes room_iff: "invar q \<Longrightarrow> has_room q \<longleftrightarrow> length (contents q) < slots q"
    and bound: "invar q \<Longrightarrow> length (contents q) \<le> slots q"
    and push_slots: "invar q \<Longrightarrow> slots (snd (push q x)) = slots q"
    and pop_slots: "invar q \<Longrightarrow> slots (snd (pop q)) = slots q"
begin

lemma run_slots:
  "invar q \<Longrightarrow> queue_run push pop q ops = (acc, out, q') \<Longrightarrow> slots q' = slots q"
proof (induction ops arbitrary: q acc out)
  case Nil
  then show ?case by simp
next
  case (Cons oper ops)
  show ?case
  proof (cases oper)
    case (Push x)
    then obtain acc1 where "queue_run push pop (snd (push q x)) ops = (acc1, out, q')"
      using Cons.prems(2) by (auto simp del: queue_run.simps elim: queue_run_push)
    then show ?thesis using Cons.IH push_invar push_slots Cons.prems(1) by metis
  next
    case Pop
    then obtain out1 where "queue_run push pop (snd (pop q)) ops = (acc, out1, q')"
      using Cons.prems(2) by (auto simp del: queue_run.simps elim: queue_run_pop)
    then show ?thesis using Cons.IH pop_invar pop_slots Cons.prems(1) by metis
  qed
qed

lemma run_bound:
  "invar q \<Longrightarrow> queue_run push pop q ops = (acc, out, q') \<Longrightarrow>
   length (contents q) + length acc \<le> length out + slots q"
proof -
  assume h: "invar q" "queue_run push pop q ops = (acc, out, q')"
  from run_order [OF h] have "invar q'" "out @ contents q' = contents q @ acc" by auto
  from arg_cong [OF this(2), of length] bound [OF this(1)] run_slots [OF h]
  show ?thesis by simp
qed

end

end
