(* ===== verification/Spsc.thy ===== *)
theory Spsc imports Bits Fifo begin

unbundle bit_operations_syntax

text \<open>
  \<open>SPSCQueue<T>\<close> of include/intertwine/fw/SPSCQueue.hpp and SPSCQueue.inl: the ring buffer between
  one producer and one consumer.  First the operations as they run alone, with the contract of a
  bounded first-in first-out queue; then the same operations cut into their atomic accesses, so
  that the producer's and the consumer's accesses interleave in any order.

  Positions and counters are \<open>size_t\<close> and \<open>uint64_t\<close> words.  The type \<open>T\<close> is a type variable; what
  a move leaves in the source object is the argument \<open>moved\<close>, and the value that \<open>new T[n]\<close> puts in
  the slots is the argument \<open>dflt\<close>: the code relies on neither.
\<close>

section \<open>The capacity\<close>

definition isPowerOfTwo :: "size_t \<Rightarrow> bool" where
  "isPowerOfTwo n = (n \<noteq> 0 \<and> (n AND (n - 1)) = 0)"

text \<open>
  \<open>while (result < n) result <<= 1;\<close> on \<open>size_t\<close>.  The shift drops the top bit, so the loop need
  not end: then the function has no value.
\<close>

partial_function (option) doubleUntil :: "size_t \<Rightarrow> size_t \<Rightarrow> size_t option" where
  "doubleUntil n result = (if result < n then doubleUntil n (push_bit 1 result) else Some result)"

definition nextPowerOfTwo :: "size_t \<Rightarrow> size_t option" where
  "nextPowerOfTwo n =
     (if n = 0 then Some 1
      else if isPowerOfTwo n then Some n
      else doubleUntil n 1)"

lemma double_pow2: "j < 63 \<Longrightarrow> push_bit 1 (2 ^ j :: 64 word) = 2 ^ Suc j"
  by (simp add: push_bit_eq_mult)

lemma double_top: "push_bit 1 (2 ^ 63 :: 64 word) = 0"
  by (simp add: push_bit_eq_mult)

lemma doubleUntil_reaches:
  assumes "unat n \<le> 2 ^ k" and "k \<le> 63" and "j \<le> k" and "0 < j \<longrightarrow> 2 ^ (j - 1) < unat n"
    and "2 ^ (k - 1) < unat n \<or> k = 0"
  shows "doubleUntil n (2 ^ j) = Some (2 ^ k)"
  using assms(3,4)
proof (induction "k - j" arbitrary: j)
  case 0
  then have "j = k" by simp
  moreover have "\<not> (2 ^ k :: 64 word) < n"
    using assms(1,2) by (simp add: word_less_nat_alt unat_pow2 not_less)
  ultimately show ?case by (subst doubleUntil.simps) simp
next
  case (Suc d)
  then have jk: "j < k" by simp
  have "2 ^ j \<le> (2::nat) ^ (k - 1)" using jk by (intro power_increasing) auto
  also have "\<dots> < unat n" using assms(5) jk by simp
  finally have lt: "2 ^ j < unat n" .
  then have "(2 ^ j :: 64 word) < n"
    using jk assms(2) by (simp add: word_less_nat_alt unat_pow2)
  then have "doubleUntil n (2 ^ j) = doubleUntil n (2 ^ Suc j)"
    using jk assms(2) double_pow2 [of j] by (subst doubleUntil.simps) (simp add: mult.commute)
  also have "\<dots> = Some (2 ^ k)"
    using Suc.hyps(1) [of "Suc j"] Suc.hyps(2) jk lt by simp
  finally show ?case .
qed

lemma ceil_pow2_exists: "0 < (m::nat) \<Longrightarrow> \<exists>k. m \<le> 2 ^ k \<and> (2 ^ (k - 1) < m \<or> k = 0)"
proof -
  assume "0 < m"
  have "\<exists>k. m \<le> 2 ^ k" using less_exp [of m] by (intro exI [of _ m]) simp
  then have l: "m \<le> 2 ^ (LEAST k. m \<le> 2 ^ k)" by (rule LeastI_ex)
  have "(LEAST k. m \<le> 2 ^ k) = 0 \<or> 2 ^ ((LEAST k. m \<le> 2 ^ k) - 1) < m"
    using not_less_Least [of "(LEAST k. m \<le> 2 ^ k) - 1" "\<lambda>k. m \<le> 2 ^ k"] by fastforce
  with l show ?thesis by blast
qed

lemma doubleUntil_one:
  assumes "n \<noteq> 0" and "unat n \<le> 2 ^ 63"
  obtains k where "k \<le> 63" "doubleUntil n 1 = Some (2 ^ k)" "unat n \<le> 2 ^ k"
    "2 ^ (k - 1) < unat n \<or> k = 0"
proof -
  obtain k where k: "unat n \<le> 2 ^ k" "2 ^ (k - 1) < unat n \<or> k = 0"
    using ceil_pow2_exists [of "unat n"] assms(1) by (auto simp: unat_gt_0)
  have "k \<le> 63"
  proof (rule ccontr)
    assume "\<not> k \<le> 63"
    then have "(2::nat) ^ 63 \<le> 2 ^ (k - 1)" by (intro power_increasing) auto
    then show False using k(2) assms(2) \<open>\<not> k \<le> 63\<close> by auto
  qed
  then have "doubleUntil n (2 ^ 0) = Some (2 ^ k)"
    using k by (intro doubleUntil_reaches) auto
  then show thesis using that k \<open>k \<le> 63\<close> by simp
qed

text \<open>Whatever the loop returns is zero or a power of two: those are the only values it visits.\<close>

lemma doubleUntil_visits:
  assumes ret: "doubleUntil n r = Some y" and start: "r = 0 \<or> (\<exists>j\<le>63. r = 2 ^ j)"
  shows "n \<le> y \<and> (y = 0 \<or> (\<exists>j\<le>63. y = 2 ^ j))"
proof -
  have "(r = 0 \<or> (\<exists>j\<le>63. r = 2 ^ j)) \<longrightarrow> n \<le> y \<and> (y = 0 \<or> (\<exists>j\<le>63. y = 2 ^ j))"
  proof (rule doubleUntil.raw_induct
      [where P = "\<lambda>n r y. (r = 0 \<or> (\<exists>j\<le>63. r = 2 ^ j)) \<longrightarrow>
         n \<le> y \<and> (y = 0 \<or> (\<exists>j\<le>63. y = 2 ^ j))", OF _ ret])
    fix f n r and y :: "64 word"
    assume IH: "\<And>n r y. f n r = Some y \<Longrightarrow> (r = 0 \<or> (\<exists>j\<le>63. r = 2 ^ j)) \<longrightarrow>
         n \<le> y \<and> (y = 0 \<or> (\<exists>j\<le>63. y = 2 ^ j))"
      and eq: "(if r < n then f n (push_bit 1 r) else Some r) = Some y"
    show "(r = 0 \<or> (\<exists>j\<le>63. r = 2 ^ j)) \<longrightarrow> n \<le> y \<and> (y = 0 \<or> (\<exists>j\<le>63. y = 2 ^ j))"
    proof
      assume r: "r = 0 \<or> (\<exists>j\<le>63. r = 2 ^ j)"
      show "n \<le> y \<and> (y = 0 \<or> (\<exists>j\<le>63. y = 2 ^ j))"
      proof (cases "r < n")
        case True
        have "push_bit 1 r = 0 \<or> (\<exists>j\<le>63. push_bit 1 r = 2 ^ j)"
        proof (cases "r = 0")
          case False
          then obtain j where j: "j \<le> 63" "r = 2 ^ j" using r by blast
          then show ?thesis
            using double_pow2 [of j] double_top
            by (cases "j = 63") (auto intro!: exI [of _ "Suc j"])
        qed simp
        moreover have "f n (push_bit 1 r) = Some y" using eq True by simp
        ultimately show ?thesis using IH by blast
      qed (use eq r in auto)
    qed
  qed
  with start show ?thesis by blast
qed

lemma pow2_le_top: "j \<le> 63 \<Longrightarrow> unat (2 ^ j :: 64 word) \<le> 2 ^ 63"
proof -
  assume "j \<le> 63"
  then have "unat (2 ^ j :: 64 word) = 2 ^ j" by (simp add: unat_pow2)
  also have "\<dots> \<le> 2 ^ 63" using \<open>j \<le> 63\<close> by (intro power_increasing) auto
  finally show ?thesis .
qed

lemma doubleUntil_diverges:
  assumes "2 ^ 63 < unat n"
  shows "doubleUntil n 1 = None"
proof (cases "doubleUntil n 1")
  case (Some y)
  have "\<exists>j\<le>63. (1::64 word) = 2 ^ j" by (rule exI [of _ 0]) simp
  with doubleUntil_visits [OF Some] have "n \<le> y" "y = 0 \<or> (\<exists>j\<le>63. y = 2 ^ j)" by auto
  then have "unat n \<le> unat y" "unat y \<le> 2 ^ 63"
    using pow2_le_top by (auto simp: word_le_nat_alt)
  then show ?thesis using assms by simp
qed

section \<open>The queue and its operations\<close>

record 'a SPSCQueue =
  spsc_buffer :: "'a list"
  spsc_capacity :: size_t
  spsc_mask :: size_t
  spsc_writePos :: size_t
  spsc_readPos :: size_t
  spsc_pushCount :: uint64
  spsc_popCount :: uint64
  spsc_dropCount :: uint64

definition SPSCQueue_ctor :: "'a \<Rightarrow> size_t \<Rightarrow> 'a SPSCQueue option" where
  "SPSCQueue_ctor dflt n =
     (case nextPowerOfTwo n of
        None \<Rightarrow> None
      | Some cap \<Rightarrow>
          Some \<lparr>spsc_buffer = replicate (unat cap) dflt, spsc_capacity = cap, spsc_mask = cap - 1,
                spsc_writePos = 0, spsc_readPos = 0,
                spsc_pushCount = 0, spsc_popCount = 0, spsc_dropCount = 0\<rparr>)"

definition SPSCQueue_push :: "'a SPSCQueue \<Rightarrow> 'a \<Rightarrow> bool \<times> 'a SPSCQueue" where
  "SPSCQueue_push q item =
     (let currentWrite = spsc_writePos q;
          nextWrite = (currentWrite + 1) AND spsc_mask q;
          currentRead = spsc_readPos q
      in if nextWrite = currentRead
         then (False, q\<lparr>spsc_dropCount := spsc_dropCount q + 1\<rparr>)
         else (True, q\<lparr>spsc_buffer := (spsc_buffer q)[unat currentWrite := item],
                       spsc_writePos := nextWrite,
                       spsc_pushCount := spsc_pushCount q + 1\<rparr>))"

definition SPSCQueue_pop :: "('a \<Rightarrow> 'a) \<Rightarrow> 'a SPSCQueue \<Rightarrow> 'a option \<times> 'a SPSCQueue" where
  "SPSCQueue_pop moved q =
     (let currentRead = spsc_readPos q;
          currentWrite = spsc_writePos q
      in if currentRead = currentWrite
         then (None, q)
         else let item = spsc_buffer q ! unat currentRead;
                  nextRead = (currentRead + 1) AND spsc_mask q
              in (Some item, q\<lparr>spsc_buffer := (spsc_buffer q)[unat currentRead := moved item],
                               spsc_readPos := nextRead,
                               spsc_popCount := spsc_popCount q + 1\<rparr>))"

definition SPSCQueue_empty :: "'a SPSCQueue \<Rightarrow> bool" where
  "SPSCQueue_empty q = (spsc_readPos q = spsc_writePos q)"

definition SPSCQueue_size :: "'a SPSCQueue \<Rightarrow> size_t" where
  "SPSCQueue_size q =
     (let currentRead = spsc_readPos q; currentWrite = spsc_writePos q
      in if currentWrite \<ge> currentRead then currentWrite - currentRead
         else (spsc_capacity q - currentRead) + currentWrite)"

text \<open>\<open>while (pop(item)) {}\<close>\<close>

partial_function (option) SPSCQueue_clear ::
  "('a \<Rightarrow> 'a) \<Rightarrow> 'a SPSCQueue \<Rightarrow> 'a SPSCQueue option" where
  "SPSCQueue_clear moved q =
     (case SPSCQueue_pop moved q of
        (None, q') \<Rightarrow> Some q'
      | (Some item, q') \<Rightarrow> SPSCQueue_clear moved q')"

section \<open>Ring arithmetic\<close>

definition ring_size :: "nat \<Rightarrow> nat \<Rightarrow> nat \<Rightarrow> nat" where
  "ring_size n r w = (if r \<le> w then w - r else w + n - r)"

definition ring_list :: "'a list \<Rightarrow> nat \<Rightarrow> nat \<Rightarrow> nat \<Rightarrow> 'a list" where
  "ring_list buf n r m = map (\<lambda>i. buf ! ((r + i) mod n)) [0..<m]"

lemma mod_succ: "w < n \<Longrightarrow> Suc w mod n = (if Suc w = n then 0 else Suc w)"
  by auto

lemma ring_size_less: "r < n \<Longrightarrow> w < n \<Longrightarrow> ring_size n r w < n"
  by (auto simp: ring_size_def)

lemma ring_size_zero: "r < n \<Longrightarrow> w < n \<Longrightarrow> ring_size n r w = 0 \<longleftrightarrow> r = w"
  by (auto simp: ring_size_def)

lemma ring_size_full:
  "r < n \<Longrightarrow> w < n \<Longrightarrow> (w + 1) mod n = r \<longleftrightarrow> ring_size n r w = n - 1"
  by (auto simp: mod_succ ring_size_def split: if_splits)

lemma ring_size_push:
  "r < n \<Longrightarrow> w < n \<Longrightarrow> (w + 1) mod n \<noteq> r \<Longrightarrow>
   ring_size n r ((w + 1) mod n) = ring_size n r w + 1"
  by (auto simp: mod_succ ring_size_def split: if_splits)

lemma ring_size_pop:
  "r < n \<Longrightarrow> w < n \<Longrightarrow> r \<noteq> w \<Longrightarrow> ring_size n r w = ring_size n ((r + 1) mod n) w + 1"
  by (auto simp: mod_succ ring_size_def split: if_splits)

lemma ring_size_end: "r < n \<Longrightarrow> w < n \<Longrightarrow> (r + ring_size n r w) mod n = w"
  by (auto simp: ring_size_def)

lemma ring_index_inj:
  assumes "(r + i) mod n = (r + j) mod (n::nat)" and "i < n" and "j < n"
  shows "i = j"
proof -
  have *: "i' = j'" if "(r + i') mod n = (r + j') mod n" "i' \<le> j'" "j' < n" for i' j'
  proof -
    have "n dvd (r + j') - (r + i')"
      using that by (metis mod_eq_dvd_iff_nat add_le_cancel_left)
    then have "n dvd j' - i'" by simp
    then show ?thesis using that by (metis dvd_imp_le le_neq_implies_less less_imp_diff_less
        linorder_not_le zero_less_diff)
  qed
  show ?thesis
    using *[of i j] *[of j i] assms by (cases "i \<le> j") auto
qed

lemma ring_list_length [simp]: "length (ring_list buf n r m) = m"
  by (simp add: ring_list_def)

lemma ring_list_nth: "i < m \<Longrightarrow> ring_list buf n r m ! i = buf ! ((r + i) mod n)"
  by (simp add: ring_list_def)

lemma ring_list_push:
  assumes "m < n" and "length buf = n" and "(r + m) mod n = w"
  shows "ring_list (buf[w := x]) n r (m + 1) = ring_list buf n r m @ [x]"
proof (rule nth_equalityI)
  fix i assume "i < length (ring_list (buf[w := x]) n r (m + 1))"
  then have i: "i < m + 1" by simp
  have "(r + i) mod n \<noteq> w" if "i < m"
    using ring_index_inj [of r i n m] that assms by auto
  moreover have "w < n" using assms(1,3) by (metis gr_implies_not0 mod_less_divisor not_gr0)
  ultimately show "ring_list (buf[w := x]) n r (m + 1) ! i = (ring_list buf n r m @ [x]) ! i"
    using i assms by (cases "i < m") (auto simp: ring_list_nth nth_append less_Suc_eq)
qed simp

lemma ring_list_pop:
  assumes "m < n" and "length buf = n" and "r < n"
  shows "ring_list buf n r (m + 1) = buf ! r # ring_list (buf[r := y]) n ((r + 1) mod n) m"
proof (rule nth_equalityI)
  fix i assume "i < length (ring_list buf n r (m + 1))"
  then have i: "i < m + 1" by simp
  show "ring_list buf n r (m + 1) ! i = (buf ! r # ring_list (buf[r := y]) n ((r + 1) mod n) m) ! i"
  proof (cases i)
    case 0
    then show ?thesis using assms by (simp add: ring_list_nth)
  next
    case (Suc j)
    have eq: "((r + 1) mod n + j) mod n = (r + Suc j) mod n" by (simp add: mod_add_left_eq)
    have "(r + Suc j) mod n \<noteq> r"
      using ring_index_inj [of r "Suc j" n 0] Suc i assms by auto
    then show ?thesis using Suc i eq by (auto simp: ring_list_nth simp del: mod_add_left_eq)
  qed
qed simp

section \<open>The queue alone: a bounded first-in first-out queue\<close>

definition spsc_wf :: "'a SPSCQueue \<Rightarrow> bool" where
  "spsc_wf q =
     (\<exists>k\<le>63. spsc_capacity q = 2 ^ k \<and> spsc_mask q = 2 ^ k - 1 \<and> length (spsc_buffer q) = 2 ^ k
        \<and> unat (spsc_writePos q) < 2 ^ k \<and> unat (spsc_readPos q) < 2 ^ k)"

abbreviation spsc_n :: "'a SPSCQueue \<Rightarrow> nat" where
  "spsc_n q \<equiv> unat (spsc_capacity q)"

abbreviation spsc_r :: "'a SPSCQueue \<Rightarrow> nat" where
  "spsc_r q \<equiv> unat (spsc_readPos q)"

abbreviation spsc_w :: "'a SPSCQueue \<Rightarrow> nat" where
  "spsc_w q \<equiv> unat (spsc_writePos q)"

definition spsc_contents :: "'a SPSCQueue \<Rightarrow> 'a list" where
  "spsc_contents q =
     ring_list (spsc_buffer q) (spsc_n q) (spsc_r q) (ring_size (spsc_n q) (spsc_r q) (spsc_w q))"

definition spsc_slots :: "'a SPSCQueue \<Rightarrow> nat" where
  "spsc_slots q = spsc_n q - 1"

definition spsc_room :: "'a SPSCQueue \<Rightarrow> bool" where
  "spsc_room q = (length (spsc_contents q) < spsc_slots q)"

lemma spsc_wfD:
  assumes "spsc_wf q"
  shows "spsc_r q < spsc_n q" "spsc_w q < spsc_n q" "length (spsc_buffer q) = spsc_n q"
    "\<And>x. unat x < spsc_n q \<Longrightarrow> unat ((x + 1) AND spsc_mask q) = (unat x + 1) mod spsc_n q"
  using assms unat_succ_mask by (auto simp: spsc_wf_def unat_pow2)

lemma spsc_next_write:
  "spsc_wf q \<Longrightarrow> unat ((spsc_writePos q + 1) AND spsc_mask q) = (spsc_w q + 1) mod spsc_n q"
  by (simp add: spsc_wfD)

lemma spsc_next_read:
  "spsc_wf q \<Longrightarrow> unat ((spsc_readPos q + 1) AND spsc_mask q) = (spsc_r q + 1) mod spsc_n q"
  by (simp add: spsc_wfD)

lemma spsc_length: "length (spsc_contents q) = ring_size (spsc_n q) (spsc_r q) (spsc_w q)"
  by (simp add: spsc_contents_def)

lemma spsc_full_iff:
  assumes "spsc_wf q"
  shows "(spsc_writePos q + 1) AND spsc_mask q = spsc_readPos q \<longleftrightarrow> \<not> spsc_room q"
proof -
  note wf = spsc_wfD [OF assms]
  have "(spsc_writePos q + 1) AND spsc_mask q = spsc_readPos q
      \<longleftrightarrow> (spsc_w q + 1) mod spsc_n q = spsc_r q"
    by (simp only: word_unat_eq_iff spsc_next_write [OF assms])
  also have "\<dots> \<longleftrightarrow> ring_size (spsc_n q) (spsc_r q) (spsc_w q) = spsc_n q - 1"
    using wf by (intro ring_size_full)
  also have "\<dots> \<longleftrightarrow> \<not> spsc_room q"
    using ring_size_less [OF wf(1,2)] by (auto simp: spsc_room_def spsc_slots_def spsc_length)
  finally show ?thesis .
qed

lemma spsc_wf_push: "spsc_wf q \<Longrightarrow> spsc_wf (snd (SPSCQueue_push q x))"
  using unat_succ_mask
  by (auto simp: spsc_wf_def SPSCQueue_push_def Let_def intro!: exI)

lemma spsc_wf_pop: "spsc_wf q \<Longrightarrow> spsc_wf (snd (SPSCQueue_pop mv q))"
  using unat_succ_mask
  by (auto simp: spsc_wf_def SPSCQueue_pop_def Let_def intro!: exI)

lemma spsc_push_result: "spsc_wf q \<Longrightarrow> fst (SPSCQueue_push q x) = spsc_room q"
  using spsc_full_iff by (auto simp: SPSCQueue_push_def Let_def)

lemma spsc_push_contents:
  assumes "spsc_wf q"
  shows "spsc_contents (snd (SPSCQueue_push q x)) =
    (if spsc_room q then spsc_contents q @ [x] else spsc_contents q)"
proof (cases "spsc_room q")
  case True
  note wf = spsc_wfD [OF assms]
  let ?m = "ring_size (spsc_n q) (spsc_r q) (spsc_w q)"
  have nf: "(spsc_w q + 1) mod spsc_n q \<noteq> spsc_r q"
    using True spsc_full_iff [OF assms] spsc_next_write [OF assms] by (metis word_unat_eq_iff)
  have "ring_size (spsc_n q) (spsc_r q) ((spsc_w q + 1) mod spsc_n q) = ?m + 1"
    using wf nf by (intro ring_size_push)
  moreover have "ring_list ((spsc_buffer q)[spsc_w q := x]) (spsc_n q) (spsc_r q) (?m + 1)
      = ring_list (spsc_buffer q) (spsc_n q) (spsc_r q) ?m @ [x]"
    using wf ring_size_less [OF wf(1,2)] ring_size_end [OF wf(1,2)] by (intro ring_list_push)
  ultimately show ?thesis
    using True spsc_full_iff [OF assms] spsc_next_write [OF assms]
    by (simp add: SPSCQueue_push_def Let_def spsc_contents_def)
next
  case False
  then show ?thesis
    using spsc_full_iff [OF assms] by (simp add: SPSCQueue_push_def Let_def spsc_contents_def)
qed

lemma spsc_pop_empty: "spsc_wf q \<Longrightarrow> spsc_readPos q = spsc_writePos q \<longleftrightarrow> spsc_contents q = []"
  using ring_size_zero [of "spsc_r q" "spsc_n q" "spsc_w q"] spsc_wfD [of q]
  by (metis length_0_conv spsc_length word_unat_eq_iff)

lemma spsc_pop_cons:
  assumes "spsc_wf q" and "spsc_readPos q \<noteq> spsc_writePos q"
  shows "spsc_contents q = spsc_buffer q ! spsc_r q # spsc_contents (snd (SPSCQueue_pop mv q))"
proof -
  note wf = spsc_wfD [OF assms(1)]
  let ?m = "ring_size (spsc_n q) ((spsc_r q + 1) mod spsc_n q) (spsc_w q)"
  have ne: "spsc_r q \<noteq> spsc_w q" using assms(2) by (simp add: word_unat_eq_iff)
  have size: "ring_size (spsc_n q) (spsc_r q) (spsc_w q) = ?m + 1"
    using wf ne by (intro ring_size_pop)
  then have "?m < spsc_n q" using ring_size_less [OF wf(1,2)] by simp
  then have "ring_list (spsc_buffer q) (spsc_n q) (spsc_r q) (?m + 1) =
      spsc_buffer q ! spsc_r q #
      ring_list ((spsc_buffer q)[spsc_r q := mv (spsc_buffer q ! spsc_r q)]) (spsc_n q)
        ((spsc_r q + 1) mod spsc_n q) ?m"
    using wf by (intro ring_list_pop)
  then show ?thesis
    using assms(2) size spsc_next_read [OF assms(1)]
    by (simp add: SPSCQueue_pop_def Let_def spsc_contents_def)
qed

lemma spsc_pop_result:
  "spsc_wf q \<Longrightarrow> fst (SPSCQueue_pop mv q) = (case spsc_contents q of [] \<Rightarrow> None | x # xs \<Rightarrow> Some x)"
  using spsc_pop_empty [of q] spsc_pop_cons [of q mv]
  by (cases "spsc_readPos q = spsc_writePos q") (simp_all add: SPSCQueue_pop_def Let_def)

lemma spsc_pop_contents:
  "spsc_wf q \<Longrightarrow> spsc_contents (snd (SPSCQueue_pop mv q)) = tl (spsc_contents q)"
  using spsc_pop_empty [of q] spsc_pop_cons [of q mv]
  by (cases "spsc_readPos q = spsc_writePos q") (simp_all add: SPSCQueue_pop_def Let_def)

lemma spsc_slots_push [frame_simps]: "spsc_slots (snd (SPSCQueue_push q x)) = spsc_slots q"
  by (simp add: SPSCQueue_push_def Let_def spsc_slots_def)

lemma spsc_slots_pop [frame_simps]: "spsc_slots (snd (SPSCQueue_pop mv q)) = spsc_slots q"
  by (simp add: SPSCQueue_pop_def Let_def spsc_slots_def)

lemma spsc_bound: "spsc_wf q \<Longrightarrow> length (spsc_contents q) \<le> spsc_slots q"
  using ring_size_less [of "spsc_r q" "spsc_n q" "spsc_w q"] spsc_wfD [of q]
  by (simp add: spsc_length spsc_slots_def)

interpretation spsc: bounded_fifo SPSCQueue_push "SPSCQueue_pop mv" spsc_contents spsc_room spsc_wf spsc_slots
  for mv :: "'a \<Rightarrow> 'a"
  by unfold_locales
     (simp_all add: spsc_wf_push spsc_wf_pop spsc_push_result spsc_push_contents spsc_pop_result
       spsc_pop_contents spsc_bound frame_simps, simp add: spsc_room_def)

lemma spsc_size_contents:
  assumes "spsc_wf q"
  shows "unat (SPSCQueue_size q) = length (spsc_contents q)"
proof -
  note wf = spsc_wfD [OF assms]
  show ?thesis
  proof (cases "spsc_readPos q \<le> spsc_writePos q")
    case True
    then have "unat (spsc_writePos q - spsc_readPos q) = spsc_w q - spsc_r q"
      by (simp add: unat_sub)
    then show ?thesis using True
      by (simp add: SPSCQueue_size_def Let_def spsc_length ring_size_def word_le_nat_alt)
  next
    case False
    then have lt: "spsc_w q < spsc_r q" by (simp add: word_le_nat_alt)
    have "spsc_readPos q \<le> spsc_capacity q" using wf by (simp add: word_le_nat_alt)
    then have sub: "unat (spsc_capacity q - spsc_readPos q) = spsc_n q - spsc_r q"
      by (simp add: unat_sub)
    then have "unat (spsc_capacity q - spsc_readPos q) + spsc_w q < 2 ^ 64"
      using lt wf unsigned_less [of "spsc_capacity q", where 'a = nat] by simp
    then have "unat ((spsc_capacity q - spsc_readPos q) + spsc_writePos q)
        = (spsc_n q - spsc_r q) + spsc_w q"
      by (simp add: unat_word_ariths sub)
    then show ?thesis using False lt wf
      by (simp add: SPSCQueue_size_def Let_def spsc_length ring_size_def)
  qed
qed

lemma spsc_clear_empties:
  "spsc_wf q \<Longrightarrow> \<exists>q'. SPSCQueue_clear mv q = Some q' \<and> spsc_wf q' \<and> spsc_contents q' = []
      \<and> spsc_slots q' = spsc_slots q"
proof (induction "length (spsc_contents q)" arbitrary: q)
  case 0
  then have "fst (SPSCQueue_pop mv q) = None" by (simp add: spsc_pop_result)
  moreover have "snd (SPSCQueue_pop mv q) = q"
    using 0 spsc_pop_empty [of q] by (simp add: SPSCQueue_pop_def Let_def)
  ultimately have "SPSCQueue_clear mv q = Some q"
    by (subst SPSCQueue_clear.simps) (cases "SPSCQueue_pop mv q"; simp)
  with 0 show ?case by simp
next
  case (Suc n)
  then obtain x xs where xs: "spsc_contents q = x # xs" by (cases "spsc_contents q") auto
  let ?q1 = "snd (SPSCQueue_pop mv q)"
  have "SPSCQueue_clear mv q = SPSCQueue_clear mv ?q1"
    using xs spsc_pop_result [OF Suc.prems, of mv]
    by (subst SPSCQueue_clear.simps) (cases "SPSCQueue_pop mv q"; simp)
  moreover have "n = length (spsc_contents ?q1)"
    using Suc.hyps(2) xs spsc_pop_contents [OF Suc.prems, of mv] by simp
  ultimately show ?case
    using Suc.hyps(1) [of ?q1] spsc_wf_pop [OF Suc.prems, of mv] by (simp add: frame_simps)
qed

lemma nextPowerOfTwo_pow2:
  assumes "unat n \<le> 2 ^ 63"
  obtains k where "k \<le> 63" "nextPowerOfTwo n = Some (2 ^ k)" "unat n \<le> 2 ^ k"
    "k = 0 \<or> 2 ^ (k - 1) < unat n"
proof (cases "n = 0")
  case True
  then show ?thesis using that [of 0] by (simp add: nextPowerOfTwo_def)
next
  case nz: False
  show ?thesis
  proof (cases "isPowerOfTwo n")
    case True
    then obtain k where k: "k < 64" "n = 2 ^ k"
      using word_pow2_iff [of n] by (auto simp: isPowerOfTwo_def)
    then have u: "unat n = 2 ^ k" by (simp add: unat_pow2)
    then have "k = 0 \<or> 2 ^ (k - 1) < unat n" by (cases k) auto
    then show ?thesis using that [of k] True k u nz by (simp add: nextPowerOfTwo_def)
  next
    case False
    then show ?thesis
      using doubleUntil_one [OF nz assms] nz that
      by (auto simp: nextPowerOfTwo_def)
  qed
qed

lemma spsc_ctor_wf:
  assumes "unat n \<le> 2 ^ 63"
  shows "\<exists>q. SPSCQueue_ctor dflt n = Some q \<and> spsc_wf q \<and> spsc_contents q = []
    \<and> unat n \<le> spsc_slots q + 1 \<and> (spsc_slots q = 0 \<or> spsc_slots q + 1 < 2 * unat n)"
proof -
  obtain k where k: "k \<le> 63" "nextPowerOfTwo n = Some (2 ^ k)" "unat n \<le> 2 ^ k"
    "k = 0 \<or> 2 ^ (k - 1) < unat n"
    using nextPowerOfTwo_pow2 [OF assms] by blast
  have u: "unat (2 ^ k :: 64 word) = 2 ^ k" using k by (simp add: unat_pow2)
  have "k = 0 \<or> (2::nat) ^ k < 2 * unat n" using k(4) by (cases k) auto
  with k u show ?thesis
    by (auto simp: SPSCQueue_ctor_def spsc_wf_def spsc_contents_def ring_size_def ring_list_def
        spsc_slots_def)
qed

lemma nextPowerOfTwo_None:
  assumes "2 ^ 63 < unat n"
  shows "nextPowerOfTwo n = None"
proof -
  have "\<not> isPowerOfTwo n"
  proof
    assume "isPowerOfTwo n"
    then obtain k where "k < 64" "n = 2 ^ k"
      using word_pow2_iff [of n] by (auto simp: isPowerOfTwo_def)
    then have "unat n \<le> 2 ^ 63" using pow2_le_top [of k] by simp
    then show False using assms by simp
  qed
  moreover have "n \<noteq> 0" using assms by auto
  ultimately show ?thesis using doubleUntil_diverges [OF assms] by (simp add: nextPowerOfTwo_def)
qed

lemma SPSCQueue_ctor_Some:
  assumes "SPSCQueue_ctor dflt m = Some q"
  shows "spsc_wf q" "spsc_readPos q = 0" "spsc_writePos q = 0" "spsc_n q = spsc_slots q + 1"
    "spsc_contents q = []"
proof -
  have m: "unat m \<le> 2 ^ 63"
    using nextPowerOfTwo_None [of m] assms by (cases "2 ^ 63 < unat m") (auto simp: SPSCQueue_ctor_def)
  show wf: "spsc_wf q" and "spsc_contents q = []" using spsc_ctor_wf [OF m, of dflt] assms by auto
  show "spsc_readPos q = 0" "spsc_writePos q = 0"
    using assms by (auto simp: SPSCQueue_ctor_def split: option.splits)
  show "spsc_n q = spsc_slots q + 1"
    using wf by (auto simp: spsc_slots_def spsc_wf_def unat_pow2)
qed

section \<open>Properties\<close>

text \<open>
  \<open>nextPowerOfTwo\<close> returns exactly for the arguments up to \<open>2^63\<close>, and then it returns the least
  power of two that is not smaller than the argument; for a larger argument the doubling loop wraps
  to zero and never ends, and so does the constructor.
\<close>

theorem nextPowerOfTwo_spec:
  "(case nextPowerOfTwo n of
      None \<Rightarrow> 2 ^ 63 < unat n
    | Some p \<Rightarrow> \<exists>k\<le>63. p = 2 ^ k \<and> unat n \<le> 2 ^ k \<and> (k = 0 \<or> 2 ^ (k - 1) < unat n))
   \<and> (SPSCQueue_ctor dflt n = None \<longleftrightarrow> 2 ^ 63 < unat n)"
proof (cases "unat n \<le> 2 ^ 63")
  case True
  obtain k where "k \<le> 63" "nextPowerOfTwo n = Some (2 ^ k)" "unat n \<le> 2 ^ k"
    "k = 0 \<or> 2 ^ (k - 1) < unat n"
    using nextPowerOfTwo_pow2 [OF True] by blast
  then show ?thesis using True by (auto simp: SPSCQueue_ctor_def)
next
  case False
  then show ?thesis using nextPowerOfTwo_None [of n] by (simp add: SPSCQueue_ctor_def)
qed

text \<open>
  C37: Any sequence of \<open>push\<close> and \<open>pop\<close> calls on a new queue is first-in first-out: the items that
  came out followed by the items inside are exactly the accepted items in their order, and \<open>size()\<close> is
  the number of items inside.  \<open>capacity() - 1\<close> of them fit: the next \<open>push\<close> is accepted exactly if fewer are
  inside.  The next \<open>pop\<close> gives the first accepted item that has not come out, and nothing only if there is none.
\<close>

theorem SPSCQueue_order:
  assumes "SPSCQueue_ctor dflt n = Some q"
    and "queue_run SPSCQueue_push (SPSCQueue_pop moved) q ops = (acc, out, q')"
  shows "out @ spsc_contents q' = acc \<and> unat (SPSCQueue_size q') = length (spsc_contents q')
    \<and> length (spsc_contents q') + 1 \<le> unat (spsc_capacity q)
    \<and> (fst (SPSCQueue_push q' x) \<longleftrightarrow> length acc - length out < unat (spsc_capacity q) - 1)
    \<and> fst (SPSCQueue_pop moved q') = (if length out < length acc then Some (acc ! length out) else None)"
proof -
  note ctor = SPSCQueue_ctor_Some [OF assms(1)]
  have run: "spsc_wf q' \<and> out @ spsc_contents q' = spsc_contents q @ acc"
    by (rule spsc.run_order [OF ctor(1) assms(2)])
  moreover have slots: "spsc_slots q' = spsc_slots q"
    by (rule spsc.run_slots [OF ctor(1) assms(2)])
  moreover have acc: "acc = out @ spsc_contents q'" using run ctor by simp
  moreover have "fst (SPSCQueue_push q' x) \<longleftrightarrow> length acc - length out < unat (spsc_capacity q) - 1"
    using spsc.push_result [of q' x] spsc.room_iff [of q'] run slots ctor acc by simp
  moreover have "fst (SPSCQueue_pop moved q') = (if length out < length acc then Some (acc ! length out) else None)"
    using spsc.pop_result [of q' moved] run acc by (simp split: list.split)
  ultimately show ?thesis
    using spsc_bound [of q'] spsc_size_contents [of q'] ctor by simp
qed

theorem SPSCQueue_order_witness:
  "\<exists>q q'. SPSCQueue_ctor (0::nat) 4 = Some q \<and>
     queue_run SPSCQueue_push (SPSCQueue_pop (\<lambda>x. x)) q [Push 1, Push 2, Push 3, Push 4, Pop]
       = ([1, 2, 3], [1], q') \<and> [1] @ spsc_contents q' = [1, 2, 3]"
proof -
  let ?q = "\<lparr>spsc_buffer = [0, 0, 0, 0::nat], spsc_capacity = 4, spsc_mask = 3, spsc_writePos = 0,
    spsc_readPos = 0, spsc_pushCount = 0, spsc_popCount = 0, spsc_dropCount = 0\<rparr>"
  let ?q' = "\<lparr>spsc_buffer = [1, 2, 3, 0::nat], spsc_capacity = 4, spsc_mask = 3, spsc_writePos = 3,
    spsc_readPos = 1, spsc_pushCount = 3, spsc_popCount = 1, spsc_dropCount = 1\<rparr>"
  have c: "SPSCQueue_ctor (0::nat) 4 = Some ?q"
    by (simp add: SPSCQueue_ctor_def nextPowerOfTwo_def isPowerOfTwo_def, simp add: eval_nat_numeral)
  have r: "queue_run SPSCQueue_push (SPSCQueue_pop (\<lambda>x. x)) ?q [Push 1, Push 2, Push 3, Push 4, Pop]
       = ([1, 2, 3], [1], ?q')"
    by (simp add: SPSCQueue_push_def SPSCQueue_pop_def Let_def)
  from SPSCQueue_order [OF c r] c r show ?thesis by blast
qed

text \<open>
  \<open>clear()\<close> returns: its loop of \<open>pop\<close> calls ends, and the queue it leaves is empty with the
  same capacity.
\<close>

theorem SPSCQueue_clear_returns:
  assumes "SPSCQueue_ctor dflt n = Some q"
    and "queue_run SPSCQueue_push (SPSCQueue_pop moved) q ops = (acc, out, q1)"
  shows "\<exists>q2. SPSCQueue_clear moved q1 = Some q2 \<and> SPSCQueue_empty q2 \<and> spsc_contents q2 = []
    \<and> spsc_slots q2 = spsc_slots q"
proof -
  note ctor = SPSCQueue_ctor_Some [OF assms(1)]
  have wf: "spsc_wf q1" using spsc.run_order [OF ctor(1) assms(2)] by blast
  then obtain q2 where "SPSCQueue_clear moved q1 = Some q2" "spsc_wf q2" "spsc_contents q2 = []"
    "spsc_slots q2 = spsc_slots q1"
    using spsc_clear_empties [of q1 moved] by blast
  then show ?thesis
    using spsc_pop_empty [of q2] spsc.run_slots [OF ctor(1) assms(2)] by (auto simp: SPSCQueue_empty_def)
qed

theorem SPSCQueue_clear_returns_witness:
  "\<exists>q q2. SPSCQueue_ctor (0::nat) 2 = Some q \<and> SPSCQueue_clear (\<lambda>x. x) q = Some q2 \<and> SPSCQueue_empty q2"
proof -
  let ?q = "\<lparr>spsc_buffer = [0, 0::nat], spsc_capacity = 2, spsc_mask = 1, spsc_writePos = 0,
    spsc_readPos = 0, spsc_pushCount = 0, spsc_popCount = 0, spsc_dropCount = 0\<rparr>"
  have c: "SPSCQueue_ctor (0::nat) 2 = Some ?q"
    by (simp add: SPSCQueue_ctor_def nextPowerOfTwo_def isPowerOfTwo_def, simp add: eval_nat_numeral)
  have r: "queue_run SPSCQueue_push (SPSCQueue_pop (\<lambda>x. x)) ?q [] = ([], [], ?q)" by simp
  from SPSCQueue_clear_returns [OF c r] c show ?thesis by blast
qed

end
