(* ===== verification/SpscConc.thy ===== *)
theory SpscConc imports Spsc begin

unbundle bit_operations_syntax

text \<open>
  \<open>SPSCQueue::push\<close> and \<open>SPSCQueue::pop\<close> with a producer thread and a consumer thread that run at
  the same time.  Each rule of the step relation is one atomic access of the code: a load or a
  store of a position, the write of a slot, the move out of a slot, the update of a counter.  The
  two threads interleave freely.  The release stores of the positions and the acquire loads of the
  other side's position make the slot accesses ordered as in this interleaving; the race-freedom
  theorem below is the side condition under which C++ gives the program these semantics.

  Two history variables record what the program does not keep: the items whose write position was
  published, and the items whose read position was published.
\<close>

datatype 'a prod_pc =
    PIdle
  | PLoadedWrite 'a size_t            \<comment> \<open>after line 36: item, \<open>currentWrite\<close>\<close>
  | PLoadedRead 'a size_t size_t      \<comment> \<open>after line 38: item, \<open>currentWrite\<close>, \<open>currentRead\<close>\<close>
  | PStored 'a size_t                 \<comment> \<open>after line 45: item, \<open>nextWrite\<close>\<close>
  | PPublished                        \<comment> \<open>after line 46\<close>

datatype 'a cons_pc =
    CIdle
  | CLoadedRead size_t                \<comment> \<open>after line 70: \<open>currentRead\<close>\<close>
  | CLoadedWrite size_t size_t        \<comment> \<open>after line 71: \<open>currentRead\<close>, \<open>currentWrite\<close>\<close>
  | CTaken size_t 'a                  \<comment> \<open>after line 77: \<open>currentRead\<close>, the item\<close>
  | CPublished                        \<comment> \<open>after line 79\<close>

record 'a spsc_sys =
  sys_q :: "'a SPSCQueue"
  sys_prod :: "'a prod_pc"
  sys_cons :: "'a cons_pc"
  sys_in :: "'a list"
  sys_out :: "'a list"

definition spsc_start :: "'a SPSCQueue \<Rightarrow> 'a spsc_sys" where
  "spsc_start q = \<lparr>sys_q = q, sys_prod = PIdle, sys_cons = CIdle, sys_in = [], sys_out = []\<rparr>"

inductive prod_step :: "'a spsc_sys \<Rightarrow> 'a spsc_sys \<Rightarrow> bool" where
  p_load_write: "sys_prod s = PIdle \<Longrightarrow>
     prod_step s (s\<lparr>sys_prod := PLoadedWrite x (spsc_writePos (sys_q s))\<rparr>)"
| p_load_read: "sys_prod s = PLoadedWrite x cw \<Longrightarrow>
     prod_step s (s\<lparr>sys_prod := PLoadedRead x cw (spsc_readPos (sys_q s))\<rparr>)"
| p_drop: "sys_prod s = PLoadedRead x cw cr \<Longrightarrow> (cw + 1) AND spsc_mask (sys_q s) = cr \<Longrightarrow>
     prod_step s (s\<lparr>sys_prod := PIdle,
                    sys_q := (sys_q s)\<lparr>spsc_dropCount := spsc_dropCount (sys_q s) + 1\<rparr>\<rparr>)"
| p_store: "sys_prod s = PLoadedRead x cw cr \<Longrightarrow> (cw + 1) AND spsc_mask (sys_q s) \<noteq> cr \<Longrightarrow>
     prod_step s (s\<lparr>sys_prod := PStored x ((cw + 1) AND spsc_mask (sys_q s)),
                    sys_q := (sys_q s)\<lparr>spsc_buffer := (spsc_buffer (sys_q s))[unat cw := x]\<rparr>\<rparr>)"
| p_publish: "sys_prod s = PStored x nw \<Longrightarrow>
     prod_step s (s\<lparr>sys_prod := PPublished, sys_q := (sys_q s)\<lparr>spsc_writePos := nw\<rparr>,
                    sys_in := sys_in s @ [x]\<rparr>)"
| p_count: "sys_prod s = PPublished \<Longrightarrow>
     prod_step s (s\<lparr>sys_prod := PIdle,
                    sys_q := (sys_q s)\<lparr>spsc_pushCount := spsc_pushCount (sys_q s) + 1\<rparr>\<rparr>)"

inductive cons_step :: "('a \<Rightarrow> 'a) \<Rightarrow> 'a spsc_sys \<Rightarrow> 'a spsc_sys \<Rightarrow> bool" for moved where
  c_load_read: "sys_cons s = CIdle \<Longrightarrow>
     cons_step moved s (s\<lparr>sys_cons := CLoadedRead (spsc_readPos (sys_q s))\<rparr>)"
| c_load_write: "sys_cons s = CLoadedRead cr \<Longrightarrow>
     cons_step moved s (s\<lparr>sys_cons := CLoadedWrite cr (spsc_writePos (sys_q s))\<rparr>)"
| c_none: "sys_cons s = CLoadedWrite cr cw \<Longrightarrow> cr = cw \<Longrightarrow>
     cons_step moved s (s\<lparr>sys_cons := CIdle\<rparr>)"
| c_take: "sys_cons s = CLoadedWrite cr cw \<Longrightarrow> cr \<noteq> cw \<Longrightarrow> x = spsc_buffer (sys_q s) ! unat cr \<Longrightarrow>
     cons_step moved s (s\<lparr>sys_cons := CTaken cr x,
       sys_q := (sys_q s)\<lparr>spsc_buffer := (spsc_buffer (sys_q s))[unat cr := moved x]\<rparr>\<rparr>)"
| c_publish: "sys_cons s = CTaken cr x \<Longrightarrow>
     cons_step moved s (s\<lparr>sys_cons := CPublished,
       sys_q := (sys_q s)\<lparr>spsc_readPos := (cr + 1) AND spsc_mask (sys_q s)\<rparr>,
       sys_out := sys_out s @ [x]\<rparr>)"
| c_count: "sys_cons s = CPublished \<Longrightarrow>
     cons_step moved s (s\<lparr>sys_cons := CIdle,
       sys_q := (sys_q s)\<lparr>spsc_popCount := spsc_popCount (sys_q s) + 1\<rparr>\<rparr>)"

inductive spsc_reach :: "('a \<Rightarrow> 'a) \<Rightarrow> 'a SPSCQueue \<Rightarrow> 'a spsc_sys \<Rightarrow> bool" for moved q0 where
  start: "spsc_reach moved q0 (spsc_start q0)"
| prod: "spsc_reach moved q0 s \<Longrightarrow> prod_step s t \<Longrightarrow> spsc_reach moved q0 t"
| cons: "spsc_reach moved q0 s \<Longrightarrow> cons_step moved s t \<Longrightarrow> spsc_reach moved q0 t"

section \<open>The invariant\<close>

text \<open>
  Counting from the start, the producer has published \<open>length (sys_in s)\<close> items and the consumer
  \<open>length (sys_out s)\<close>; the positions are these numbers modulo the capacity.  A position that a
  thread has loaded from the other side may be old, but only in the safe direction.
\<close>

fun prod_ok :: "nat \<Rightarrow> 'a list \<Rightarrow> nat \<Rightarrow> nat \<Rightarrow> 'a prod_pc \<Rightarrow> bool" where
  "prod_ok n buf I K PIdle = True"
| "prod_ok n buf I K (PLoadedWrite x cw) = (unat cw = I mod n)"
| "prod_ok n buf I K (PLoadedRead x cw cr) =
     (unat cw = I mod n \<and> (\<exists>o'\<le>K. unat cr = o' mod n \<and> I + 1 \<le> o' + n))"
| "prod_ok n buf I K (PStored x nw) =
     (unat nw = (I + 1) mod n \<and> I + 2 \<le> K + n \<and> buf ! (I mod n) = x)"
| "prod_ok n buf I K PPublished = True"

fun cons_ok :: "nat \<Rightarrow> 'a list \<Rightarrow> nat \<Rightarrow> 'a cons_pc \<Rightarrow> bool" where
  "cons_ok n ins K CIdle = True"
| "cons_ok n ins K (CLoadedRead cr) = (unat cr = K mod n)"
| "cons_ok n ins K (CLoadedWrite cr cw) =
     (unat cr = K mod n \<and> (\<exists>i. K \<le> i \<and> i \<le> length ins \<and> unat cw = i mod n))"
| "cons_ok n ins K (CTaken cr x) = (unat cr = K mod n \<and> K < length ins \<and> x = ins ! K)"
| "cons_ok n ins K CPublished = True"

fun is_taken :: "'a cons_pc \<Rightarrow> bool" where
  "is_taken (CTaken cr x) = True"
| "is_taken pc = False"

definition ring_static :: "nat \<Rightarrow> size_t \<Rightarrow> nat \<Rightarrow> bool" where
  "ring_static n msk len = (\<exists>k\<le>63. n = 2 ^ k \<and> msk = 2 ^ k - 1 \<and> len = n)"

text \<open>The slots hold the published items that were not taken yet.\<close>

definition slots_ok :: "nat \<Rightarrow> 'a list \<Rightarrow> 'a list \<Rightarrow> nat \<Rightarrow> bool \<Rightarrow> bool" where
  "slots_ok n buf ins K taken =
     (\<forall>i. K \<le> i \<and> i < length ins \<and> \<not> (i = K \<and> taken) \<longrightarrow> buf ! (i mod n) = ins ! i)"

definition spsc_inv :: "nat \<Rightarrow> 'a spsc_sys \<Rightarrow> bool" where
  "spsc_inv n s =
     (ring_static n (spsc_mask (sys_q s)) (length (spsc_buffer (sys_q s)))
       \<and> spsc_w (sys_q s) = length (sys_in s) mod n \<and> spsc_r (sys_q s) = length (sys_out s) mod n
       \<and> length (sys_out s) \<le> length (sys_in s) \<and> length (sys_in s) + 1 \<le> length (sys_out s) + n
       \<and> sys_out s = take (length (sys_out s)) (sys_in s)
       \<and> slots_ok n (spsc_buffer (sys_q s)) (sys_in s) (length (sys_out s)) (is_taken (sys_cons s))
       \<and> prod_ok n (spsc_buffer (sys_q s)) (length (sys_in s)) (length (sys_out s)) (sys_prod s)
       \<and> cons_ok n (sys_in s) (length (sys_out s)) (sys_cons s))"

lemma ring_static_next:
  "ring_static n msk len \<Longrightarrow> unat c = i mod n \<Longrightarrow> unat ((c + 1) AND msk) = (i + 1) mod n"
proof -
  assume st: "ring_static n msk len" and c: "unat c = i mod n"
  then obtain k where k: "k \<le> 63" "n = 2 ^ k" "msk = 2 ^ k - 1"
    by (auto simp: ring_static_def)
  have "unat ((c + 1) AND msk) = (unat c + 1) mod 2 ^ k"
    using unat_succ_mask [of k c] k c by simp
  then show ?thesis using c k by (simp add: mod_Suc_eq)
qed

lemma ring_static_len: "ring_static n msk len \<Longrightarrow> len = n \<and> 0 < n"
  by (auto simp: ring_static_def)

lemma mod_differ: "i < j \<Longrightarrow> j < i + n \<Longrightarrow> i mod n \<noteq> j mod (n::nat)"
proof
  assume h: "i < j" "j < i + n" "i mod n = j mod n"
  then have "j - i < n" by (simp add: less_diff_conv2)
  then show False using ring_index_inj [of i 0 n "j - i"] h by simp
qed

lemma spsc_inv_start:
  assumes "spsc_wf q" and "spsc_readPos q = 0" and "spsc_writePos q = 0"
  shows "spsc_inv (spsc_n q) (spsc_start q)"
  using assms
  by (auto simp: spsc_inv_def spsc_start_def ring_static_def spsc_wf_def slots_ok_def unat_pow2)

lemma cons_ok_snoc: "cons_ok n ins K pc \<Longrightarrow> cons_ok n (ins @ [x]) K pc"
  by (cases pc) (auto simp: nth_append intro: le_SucI)

lemma cons_ok_taken: "cons_ok n ins K pc \<Longrightarrow> is_taken pc \<Longrightarrow> K < length ins"
  by (cases pc) auto

lemma prod_ok_later: "prod_ok n buf I K pc \<Longrightarrow> prod_ok n buf I (Suc K) pc"
  by (cases pc) (auto intro: le_SucI)

lemma prod_ok_other_slot:
  "prod_ok n buf I K pc \<Longrightarrow> j \<noteq> I mod n \<Longrightarrow> prod_ok n (buf[j := y]) I K pc"
  by (cases pc) auto

lemma slots_ok_store:
  assumes "slots_ok n buf ins K taken" and "length ins < K + n"
  shows "slots_ok n (buf[length ins mod n := x]) ins K taken"
  using assms mod_differ [of _ "length ins" n] by (fastforce simp: slots_ok_def)

lemma slots_ok_publish:
  assumes "slots_ok n buf ins K taken" and "buf ! (length ins mod n) = x"
  shows "slots_ok n buf (ins @ [x]) K taken"
  using assms by (auto simp: slots_ok_def nth_append less_Suc_eq)

lemma slots_ok_take:
  assumes "slots_ok n buf ins K taken" and "length ins < K + n"
  shows "slots_ok n (buf[K mod n := y]) ins K True"
  using assms mod_differ [of K _ n] by (fastforce simp: slots_ok_def)

lemma slots_ok_advance: "slots_ok n buf ins K True \<Longrightarrow> slots_ok n buf ins (Suc K) False"
  by (auto simp: slots_ok_def)

lemma store_has_room:
  assumes inv: "spsc_inv n s" and pc: "sys_prod s = PLoadedRead x cw cr"
    and "(cw + 1) AND spsc_mask (sys_q s) \<noteq> cr"
  shows "length (sys_in s) + 2 \<le> length (sys_out s) + n" and "unat cw = length (sys_in s) mod n"
proof -
  let ?I = "length (sys_in s)" and ?K = "length (sys_out s)"
  have st: "ring_static n (spsc_mask (sys_q s)) (length (spsc_buffer (sys_q s)))"
    and cw: "unat cw = ?I mod n"
    using inv pc by (auto simp: spsc_inv_def)
  obtain o' where o': "o' \<le> ?K" "unat cr = o' mod n" "?I + 1 \<le> o' + n"
    using inv pc by (auto simp: spsc_inv_def)
  have "?I + 1 \<noteq> o' + n"
    using ring_static_next [OF st cw] o' assms(3) by (metis mod_add_self2 word_unat_eq_iff)
  then show "?I + 2 \<le> ?K + n" using o' by simp
  show "unat cw = ?I mod n" by (fact cw)
qed

lemma take_has_item:
  assumes inv: "spsc_inv n s" and pc: "sys_cons s = CLoadedWrite cr cw" and "cr \<noteq> cw"
  shows "length (sys_out s) < length (sys_in s)" and "unat cr = length (sys_out s) mod n"
proof -
  obtain i where i: "length (sys_out s) \<le> i" "i \<le> length (sys_in s)" "unat cw = i mod n"
    and cr: "unat cr = length (sys_out s) mod n"
    using inv pc by (auto simp: spsc_inv_def)
  have "i \<noteq> length (sys_out s)" using cr i assms(3) by (metis word_unat_eq_iff)
  then show "length (sys_out s) < length (sys_in s)" using i by simp
  show "unat cr = length (sys_out s) mod n" by (fact cr)
qed

lemma prod_step_inv:
  assumes "prod_step s t" and inv: "spsc_inv n s"
  shows "spsc_inv n t"
  using assms
proof (induction rule: prod_step.induct)
  case (p_load_read s x cw)
  then show ?case by (auto simp: spsc_inv_def)
next
  case (p_store s x cw cr)
  let ?I = "length (sys_in s)" and ?K = "length (sys_out s)"
  from p_store have st: "ring_static n (spsc_mask (sys_q s)) (length (spsc_buffer (sys_q s)))"
    by (auto simp: spsc_inv_def)
  note room = store_has_room(1) [OF p_store.prems p_store.hyps]
  note cw = store_has_room(2) [OF p_store.prems p_store.hyps]
  note nx = ring_static_next [OF st cw]
  have "slots_ok n ((spsc_buffer (sys_q s))[unat cw := x]) (sys_in s) ?K
      (is_taken (sys_cons s))"
    using p_store.prems cw room by (auto simp: spsc_inv_def intro!: slots_ok_store)
  then show ?case
    using p_store.prems cw nx room ring_static_len [OF st] by (simp add: spsc_inv_def)
next
  case (p_publish s x nw)
  then show ?case
    by (simp add: spsc_inv_def cons_ok_snoc slots_ok_publish)
qed (simp_all add: spsc_inv_def)

lemma cons_step_inv:
  assumes "cons_step mv s t" and inv: "spsc_inv n s"
  shows "spsc_inv n t"
  using assms
proof (induction rule: cons_step.induct)
  case (c_load_write s cr)
  then show ?case by (auto simp: spsc_inv_def)
next
  case (c_take s cr cw x)
  let ?I = "length (sys_in s)" and ?K = "length (sys_out s)"
  note lt = take_has_item(1) [OF c_take.prems c_take.hyps(1,2)]
  note cr = take_has_item(2) [OF c_take.prems c_take.hyps(1,2)]
  have bd: "?I < ?K + n" using c_take.prems by (auto simp: spsc_inv_def)
  have x: "x = sys_in s ! ?K"
    using c_take lt cr by (auto simp: spsc_inv_def slots_ok_def)
  have "slots_ok n ((spsc_buffer (sys_q s))[unat cr := mv x]) (sys_in s) ?K True"
    using c_take.prems cr by (auto simp: spsc_inv_def intro!: slots_ok_take)
  moreover have "prod_ok n ((spsc_buffer (sys_q s))[unat cr := mv x]) ?I ?K (sys_prod s)"
    using c_take.prems cr mod_differ [OF lt bd] by (auto simp: spsc_inv_def intro!: prod_ok_other_slot)
  ultimately show ?case
    using c_take.prems c_take.hyps(1) cr x lt by (simp add: spsc_inv_def)
next
  case (c_publish s cr x)
  let ?K = "length (sys_out s)"
  from c_publish have st: "ring_static n (spsc_mask (sys_q s)) (length (spsc_buffer (sys_q s)))"
    and cr: "unat cr = ?K mod n"
    and h: "?K < length (sys_in s)" "x = sys_in s ! ?K" "sys_out s = take ?K (sys_in s)"
    by (auto simp: spsc_inv_def)
  have "sys_out s @ [x] = take (Suc ?K) (sys_in s)"
    using h by (simp add: take_Suc_conv_app_nth)
  then show ?case
    using c_publish h ring_static_next [OF st cr]
    by (simp add: spsc_inv_def prod_ok_later slots_ok_advance)
qed (simp_all add: spsc_inv_def)

lemma spsc_reach_inv:
  assumes "spsc_reach mv q s" and "spsc_wf q" and "spsc_readPos q = 0" and "spsc_writePos q = 0"
  shows "spsc_inv (spsc_n q) s"
  using assms
  by (induction rule: spsc_reach.induct)
     (auto intro: spsc_inv_start prod_step_inv cons_step_inv)

lemma spsc_reach_ctor:
  "SPSCQueue_ctor dflt m = Some q \<Longrightarrow> spsc_reach mv q s \<Longrightarrow> spsc_inv (spsc_slots q + 1) s"
  using spsc_reach_inv [of mv q s] SPSCQueue_ctor_Some [of dflt m q] by simp

section \<open>A run of four steps, for the witnesses\<close>

definition demo_q :: "nat SPSCQueue" where
  "demo_q = \<lparr>spsc_buffer = [0, 0, 0, 0], spsc_capacity = 4, spsc_mask = 3, spsc_writePos = 0,
    spsc_readPos = 0, spsc_pushCount = 0, spsc_popCount = 0, spsc_dropCount = 0\<rparr>"

definition demo_q2 :: "nat SPSCQueue" where
  "demo_q2 = \<lparr>spsc_buffer = [0, 0], spsc_capacity = 2, spsc_mask = 1, spsc_writePos = 0,
    spsc_readPos = 0, spsc_pushCount = 0, spsc_popCount = 0, spsc_dropCount = 0\<rparr>"

lemma demo_ctor: "SPSCQueue_ctor 0 4 = Some demo_q" "SPSCQueue_ctor 0 2 = Some demo_q2"
  by (simp_all add: SPSCQueue_ctor_def nextPowerOfTwo_def isPowerOfTwo_def demo_q_def demo_q2_def,
      simp_all add: eval_nat_numeral)

definition demo_sys ::
  "nat SPSCQueue \<Rightarrow> nat list \<Rightarrow> size_t \<Rightarrow> uint64 \<Rightarrow> nat prod_pc \<Rightarrow> nat cons_pc \<Rightarrow> nat list \<Rightarrow>
   nat spsc_sys" where
  "demo_sys q buf w n p c ins =
     \<lparr>sys_q = q\<lparr>spsc_buffer := buf, spsc_writePos := w, spsc_pushCount := n\<rparr>,
      sys_prod = p, sys_cons = c, sys_in = ins, sys_out = []\<rparr>"

lemmas demo_simps = demo_sys_def demo_q_def demo_q2_def prod_step.simps cons_step.simps

text \<open>One push of the item 7, up to the producer's next load, with an idle consumer.\<close>

lemma demo_pushed:
  assumes "q = demo_q \<and> buf = [7, 0, 0, 0] \<or> q = demo_q2 \<and> buf = [7, 0]"
  shows "spsc_reach (\<lambda>x. x) q (demo_sys q buf 1 1 (PLoadedWrite 8 1) CIdle [7])"
proof -
  have "spsc_reach (\<lambda>x. x) q (demo_sys q (spsc_buffer q) 0 0 PIdle CIdle [])"
    using assms spsc_reach.start [of "\<lambda>x. x" q] by (auto simp: demo_simps spsc_start_def)
  then have "spsc_reach (\<lambda>x. x) q (demo_sys q (spsc_buffer q) 0 0 (PLoadedWrite 7 0) CIdle [])"
    by (rule spsc_reach.prod) (use assms in \<open>auto simp: demo_simps\<close>)
  then have "spsc_reach (\<lambda>x. x) q (demo_sys q (spsc_buffer q) 0 0 (PLoadedRead 7 0 0) CIdle [])"
    by (rule spsc_reach.prod) (use assms in \<open>auto simp: demo_simps\<close>)
  then have "spsc_reach (\<lambda>x. x) q (demo_sys q buf 0 0 (PStored 7 1) CIdle [])"
    by (rule spsc_reach.prod) (use assms in \<open>auto simp: demo_simps\<close>)
  then have "spsc_reach (\<lambda>x. x) q (demo_sys q buf 1 0 PPublished CIdle [7])"
    by (rule spsc_reach.prod) (use assms in \<open>auto simp: demo_simps\<close>)
  then have "spsc_reach (\<lambda>x. x) q (demo_sys q buf 1 1 PIdle CIdle [7])"
    by (rule spsc_reach.prod) (use assms in \<open>auto simp: demo_simps\<close>)
  then show ?thesis
    by (rule spsc_reach.prod) (use assms in \<open>auto simp: demo_simps\<close>)
qed

lemma demo_both_ready:
  "spsc_reach (\<lambda>x. x) demo_q (demo_sys demo_q [7, 0, 0, 0] 1 1 (PLoadedRead 8 1 0) (CLoadedWrite 0 1) [7])"
proof -
  have "spsc_reach (\<lambda>x. x) demo_q (demo_sys demo_q [7, 0, 0, 0] 1 1 (PLoadedWrite 8 1) (CLoadedRead 0) [7])"
    by (rule spsc_reach.cons [OF demo_pushed [of demo_q]]) (simp_all add: demo_simps)
  then have "spsc_reach (\<lambda>x. x) demo_q (demo_sys demo_q [7, 0, 0, 0] 1 1 (PLoadedWrite 8 1) (CLoadedWrite 0 1) [7])"
    by (rule spsc_reach.cons) (simp add: demo_simps)
  then show ?thesis
    by (rule spsc_reach.prod) (simp add: demo_simps)
qed

lemma demo_taken:
  "spsc_reach (\<lambda>x. x) demo_q (demo_sys demo_q [7, 0, 0, 0] 1 1 (PLoadedRead 8 1 0) (CTaken 0 7) [7])"
  by (rule spsc_reach.cons [OF demo_both_ready]) (simp add: demo_simps)

section \<open>Properties\<close>

text \<open>
  C1: With one producer and one consumer thread whose accesses interleave in any order, what the
  consumer has received is a prefix of what the producer has published (no item is lost,
  duplicated, torn or reordered), the item the consumer is moving out is the next one of that
  sequence, and at most \<open>capacity() - 1\<close> items are ever in flight.
\<close>

theorem spsc_concurrent_fifo:
  assumes "SPSCQueue_ctor dflt m = Some q" and "spsc_reach moved q s"
  shows "sys_out s = take (length (sys_out s)) (sys_in s)
    \<and> length (sys_in s) \<le> length (sys_out s) + spsc_slots q
    \<and> (\<forall>cr x. sys_cons s = CTaken cr x \<longrightarrow>
          length (sys_out s) < length (sys_in s) \<and> x = sys_in s ! length (sys_out s))"
  using spsc_reach_ctor [OF assms] by (auto simp: spsc_inv_def)

theorem spsc_concurrent_fifo_witness:
  "\<exists>s. spsc_reach (\<lambda>x. x) demo_q s \<and> sys_in s = [7] \<and> sys_cons s = CTaken 0 7 \<and>
     (7::nat) = sys_in s ! length (sys_out s)"
  using spsc_concurrent_fifo [OF demo_ctor(1) demo_taken] demo_taken
  by (intro exI [of _ "demo_sys demo_q [7, 0, 0, 0] 1 1 (PLoadedRead 8 1 0) (CTaken 0 7) [7]"])
     (simp add: demo_sys_def)

text \<open>
  The producer and the consumer never touch the same slot at the same time: when the producer
  is about to write a slot and the consumer is about to move out of one, the slots differ.  This is
  the absence of a data race on the buffer, which the queue has no lock to prevent.
\<close>

theorem spsc_slots_disjoint:
  assumes "SPSCQueue_ctor dflt m = Some q" and "spsc_reach moved q s"
    and "sys_prod s = PLoadedRead x cw cr" and "(cw + 1) AND spsc_mask (sys_q s) \<noteq> cr"
    and "sys_cons s = CLoadedWrite cr' cw'" and "cr' \<noteq> cw'"
  shows "cw \<noteq> cr'"
proof -
  have inv: "spsc_inv (spsc_slots q + 1) s" by (rule spsc_reach_ctor [OF assms(1,2)])
  have "unat cw \<noteq> unat cr'"
    using store_has_room [OF inv assms(3,4)] take_has_item [OF inv assms(5,6)]
      mod_differ [of "length (sys_out s)" "length (sys_in s)" "spsc_slots q + 1"] by simp
  then show ?thesis by auto
qed

theorem spsc_slots_disjoint_witness:
  "spsc_reach (\<lambda>x. x) demo_q (demo_sys demo_q [7, 0, 0, 0] 1 1 (PLoadedRead 8 1 0) (CLoadedWrite 0 1) [7])
   \<and> (1::size_t) \<noteq> 0"
  using spsc_slots_disjoint [OF demo_ctor(1) demo_both_ready, of 8 1 0 0 1] demo_both_ready
  by (simp add: demo_sys_def demo_q_def)

text \<open>
  A push is refused only if the queue held \<open>capacity() - 1\<close> published items at the moment the
  producer loaded the read position: a refusal is never caused by the other thread's progress.
\<close>

theorem spsc_refused_when_full:
  assumes "SPSCQueue_ctor dflt m = Some q" and "spsc_reach moved q s"
    and "prod_step s t" and "sys_prod s = PLoadedWrite x cw" and "sys_prod t = PLoadedRead x cw cr"
    and "(cw + 1) AND spsc_mask (sys_q t) = cr"
  shows "length (sys_in s) = length (sys_out s) + spsc_slots q"
proof -
  let ?n = "spsc_slots q + 1" and ?I = "length (sys_in s)" and ?K = "length (sys_out s)"
  have inv: "spsc_inv ?n s" by (rule spsc_reach_ctor [OF assms(1,2)])
  have t: "cr = spsc_readPos (sys_q s)" "sys_q t = sys_q s"
    using assms(3-5) by (auto elim: prod_step.cases)
  have st: "ring_static ?n (spsc_mask (sys_q s)) (length (spsc_buffer (sys_q s)))"
    and h: "unat cw = ?I mod ?n" "spsc_r (sys_q s) = ?K mod ?n" "?K \<le> ?I" "?I + 1 \<le> ?K + ?n"
    using inv assms(4) by (auto simp: spsc_inv_def)
  have "(?I + 1) mod ?n = ?K mod ?n"
    using ring_static_next [OF st h(1)] assms(6) t h(2) by simp
  then have "?I + 1 = ?K + ?n"
    using mod_differ [of ?K "?I + 1" ?n] h by (metis le_imp_less_Suc Suc_eq_plus1 le_neq_implies_less)
  then show ?thesis by simp
qed

theorem spsc_refused_when_full_witness:
  "length [7::nat] = length ([] :: nat list) + spsc_slots demo_q2"
proof -
  let ?s = "demo_sys demo_q2 [7, 0] 1 1 (PLoadedWrite 8 1) CIdle [7]"
  let ?t = "demo_sys demo_q2 [7, 0] 1 1 (PLoadedRead 8 1 0) CIdle [7]"
  have reach: "spsc_reach (\<lambda>x. x) demo_q2 ?s" by (rule demo_pushed) simp
  have step: "prod_step ?s ?t" by (simp add: demo_simps)
  show ?thesis
    using spsc_refused_when_full [OF demo_ctor(2) reach step, of 8 1 0]
    by (simp add: demo_sys_def demo_q2_def)
qed

end
