(* ===== verification/SpscWeak.thy ===== *)
theory SpscWeak imports SpscConc begin

unbundle bit_operations_syntax

text \<open>
  \<open>SPSCQueue::push\<close> and \<open>SPSCQueue::pop\<close> under the release/acquire memory model of C++.  A store to a
  position is a message that stays in the memory; a load may read any message that is not older than the
  newest one its thread has seen.  A release store carries the view of its thread, and an acquire load joins
  the view it reads into its own.  A view records, besides the newest message seen of each position, how many
  accesses to each slot of the buffer have happened before: the slots are plain memory, so an access
  that does not see every earlier access of the other thread is a data race, after which C++ promises
  nothing.  The race is a flag of the state.

  The counters are updated by atomic read-modify-write operations, which always see the newest value.
\<close>

record view =
  vw_write :: nat
  vw_read :: nat
  vw_stores :: "nat \<Rightarrow> nat"
  vw_takes :: "nat \<Rightarrow> nat"

definition view_join :: "view \<Rightarrow> view \<Rightarrow> view" where
  "view_join v w =
     \<lparr>vw_write = max (vw_write v) (vw_write w), vw_read = max (vw_read v) (vw_read w),
      vw_stores = (\<lambda>j. max (vw_stores v j) (vw_stores w j)), vw_takes = (\<lambda>j. max (vw_takes v j) (vw_takes w j))\<rparr>"

definition view_start :: view where
  "view_start = \<lparr>vw_write = 0, vw_read = 0, vw_stores = (\<lambda>_. 0), vw_takes = (\<lambda>_. 0)\<rparr>"

record 'a weak_sys =
  wk_buffer :: "'a list"
  wk_mask :: size_t
  wk_wmsgs :: "(size_t \<times> view) list"    \<comment> \<open>the stores to \<open>m_writePos\<close>, oldest first\<close>
  wk_rmsgs :: "(size_t \<times> view) list"    \<comment> \<open>the stores to \<open>m_readPos\<close>\<close>
  wk_stores :: "nat \<Rightarrow> nat"               \<comment> \<open>the accesses of the producer to each slot\<close>
  wk_takes :: "nat \<Rightarrow> nat"                \<comment> \<open>the accesses of the consumer\<close>
  wk_race :: bool
  wk_pview :: view
  wk_cview :: view
  wk_prod :: "'a prod_pc"
  wk_cons :: "'a cons_pc"
  wk_pushCount :: uint64
  wk_popCount :: uint64
  wk_dropCount :: uint64
  wk_in :: "'a list"
  wk_out :: "'a list"

definition weak_start :: "'a SPSCQueue \<Rightarrow> 'a weak_sys" where
  "weak_start q =
     \<lparr>wk_buffer = spsc_buffer q, wk_mask = spsc_mask q, wk_wmsgs = [(spsc_writePos q, view_start)],
      wk_rmsgs = [(spsc_readPos q, view_start)], wk_stores = (\<lambda>_. 0), wk_takes = (\<lambda>_. 0), wk_race = False,
      wk_pview = view_start, wk_cview = view_start, wk_prod = PIdle, wk_cons = CIdle,
      wk_pushCount = spsc_pushCount q, wk_popCount = spsc_popCount q, wk_dropCount = spsc_dropCount q,
      wk_in = [], wk_out = []\<rparr>"

text \<open>Does a thread with this view race when it touches slot \<open>j\<close>?\<close>

definition slot_race :: "'a weak_sys \<Rightarrow> view \<Rightarrow> nat \<Rightarrow> bool" where
  "slot_race s v j \<longleftrightarrow> vw_stores v j < wk_stores s j \<or> vw_takes v j < wk_takes s j"

inductive weak_push :: "'a weak_sys \<Rightarrow> 'a weak_sys \<Rightarrow> bool" where
  w_load_write: "wk_prod s = PIdle \<Longrightarrow> vw_write (wk_pview s) \<le> i \<Longrightarrow> i < length (wk_wmsgs s) \<Longrightarrow>
     weak_push s (s\<lparr>wk_prod := PLoadedWrite x (fst (wk_wmsgs s ! i)), wk_pview := (wk_pview s)\<lparr>vw_write := i\<rparr>\<rparr>)"
| w_load_read: "wk_prod s = PLoadedWrite x cw \<Longrightarrow> vw_read (wk_pview s) \<le> i \<Longrightarrow> i < length (wk_rmsgs s) \<Longrightarrow>
     weak_push s (s\<lparr>wk_prod := PLoadedRead x cw (fst (wk_rmsgs s ! i)),
       wk_pview := view_join ((wk_pview s)\<lparr>vw_read := i\<rparr>) (snd (wk_rmsgs s ! i))\<rparr>)"
| w_drop: "wk_prod s = PLoadedRead x cw cr \<Longrightarrow> (cw + 1) AND wk_mask s = cr \<Longrightarrow>
     weak_push s (s\<lparr>wk_prod := PIdle, wk_dropCount := wk_dropCount s + 1\<rparr>)"
| w_store: "wk_prod s = PLoadedRead x cw cr \<Longrightarrow> (cw + 1) AND wk_mask s \<noteq> cr \<Longrightarrow> j = unat cw \<Longrightarrow>
     weak_push s (s\<lparr>wk_prod := PStored x ((cw + 1) AND wk_mask s), wk_buffer := (wk_buffer s)[j := x],
       wk_stores := (wk_stores s)(j := wk_stores s j + 1), wk_race := wk_race s \<or> slot_race s (wk_pview s) j,
       wk_pview := (wk_pview s)\<lparr>vw_stores := (vw_stores (wk_pview s))(j := wk_stores s j + 1)\<rparr>\<rparr>)"
| w_publish: "wk_prod s = PStored x nw \<Longrightarrow> v = (wk_pview s)\<lparr>vw_write := length (wk_wmsgs s)\<rparr> \<Longrightarrow>
     weak_push s (s\<lparr>wk_prod := PPublished, wk_wmsgs := wk_wmsgs s @ [(nw, v)], wk_pview := v, wk_in := wk_in s @ [x]\<rparr>)"
| w_count: "wk_prod s = PPublished \<Longrightarrow>
     weak_push s (s\<lparr>wk_prod := PIdle, wk_pushCount := wk_pushCount s + 1\<rparr>)"

inductive weak_pop :: "('a \<Rightarrow> 'a) \<Rightarrow> 'a weak_sys \<Rightarrow> 'a weak_sys \<Rightarrow> bool" for moved where
  r_load_read: "wk_cons s = CIdle \<Longrightarrow> vw_read (wk_cview s) \<le> i \<Longrightarrow> i < length (wk_rmsgs s) \<Longrightarrow>
     weak_pop moved s (s\<lparr>wk_cons := CLoadedRead (fst (wk_rmsgs s ! i)), wk_cview := (wk_cview s)\<lparr>vw_read := i\<rparr>\<rparr>)"
| r_load_write: "wk_cons s = CLoadedRead cr \<Longrightarrow> vw_write (wk_cview s) \<le> i \<Longrightarrow> i < length (wk_wmsgs s) \<Longrightarrow>
     weak_pop moved s (s\<lparr>wk_cons := CLoadedWrite cr (fst (wk_wmsgs s ! i)),
       wk_cview := view_join ((wk_cview s)\<lparr>vw_write := i\<rparr>) (snd (wk_wmsgs s ! i))\<rparr>)"
| r_none: "wk_cons s = CLoadedWrite cr cw \<Longrightarrow> cr = cw \<Longrightarrow>
     weak_pop moved s (s\<lparr>wk_cons := CIdle\<rparr>)"
| r_take: "wk_cons s = CLoadedWrite cr cw \<Longrightarrow> cr \<noteq> cw \<Longrightarrow> j = unat cr \<Longrightarrow> x = wk_buffer s ! j \<Longrightarrow>
     weak_pop moved s (s\<lparr>wk_cons := CTaken cr x, wk_buffer := (wk_buffer s)[j := moved x],
       wk_takes := (wk_takes s)(j := wk_takes s j + 1), wk_race := wk_race s \<or> slot_race s (wk_cview s) j,
       wk_cview := (wk_cview s)\<lparr>vw_takes := (vw_takes (wk_cview s))(j := wk_takes s j + 1)\<rparr>\<rparr>)"
| r_publish: "wk_cons s = CTaken cr x \<Longrightarrow> v = (wk_cview s)\<lparr>vw_read := length (wk_rmsgs s)\<rparr> \<Longrightarrow>
     weak_pop moved s (s\<lparr>wk_cons := CPublished, wk_rmsgs := wk_rmsgs s @ [((cr + 1) AND wk_mask s, v)], wk_cview := v,
       wk_out := wk_out s @ [x]\<rparr>)"
| r_count: "wk_cons s = CPublished \<Longrightarrow>
     weak_pop moved s (s\<lparr>wk_cons := CIdle, wk_popCount := wk_popCount s + 1\<rparr>)"

inductive weak_reach :: "('a \<Rightarrow> 'a) \<Rightarrow> 'a SPSCQueue \<Rightarrow> 'a weak_sys \<Rightarrow> bool" for moved q0 where
  weak_first: "weak_reach moved q0 (weak_start q0)"
| weak_prod: "weak_reach moved q0 s \<Longrightarrow> weak_push s t \<Longrightarrow> weak_reach moved q0 t"
| weak_cons: "weak_reach moved q0 s \<Longrightarrow> weak_pop moved s t \<Longrightarrow> weak_reach moved q0 t"

section \<open>Counting the accesses\<close>

text \<open>How many of the first \<open>m\<close> items fall into slot \<open>j\<close>.\<close>

fun uses :: "nat \<Rightarrow> nat \<Rightarrow> nat \<Rightarrow> nat" where
  "uses n 0 j = 0"
| "uses n (Suc m) j = uses n m j + (if m mod n = j then 1 else 0)"

lemma uses_mono: "a \<le> b \<Longrightarrow> uses n a j \<le> uses n b j"
  by (induction b) (auto simp: le_Suc_eq)

lemma uses_same: "a \<le> b \<Longrightarrow> (\<And>i. a \<le> i \<Longrightarrow> i < b \<Longrightarrow> i mod n \<noteq> j) \<Longrightarrow> uses n b j = uses n a j"
  by (induction b) (auto simp: le_Suc_eq)

lemma uses_max: "uses n a j \<le> x \<Longrightarrow> uses n b j \<le> y \<Longrightarrow> uses n (max a b) j \<le> max x y"
  by (auto simp: max_def)

section \<open>The invariant\<close>

text \<open>A view that is possible: nothing newer than the memory, and every access that its messages imply.\<close>

definition view_ok :: "nat \<Rightarrow> nat \<Rightarrow> nat \<Rightarrow> (nat \<Rightarrow> nat) \<Rightarrow> (nat \<Rightarrow> nat) \<Rightarrow> view \<Rightarrow> bool" where
  "view_ok n writes reads stores takes v \<longleftrightarrow> vw_write v < writes \<and> vw_read v < reads
     \<and> (\<forall>j. uses n (vw_write v) j \<le> vw_stores v j \<and> vw_stores v j \<le> stores j)
     \<and> (\<forall>j. uses n (vw_read v) j \<le> vw_takes v j \<and> vw_takes v j \<le> takes j)"

abbreviation view_in :: "nat \<Rightarrow> 'a weak_sys \<Rightarrow> view \<Rightarrow> bool" where
  "view_in n s \<equiv> view_ok n (length (wk_wmsgs s)) (length (wk_rmsgs s)) (wk_stores s) (wk_takes s)"

definition msgs_ok :: "nat \<Rightarrow> 'a weak_sys \<Rightarrow> bool" where
  "msgs_ok n s \<longleftrightarrow>
     (\<forall>i < length (wk_wmsgs s). unat (fst (wk_wmsgs s ! i)) = i mod n \<and> view_in n s (snd (wk_wmsgs s ! i))
        \<and> vw_write (snd (wk_wmsgs s ! i)) = i)
     \<and> (\<forall>i < length (wk_rmsgs s). unat (fst (wk_rmsgs s ! i)) = i mod n \<and> view_in n s (snd (wk_rmsgs s ! i))
        \<and> vw_read (snd (wk_rmsgs s ! i)) = i)"

fun is_stored :: "'a prod_pc \<Rightarrow> bool" where
  "is_stored (PStored x nw) = True"
| "is_stored pc = False"

definition stored :: "'a weak_sys \<Rightarrow> nat" where
  "stored s = length (wk_in s) + (if is_stored (wk_prod s) then 1 else 0)"

definition taken_count :: "'a weak_sys \<Rightarrow> nat" where
  "taken_count s = length (wk_out s) + (if is_taken (wk_cons s) then 1 else 0)"

definition prod_view_ok :: "nat \<Rightarrow> 'a weak_sys \<Rightarrow> bool" where
  "prod_view_ok n s \<longleftrightarrow> view_in n s (wk_pview s) \<and> vw_write (wk_pview s) = length (wk_in s)
     \<and> vw_stores (wk_pview s) = wk_stores s \<and> length (wk_in s) + 1 \<le> vw_read (wk_pview s) + n
     \<and> prod_ok n (wk_buffer s) (length (wk_in s)) (vw_read (wk_pview s)) (wk_prod s)"

definition cons_view_ok :: "nat \<Rightarrow> 'a weak_sys \<Rightarrow> bool" where
  "cons_view_ok n s \<longleftrightarrow> view_in n s (wk_cview s) \<and> vw_read (wk_cview s) = length (wk_out s)
     \<and> vw_takes (wk_cview s) = wk_takes s \<and> taken_count s \<le> vw_write (wk_cview s)
     \<and> cons_ok n (take (vw_write (wk_cview s)) (wk_in s)) (length (wk_out s)) (wk_cons s)"

definition weak_ring :: "nat \<Rightarrow> 'a weak_sys \<Rightarrow> bool" where
  "weak_ring n s \<longleftrightarrow> \<not> wk_race s \<and> ring_static n (wk_mask s) (length (wk_buffer s))
     \<and> length (wk_wmsgs s) = Suc (length (wk_in s)) \<and> length (wk_rmsgs s) = Suc (length (wk_out s))
     \<and> wk_stores s = uses n (stored s) \<and> wk_takes s = uses n (taken_count s)
     \<and> wk_out s = take (length (wk_out s)) (wk_in s)
     \<and> slots_ok n (wk_buffer s) (wk_in s) (length (wk_out s)) (is_taken (wk_cons s))"

definition weak_inv :: "nat \<Rightarrow> 'a weak_sys \<Rightarrow> bool" where
  "weak_inv n s \<longleftrightarrow> weak_ring n s \<and> msgs_ok n s \<and> prod_view_ok n s \<and> cons_view_ok n s"

lemmas weak_inv_defs = weak_inv_def weak_ring_def

lemmas weak_defs = weak_inv_defs msgs_ok_def prod_view_ok_def cons_view_ok_def

text \<open>The two counts see only the list and the program counter of their own thread.\<close>

lemma counts_frame [simp]:
  "taken_count (wk_prod_update f s) = taken_count s" "taken_count (wk_pview_update g s) = taken_count s"
  "taken_count (wk_dropCount_update h s) = taken_count s" "taken_count (wk_pushCount_update h s) = taken_count s"
  "taken_count (wk_buffer_update k s) = taken_count s" "taken_count (wk_stores_update l s) = taken_count s"
  "taken_count (wk_race_update r s) = taken_count s" "taken_count (wk_wmsgs_update m s) = taken_count s"
  "taken_count (wk_in_update ins s) = taken_count s"
  "stored (wk_cons_update p s) = stored s" "stored (wk_cview_update g s) = stored s"
  "stored (wk_popCount_update h s) = stored s" "stored (wk_buffer_update k s) = stored s"
  "stored (wk_takes_update l s) = stored s" "stored (wk_race_update r s) = stored s"
  "stored (wk_rmsgs_update m s) = stored s" "stored (wk_out_update q s) = stored s"
  "stored (wk_pview_update g s) = stored s" "stored (wk_dropCount_update h s) = stored s"
  "stored (wk_pushCount_update h s) = stored s" "stored (wk_stores_update l s) = stored s"
  "stored (wk_wmsgs_update m s) = stored s" "taken_count (wk_cview_update g s) = taken_count s"
  "taken_count (wk_popCount_update h s) = taken_count s" "taken_count (wk_takes_update l s) = taken_count s"
  "taken_count (wk_rmsgs_update m s) = taken_count s"
  by (simp_all add: stored_def taken_count_def)

lemma stored_pc: "stored (s\<lparr>wk_prod := pc\<rparr>) = length (wk_in s) + (if is_stored pc then 1 else 0)"
  "wk_prod s = pc \<Longrightarrow> stored s = length (wk_in s) + (if is_stored pc then 1 else 0)"
  by (simp_all add: stored_def)

lemma taken_pc: "taken_count (s\<lparr>wk_cons := pc\<rparr>) = length (wk_out s) + (if is_taken pc then 1 else 0)"
  "wk_cons s = pc \<Longrightarrow> taken_count s = length (wk_out s) + (if is_taken pc then 1 else 0)"
  by (simp_all add: taken_count_def)

lemma weak_inv_start:
  assumes "spsc_wf q" and "spsc_readPos q = 0" and "spsc_writePos q = 0"
  shows "weak_inv (spsc_n q) (weak_start q)"
proof -
  have "ring_static (spsc_n q) (spsc_mask q) (length (spsc_buffer q))" and "0 < spsc_n q"
    using assms(1) by (auto simp: ring_static_def spsc_wf_def unat_pow2)
  then show ?thesis
    using assms(2,3) fun_eq_iff [of "uses (spsc_n q) 0" "\<lambda>_. 0"] by (simp add: weak_defs view_ok_def stored_def taken_count_def weak_start_def view_start_def slots_ok_def)
qed

lemma weak_bounds:
  assumes "weak_inv n s"
  shows "vw_read (wk_pview s) \<le> length (wk_out s)" "vw_write (wk_cview s) \<le> length (wk_in s)"
    "length (wk_out s) \<le> length (wk_in s)" "length (wk_in s) + 1 \<le> length (wk_out s) + n"
    "taken_count s \<le> length (wk_in s)"
  using assms by (auto simp: weak_defs view_ok_def stored_def taken_count_def split: if_splits)

lemma view_same: "vw_write v = i \<Longrightarrow> v\<lparr>vw_write := i\<rparr> = v" "vw_read v = i \<Longrightarrow> v\<lparr>vw_read := i\<rparr> = v"
  by simp_all

lemma view_ok_join: "view_ok n W R S T v \<Longrightarrow> view_ok n W R S T w \<Longrightarrow> view_ok n W R S T (view_join v w)"
  by (auto simp: view_ok_def view_join_def intro: uses_max)

lemma prod_ok_mono: "K \<le> K' \<Longrightarrow> prod_ok n buf I K pc \<Longrightarrow> prod_ok n buf I K' pc"
  by (cases pc) (auto intro: order_trans)

lemma cons_ok_mono:
  assumes "a \<le> b" and "b \<le> length ins" and "cons_ok n (take a ins) K pc"
  shows "cons_ok n (take b ins) K pc"
  using assms by (cases pc) (auto simp: min_def split: if_splits intro: order_trans)


text \<open>A step of one thread leaves the views of the messages and of the other thread possible.\<close>

lemma view_ok_frame:
  "view_ok n W R S T v \<Longrightarrow> W \<le> W' \<Longrightarrow> R \<le> R' \<Longrightarrow> S \<le> S' \<Longrightarrow> T \<le> T' \<Longrightarrow> view_ok n W' R' S' T' v"
  unfolding view_ok_def le_fun_def by (meson le_trans order_less_le_trans)

lemma msgs_frame:
  assumes "msgs_ok n s" and "wk_wmsgs t = wk_wmsgs s" and "wk_rmsgs t = wk_rmsgs s"
    and "wk_stores s \<le> wk_stores t" and "wk_takes s \<le> wk_takes t"
  shows "msgs_ok n t"
  using assms unfolding msgs_ok_def by (auto elim!: view_ok_frame)

lemma msgs_write:
  assumes "msgs_ok n s" and "wk_wmsgs t = wk_wmsgs s @ [(nw, v)]" and "wk_rmsgs t = wk_rmsgs s"
    and "wk_stores t = wk_stores s" and "wk_takes t = wk_takes s"
    and "view_in n t v" and "vw_write v = length (wk_wmsgs s)" and "unat nw = length (wk_wmsgs s) mod n"
  shows "msgs_ok n t"
  using assms unfolding msgs_ok_def by (auto simp: nth_append less_Suc_eq elim!: view_ok_frame)

lemma msgs_read:
  assumes "msgs_ok n s" and "wk_rmsgs t = wk_rmsgs s @ [(nr, v)]" and "wk_wmsgs t = wk_wmsgs s"
    and "wk_stores t = wk_stores s" and "wk_takes t = wk_takes s"
    and "view_in n t v" and "vw_read v = length (wk_rmsgs s)" and "unat nr = length (wk_rmsgs s) mod n"
  shows "msgs_ok n t"
  using assms unfolding msgs_ok_def by (auto simp: nth_append less_Suc_eq elim!: view_ok_frame)

lemma cons_frame:
  assumes "cons_view_ok n s" and "wk_cview t = wk_cview s" and "wk_out t = wk_out s" and "wk_cons t = wk_cons s"
    and "wk_takes t = wk_takes s" and "wk_rmsgs t = wk_rmsgs s" and "length (wk_wmsgs s) \<le> length (wk_wmsgs t)"
    and "wk_stores s \<le> wk_stores t"
    and "take (vw_write (wk_cview s)) (wk_in t) = take (vw_write (wk_cview s)) (wk_in s)"
  shows "cons_view_ok n t"
  using assms unfolding cons_view_ok_def taken_count_def by (auto elim!: view_ok_frame)

lemma prod_frame:
  assumes "prod_view_ok n s" and "wk_pview t = wk_pview s" and "wk_in t = wk_in s" and "wk_prod t = wk_prod s"
    and "wk_stores t = wk_stores s" and "wk_wmsgs t = wk_wmsgs s" and "length (wk_rmsgs s) \<le> length (wk_rmsgs t)"
    and "wk_takes s \<le> wk_takes t"
    and "prod_ok n (wk_buffer t) (length (wk_in s)) (vw_read (wk_pview s)) (wk_prod s)"
  shows "prod_view_ok n t"
  using assms unfolding prod_view_ok_def by (auto elim!: view_ok_frame)

lemma fun_upd_le: "S \<le> S(j := Suc (S j))" for S :: "nat \<Rightarrow> nat"
  by (simp add: le_fun_def)

lemma weak_own:
  assumes "weak_inv n s"
  shows "view_in n s (wk_pview s)" "vw_write (wk_pview s) = length (wk_in s)" "vw_stores (wk_pview s) = wk_stores s"
    "view_in n s (wk_cview s)" "vw_read (wk_cview s) = length (wk_out s)" "vw_takes (wk_cview s) = wk_takes s"
  using assms unfolding weak_inv_defs prod_view_ok_def cons_view_ok_def by blast+

lemma weak_load_write:
  assumes "weak_inv n s" and "vw_write (wk_pview s) \<le> i" and "i < length (wk_wmsgs s)"
  shows "i = vw_write (wk_pview s)" and "unat (fst (wk_wmsgs s ! i)) = length (wk_in s) mod n"
proof -
  show i: "i = vw_write (wk_pview s)" using assms by (auto simp: weak_inv_defs prod_view_ok_def)
  show "unat (fst (wk_wmsgs s ! i)) = length (wk_in s) mod n"
    using assms i by (simp add: weak_inv_defs msgs_ok_def prod_view_ok_def)
qed

lemma weak_load_read:
  assumes "weak_inv n s" and "vw_read (wk_cview s) \<le> i" and "i < length (wk_rmsgs s)"
  shows "i = vw_read (wk_cview s)" and "unat (fst (wk_rmsgs s ! i)) = length (wk_out s) mod n"
proof -
  show i: "i = vw_read (wk_cview s)" using assms by (auto simp: weak_inv_defs cons_view_ok_def)
  show "unat (fst (wk_rmsgs s ! i)) = length (wk_out s) mod n"
    using assms i by (simp add: weak_inv_defs msgs_ok_def cons_view_ok_def)
qed

lemma weak_store_room:
  assumes inv: "weak_inv n s" and pc: "wk_prod s = PLoadedRead x cw cr" and "(cw + 1) AND wk_mask s \<noteq> cr"
  shows "length (wk_in s) + 2 \<le> vw_read (wk_pview s) + n" and "unat cw = length (wk_in s) mod n"
    and "\<not> slot_race s (wk_pview s) (unat cw)"
proof -
  let ?I = "length (wk_in s)" and ?v = "wk_pview s"
  have st: "ring_static n (wk_mask s) (length (wk_buffer s))" and cw: "unat cw = ?I mod n"
    using inv pc by (auto simp: weak_inv_defs prod_view_ok_def)
  obtain o' where o': "o' \<le> vw_read ?v" "unat cr = o' mod n" "?I + 1 \<le> o' + n"
    using inv pc by (auto simp: weak_inv_defs prod_view_ok_def)
  have "?I + 1 \<noteq> o' + n"
    using ring_static_next [OF st cw] o' assms(3) by (metis mod_add_self2 word_unat_eq_iff)
  then show room: "?I + 2 \<le> vw_read ?v + n" using o' by simp
  show "unat cw = ?I mod n" by (fact cw)
  note b = weak_bounds [OF inv]
  have "uses n (taken_count s) (unat cw) = uses n (vw_read ?v) (unat cw)"
  proof (rule uses_same)
    show "vw_read ?v \<le> taken_count s" using b(1) by (simp add: taken_count_def)
    show "i mod n \<noteq> unat cw" if "vw_read ?v \<le> i" "i < taken_count s" for i
      using mod_differ [of i ?I n] that room b(5) cw by simp
  qed
  then show "\<not> slot_race s ?v (unat cw)"
    using inv by (simp add: slot_race_def weak_inv_defs prod_view_ok_def view_ok_def) (metis leD)
qed

lemma weak_take_item:
  assumes inv: "weak_inv n s" and pc: "wk_cons s = CLoadedWrite cr cw" and "cr \<noteq> cw"
  shows "length (wk_out s) < vw_write (wk_cview s)" and "unat cr = length (wk_out s) mod n"
    and "\<not> slot_race s (wk_cview s) (unat cr)"
proof -
  let ?K = "length (wk_out s)" and ?v = "wk_cview s"
  note b = weak_bounds [OF inv]
  have cr: "unat cr = ?K mod n" using inv pc by (auto simp: weak_inv_defs cons_view_ok_def)
  obtain i where i: "?K \<le> i" "i \<le> vw_write ?v" "unat cw = i mod n"
    using inv pc b(2) by (auto simp: weak_inv_defs cons_view_ok_def)
  have "i \<noteq> ?K" using cr i assms(3) by (metis word_unat_eq_iff)
  then show lt: "?K < vw_write ?v" using i by simp
  show "unat cr = ?K mod n" by (fact cr)
  have "stored s < ?K + n"
  proof (cases "is_stored (wk_prod s)")
    case True
    then obtain x nw where "wk_prod s = PStored x nw" by (cases "wk_prod s") auto
    then have "length (wk_in s) + 2 \<le> vw_read (wk_pview s) + n"
      using inv by (simp add: weak_inv_defs prod_view_ok_def)
    then show ?thesis using b(1) True by (simp add: stored_def)
  qed (use b(4) in \<open>simp add: stored_def\<close>)
  moreover have "vw_write ?v \<le> stored s" using b(2) by (simp add: stored_def)
  ultimately have "uses n (stored s) (unat cr) = uses n (vw_write ?v) (unat cr)"
    using lt cr by (intro uses_same) (simp_all add: mod_differ [THEN not_sym])
  then show "\<not> slot_race s ?v (unat cr)"
    using inv by (simp add: slot_race_def weak_inv_defs cons_view_ok_def view_ok_def) (metis leD)
qed

lemma uses_Suc_upd: "j = m mod n \<Longrightarrow> uses n (Suc m) = (uses n m)(j := uses n m j + 1)"
  by (rule ext) simp

lemma weak_push_inv:
  assumes "weak_push s t" and "weak_inv n s"
  shows "weak_inv n t"
  using assms
proof (induction rule: weak_push.induct)
  case (w_load_write s i x)
  note l = weak_load_write [OF w_load_write(4,2,3)]
  have "i = length (wk_in s)" using l(1) w_load_write(4) by (simp add: weak_inv_defs prod_view_ok_def)
  then have same: "(wk_pview s)\<lparr>vw_write := i\<rparr> = wk_pview s" using l(1) view_same(1) by metis
  have "stored (s\<lparr>wk_prod := PLoadedWrite x c\<rparr>) = stored s" for c using w_load_write(1) by (simp add: stored_def)
  then show ?case using w_load_write l(2) unfolding same by (auto simp: weak_defs)
next
  case (w_load_read s x cw i)
  define v where "v = view_join ((wk_pview s)\<lparr>vw_read := i\<rparr>) (snd (wk_rmsgs s ! i))"
  let ?w = "snd (wk_rmsgs s ! i)"
  have w: "view_in n s ?w" "vw_read ?w = i" "unat (fst (wk_rmsgs s ! i)) = i mod n"
    using w_load_read by (auto simp: weak_inv_defs msgs_ok_def)
  have p: "prod_view_ok n s" "length (wk_wmsgs s) = Suc (length (wk_in s))" using w_load_read by (simp_all add: weak_inv_defs)
  have join: "vw_write v = length (wk_in s)" "vw_read v = i" "vw_stores v = wk_stores s"
    "vw_takes v = (\<lambda>j. max (vw_takes (wk_pview s) j) (vw_takes ?w j))"
    using p w by (auto simp: v_def view_join_def prod_view_ok_def view_ok_def max_def fun_eq_iff le_antisym)
  have "view_in n s v"
    using p(1) w(1) w_load_read(3) join p(2) unfolding view_ok_def prod_view_ok_def by (auto simp: w(2) le_max_iff_disj)
  then show ?case
    using w_load_read p(1) join w(3) stored_pc(2) [OF w_load_read(1)] unfolding v_def [symmetric] by (auto simp: weak_defs stored_pc(1))
next
  case (w_store s x cw cr j)
  note r = weak_store_room [OF w_store(4,1,2)]
  have st: "ring_static n (wk_mask s) (length (wk_buffer s))" using w_store by (simp add: weak_inv_defs)
  note nx = ring_static_next [OF st r(2)]
  have parts: "msgs_ok n s" "cons_view_ok n s" "length (wk_wmsgs s) = Suc (length (wk_in s))"
    and S: "wk_stores s = uses n (length (wk_in s))"
    using w_store by (simp_all add: weak_inv_defs stored_def)
  have upd: "uses n (Suc (length (wk_in s))) = (wk_stores s)(j := wk_stores s j + 1)"
    using uses_Suc_upd [of j "length (wk_in s)" n] r(2) w_store(3) S by simp
  define t where "t = s\<lparr>wk_prod := PStored x ((cw + 1) AND wk_mask s), wk_buffer := (wk_buffer s)[j := x],
    wk_stores := (wk_stores s)(j := wk_stores s j + 1), wk_race := wk_race s \<or> slot_race s (wk_pview s) j,
    wk_pview := (wk_pview s)\<lparr>vw_stores := (vw_stores (wk_pview s))(j := wk_stores s j + 1)\<rparr>\<rparr>"
  have slots: "slots_ok n (wk_buffer t) (wk_in s) (length (wk_out s)) (is_taken (wk_cons s))"
    using w_store r(1,2) weak_bounds(1) [OF w_store(4)] by (auto simp: weak_inv_defs t_def intro!: slots_ok_store)
  have "view_in n t (wk_pview t)" using weak_own(1,3) [OF w_store(4)] by (auto simp: t_def view_ok_def intro: le_SucI)
  then have "prod_view_ok n t"
    using weak_own(2,3) [OF w_store(4)] r nx ring_static_len [OF st] w_store(3) by (auto simp: prod_view_ok_def t_def)
  moreover have "msgs_ok n t" by (rule msgs_frame [OF parts(1)]) (simp_all add: t_def fun_upd_le)
  moreover have "cons_view_ok n t" by (rule cons_frame [OF parts(2)]) (simp_all add: t_def fun_upd_le)
  moreover have "weak_ring n t"
    using w_store(3,4) r(3) slots upd by (simp add: weak_inv_defs t_def stored_def taken_count_def)
  ultimately have "weak_inv n t" by (simp add: weak_inv_def)
  then show ?case by (simp add: t_def)
next
  case (w_publish s x nw v)
  note own = weak_own(1-3) [OF w_publish(3)] and b = weak_bounds [OF w_publish(3)]
  have pc: "unat nw = (length (wk_in s) + 1) mod n" "length (wk_in s) + 2 \<le> vw_read (wk_pview s) + n"
      "wk_buffer s ! (length (wk_in s) mod n) = x"
    and len: "length (wk_wmsgs s) = Suc (length (wk_in s))"
    and S: "wk_stores s = uses n (Suc (length (wk_in s)))"
    and parts: "msgs_ok n s" "cons_view_ok n s"
    using w_publish by (simp_all add: weak_inv_defs prod_view_ok_def stored_def)
  define t where "t = s\<lparr>wk_prod := PPublished, wk_wmsgs := wk_wmsgs s @ [(nw, v)], wk_pview := v, wk_in := wk_in s @ [x]\<rparr>"
  have v: "view_in n t v" "vw_write v = length (wk_wmsgs s)"
    using own S len w_publish(2) by (simp_all add: view_ok_def t_def)
  have slots: "slots_ok n (wk_buffer s) (wk_in s @ [x]) (length (wk_out s)) (is_taken (wk_cons s))"
    using w_publish pc by (auto simp: weak_inv_defs intro!: slots_ok_publish)
  have "prod_view_ok n t" using v own pc len w_publish(2) by (simp add: prod_view_ok_def t_def)
  moreover have "msgs_ok n t" by (rule msgs_write [OF parts(1) _ _ _ _ v]) (use pc len in \<open>simp_all add: t_def\<close>)
  moreover have "cons_view_ok n t" by (rule cons_frame [OF parts(2)]) (use b in \<open>simp_all add: t_def\<close>)
  moreover have "weak_ring n t"
    using w_publish(1,3) slots b len by (simp add: weak_inv_defs t_def stored_def taken_count_def)
  ultimately have "weak_inv n t" by (simp add: weak_inv_def)
  then show ?case by (simp add: t_def)
qed (auto simp: weak_defs stored_pc)

lemma weak_pop_inv:
  assumes "weak_pop moved s t" and "weak_inv n s"
  shows "weak_inv n t"
  using assms
proof (induction rule: weak_pop.induct)
  case (r_load_read s i)
  note l = weak_load_read [OF r_load_read(4,2,3)]
  have "i = length (wk_out s)" using l(1) r_load_read(4) by (simp add: weak_inv_defs cons_view_ok_def)
  then have same: "(wk_cview s)\<lparr>vw_read := i\<rparr> = wk_cview s" using l(1) view_same(2) by metis
  have "taken_count (s\<lparr>wk_cons := CLoadedRead c\<rparr>) = taken_count s" for c using r_load_read(1) by (simp add: taken_count_def)
  then show ?case using r_load_read l(2) unfolding same by (auto simp: weak_defs)
next
  case (r_load_write s cr i)
  define v where "v = view_join ((wk_cview s)\<lparr>vw_write := i\<rparr>) (snd (wk_wmsgs s ! i))"
  let ?w = "snd (wk_wmsgs s ! i)"
  have w: "view_in n s ?w" "vw_write ?w = i" "unat (fst (wk_wmsgs s ! i)) = i mod n"
    and p: "cons_view_ok n s" "msgs_ok n s" "prod_view_ok n s" "weak_ring n s" "length (wk_rmsgs s) = Suc (length (wk_out s))"
    and ins: "length (wk_wmsgs s) = Suc (length (wk_in s))" "length (wk_out s) \<le> vw_write (wk_cview s)"
      "unat cr = length (wk_out s) mod n"
    using r_load_write by (auto simp: weak_inv_defs msgs_ok_def cons_view_ok_def taken_count_def)
  have join: "vw_read v = length (wk_out s)" "vw_write v = i" "vw_takes v = wk_takes s"
    "vw_stores v = (\<lambda>j. max (vw_stores (wk_cview s) j) (vw_stores ?w j))"
    using p w by (auto simp: v_def view_join_def cons_view_ok_def view_ok_def max_def fun_eq_iff le_antisym)
  have v: "view_in n s v"
    using p(1) w(1) r_load_write(3) join p(5) unfolding view_ok_def cons_view_ok_def by (auto simp: w(2) le_max_iff_disj)
  define t where "t = s\<lparr>wk_cons := CLoadedWrite cr (fst (wk_wmsgs s ! i)), wk_cview := v\<rparr>"
  have "cons_ok n (take i (wk_in s)) (length (wk_out s)) (wk_cons t)"
    using w(3) ins r_load_write(2,3) by (simp add: t_def) (intro exI [of _ i]; simp)
  then have "cons_view_ok n t"
    using v join ins(2) r_load_write(2) by (simp add: cons_view_ok_def t_def taken_count_def)
  moreover have "msgs_ok n t" by (rule msgs_frame [OF p(2)]) (simp_all add: t_def)
  moreover have "prod_view_ok n t" by (rule prod_frame [OF p(3)]) (use p(3) in \<open>simp_all add: t_def prod_view_ok_def\<close>)
  moreover have "weak_ring n t" using p(4) r_load_write(1) by (simp add: weak_ring_def t_def stored_def taken_count_def)
  ultimately have "weak_inv n t" by (simp add: weak_inv_def)
  then show ?case by (simp add: t_def v_def)
next
  case (r_take s cr cw j x)
  note r = weak_take_item [OF r_take(5,1,2)] and b = weak_bounds [OF r_take(5)] and own = weak_own [OF r_take(5)]
  have parts: "msgs_ok n s" "prod_view_ok n s" and T: "wk_takes s = uses n (length (wk_out s))"
    and slots: "slots_ok n (wk_buffer s) (wk_in s) (length (wk_out s)) False"
    using r_take by (simp_all add: weak_inv_defs taken_count_def)
  have K: "length (wk_out s) < length (wk_in s)" using r(1) b(2) by simp
  have x: "x = wk_in s ! length (wk_out s)" using slots K r_take(3,4) r(2) by (simp add: slots_ok_def)
  have upd: "uses n (Suc (length (wk_out s))) = (wk_takes s)(j := wk_takes s j + 1)"
    using uses_Suc_upd [of j "length (wk_out s)" n] r(2) r_take(3) T by simp
  define t where "t = s\<lparr>wk_cons := CTaken cr x, wk_buffer := (wk_buffer s)[j := moved x],
    wk_takes := (wk_takes s)(j := wk_takes s j + 1), wk_race := wk_race s \<or> slot_race s (wk_cview s) j,
    wk_cview := (wk_cview s)\<lparr>vw_takes := (vw_takes (wk_cview s))(j := wk_takes s j + 1)\<rparr>\<rparr>"
  have slots': "slots_ok n (wk_buffer t) (wk_in s) (length (wk_out s)) True"
    using slots_ok_take [OF slots] b(4) r(2) r_take(3) by (simp add: t_def)
  have pk: "prod_ok n (wk_buffer s) (length (wk_in s)) (vw_read (wk_pview s)) (wk_prod s)"
    using parts(2) by (simp add: prod_view_ok_def)
  have "j \<noteq> length (wk_in s) mod n" using mod_differ [OF K, of n] b(4) r(2) r_take(3) by simp
  then have other: "prod_ok n (wk_buffer t) (length (wk_in s)) (vw_read (wk_pview s)) (wk_prod s)"
    using prod_ok_other_slot [OF pk] by (simp add: t_def)
  have "view_in n t (wk_cview t)" using own(4,6) by (auto simp: t_def view_ok_def intro: le_SucI)
  then have "cons_view_ok n t"
    using own(5,6) r b(2) K x r_take(3) by (auto simp: cons_view_ok_def t_def taken_count_def)
  moreover have "msgs_ok n t" by (rule msgs_frame [OF parts(1)]) (simp_all add: t_def fun_upd_le)
  moreover have "prod_view_ok n t" by (rule prod_frame [OF parts(2)]) (use other in \<open>simp_all add: t_def fun_upd_le\<close>)
  moreover have "weak_ring n t"
    using r_take(3,5) r(3) slots' upd by (simp add: weak_inv_defs t_def stored_def taken_count_def)
  ultimately have "weak_inv n t" by (simp add: weak_inv_def)
  then show ?case by (simp add: t_def)
next
  case (r_publish s cr x v)
  note own = weak_own [OF r_publish(3)] and b = weak_bounds [OF r_publish(3)]
  have st: "ring_static n (wk_mask s) (length (wk_buffer s))" and cr: "unat cr = length (wk_out s) mod n"
    and x: "length (wk_out s) < length (wk_in s)" "x = wk_in s ! length (wk_out s)"
    and len: "length (wk_rmsgs s) = Suc (length (wk_out s))" and W: "Suc (length (wk_out s)) \<le> vw_write (wk_cview s)"
    and T: "wk_takes s = uses n (Suc (length (wk_out s)))" and outs: "wk_out s = take (length (wk_out s)) (wk_in s)"
    and slots: "slots_ok n (wk_buffer s) (wk_in s) (length (wk_out s)) True"
    and parts: "msgs_ok n s" "prod_view_ok n s"
    using r_publish by (auto simp: weak_inv_defs cons_view_ok_def taken_count_def)
  define t where "t = s\<lparr>wk_cons := CPublished, wk_rmsgs := wk_rmsgs s @ [((cr + 1) AND wk_mask s, v)], wk_cview := v,
       wk_out := wk_out s @ [x]\<rparr>"
  have v: "view_in n t v" "vw_read v = length (wk_rmsgs s)"
    using own T len r_publish(2) by (simp_all add: view_ok_def t_def)
  have snoc: "wk_out s @ [x] = take (Suc (length (wk_out s))) (wk_in s)"
    using x outs by (simp add: take_Suc_conv_app_nth)
  have "cons_view_ok n t" using v own len W r_publish(2) by (simp add: cons_view_ok_def t_def taken_count_def)
  moreover have "msgs_ok n t"
    by (rule msgs_read [OF parts(1) _ _ _ _ v]) (use ring_static_next [OF st cr] len in \<open>simp_all add: t_def\<close>)
  moreover have "prod_view_ok n t"
    by (rule prod_frame [OF parts(2)]) (use parts(2) in \<open>simp_all add: t_def prod_view_ok_def\<close>)
  moreover have "weak_ring n t"
    using r_publish(1,3) slots_ok_advance [OF slots] snoc len T x(1) by (simp add: weak_inv_defs t_def stored_def taken_count_def)
  ultimately have "weak_inv n t" by (simp add: weak_inv_def)
  then show ?case by (simp add: t_def)
qed (auto simp: weak_defs taken_count_def)

lemma weak_reach_inv:
  assumes "weak_reach moved q s" and "spsc_wf q" and "spsc_readPos q = 0" and "spsc_writePos q = 0"
  shows "weak_inv (spsc_n q) s"
  using assms by (induction rule: weak_reach.induct) (auto intro: weak_inv_start weak_push_inv weak_pop_inv)

section \<open>A run for the witness\<close>

text \<open>
  One push of the item 7 and one pop, in which the consumer first reads the old write position
  and finds the queue empty, although the producer has already published.
\<close>

lemma demo_weak:
  "\<exists>s. weak_reach (\<lambda>x. x) demo_q s \<and> wk_in s = [7] \<and> wk_out s = [7]"
proof -
  let ?s0 = "weak_start demo_q"
  note sel = weak_start_def demo_q_def view_start_def view_join_def
  define s1 where "s1 = ?s0\<lparr>wk_prod := PLoadedWrite 7 (fst (wk_wmsgs ?s0 ! 0)), wk_pview := (wk_pview ?s0)\<lparr>vw_write := 0\<rparr>\<rparr>"
  have 1: "weak_reach (\<lambda>x. x) demo_q s1"
    unfolding s1_def by (rule weak_prod [OF weak_first w_load_write]) (simp_all add: sel)
  define s2 where "s2 = s1\<lparr>wk_prod := PLoadedRead 7 0 (fst (wk_rmsgs s1 ! 0)),
       wk_pview := view_join ((wk_pview s1)\<lparr>vw_read := 0\<rparr>) (snd (wk_rmsgs s1 ! 0))\<rparr>"
  have 2: "weak_reach (\<lambda>x. x) demo_q s2"
    unfolding s2_def by (rule weak_prod [OF 1 w_load_read]) (simp_all add: s1_def sel)
  define s3 where "s3 = s2\<lparr>wk_prod := PStored 7 ((0 + 1) AND wk_mask s2), wk_buffer := (wk_buffer s2)[0 := 7],
       wk_stores := (wk_stores s2)(0 := wk_stores s2 0 + 1), wk_race := wk_race s2 \<or> slot_race s2 (wk_pview s2) 0,
       wk_pview := (wk_pview s2)\<lparr>vw_stores := (vw_stores (wk_pview s2))(0 := wk_stores s2 0 + 1)\<rparr>\<rparr>"
  have 3: "weak_reach (\<lambda>x. x) demo_q s3"
    unfolding s3_def by (rule weak_prod [OF 2 w_store [where cr = 0 and cw = 0]]) (simp_all add: s2_def s1_def sel)
  define s4 where "s4 = s3\<lparr>wk_prod := PPublished, wk_wmsgs := wk_wmsgs s3 @ [(1, (wk_pview s3)\<lparr>vw_write := length (wk_wmsgs s3)\<rparr>)],
       wk_pview := (wk_pview s3)\<lparr>vw_write := length (wk_wmsgs s3)\<rparr>, wk_in := wk_in s3 @ [7]\<rparr>"
  have 4: "weak_reach (\<lambda>x. x) demo_q s4"
    unfolding s4_def by (rule weak_prod [OF 3 w_publish]) (simp_all add: s3_def s2_def s1_def sel)
  have f: "wk_cons s4 = CIdle" "fst (wk_rmsgs s4 ! 0) = 0" "length (wk_rmsgs s4) = 1" "length (wk_wmsgs s4) = 2"
    "wk_wmsgs s4 ! 0 = (0, view_start)" "fst (wk_wmsgs s4 ! Suc 0) = 1" "wk_buffer s4 ! 0 = 7" "wk_cview s4 = view_start"
    "wk_in s4 = [7]" "wk_out s4 = []"
    by (simp_all add: s4_def s3_def s2_def s1_def sel)
  define s5 where "s5 = s4\<lparr>wk_cons := CLoadedRead (fst (wk_rmsgs s4 ! 0)), wk_cview := (wk_cview s4)\<lparr>vw_read := 0\<rparr>\<rparr>"
  have 5: "weak_reach (\<lambda>x. x) demo_q s5"
    unfolding s5_def by (rule weak_cons [OF 4 r_load_read]) (simp_all add: f view_start_def)
  define s6 where "s6 = s5\<lparr>wk_cons := CLoadedWrite 0 (fst (wk_wmsgs s5 ! 0)),
       wk_cview := view_join ((wk_cview s5)\<lparr>vw_write := 0\<rparr>) (snd (wk_wmsgs s5 ! 0))\<rparr>"
  have 6: "weak_reach (\<lambda>x. x) demo_q s6"
    unfolding s6_def by (rule weak_cons [OF 5 r_load_write]) (simp_all add: s5_def f view_start_def)
  define s7 where "s7 = s6\<lparr>wk_cons := CIdle\<rparr>"
  have 7: "weak_reach (\<lambda>x. x) demo_q s7"
    unfolding s7_def by (rule weak_cons [OF 6 r_none]) (simp_all add: s6_def s5_def f)
  have g: "wk_cons s7 = CIdle" "fst (wk_rmsgs s7 ! 0) = 0" "length (wk_rmsgs s7) = 1" "length (wk_wmsgs s7) = 2"
    "fst (wk_wmsgs s7 ! Suc 0) = 1" "wk_buffer s7 ! 0 = 7" "vw_read (wk_cview s7) = 0" "vw_write (wk_cview s7) = 0"
    "wk_in s7 = [7]" "wk_out s7 = []"
    by (simp_all add: s7_def s6_def s5_def f view_join_def view_start_def)
  define s8 where "s8 = s7\<lparr>wk_cons := CLoadedRead (fst (wk_rmsgs s7 ! 0)), wk_cview := (wk_cview s7)\<lparr>vw_read := 0\<rparr>\<rparr>"
  have 8: "weak_reach (\<lambda>x. x) demo_q s8"
    unfolding s8_def by (rule weak_cons [OF 7 r_load_read]) (simp_all add: g)
  define s9 where "s9 = s8\<lparr>wk_cons := CLoadedWrite 0 (fst (wk_wmsgs s8 ! 1)),
       wk_cview := view_join ((wk_cview s8)\<lparr>vw_write := 1\<rparr>) (snd (wk_wmsgs s8 ! 1))\<rparr>"
  have 9: "weak_reach (\<lambda>x. x) demo_q s9"
    unfolding s9_def by (rule weak_cons [OF 8 r_load_write]) (simp_all add: s8_def g)
  have h: "wk_cons s9 = CLoadedWrite 0 1" "wk_buffer s9 ! 0 = 7" "wk_in s9 = [7]" "wk_out s9 = []"
    using g(5) by (simp_all add: s9_def s8_def g)
  define s10 where "s10 = s9\<lparr>wk_cons := CTaken 0 7, wk_buffer := (wk_buffer s9)[0 := 7],
       wk_takes := (wk_takes s9)(0 := wk_takes s9 0 + 1), wk_race := wk_race s9 \<or> slot_race s9 (wk_cview s9) 0,
       wk_cview := (wk_cview s9)\<lparr>vw_takes := (vw_takes (wk_cview s9))(0 := wk_takes s9 0 + 1)\<rparr>\<rparr>"
  have 10: "weak_reach (\<lambda>x. x) demo_q s10"
    unfolding s10_def by (rule weak_cons [OF 9 r_take [where cr = 0 and cw = 1]]) (simp_all add: h)
  have "weak_reach (\<lambda>x. x) demo_q (s10\<lparr>wk_cons := CPublished,
       wk_rmsgs := wk_rmsgs s10 @ [((0 + 1) AND wk_mask s10, (wk_cview s10)\<lparr>vw_read := length (wk_rmsgs s10)\<rparr>)],
       wk_cview := (wk_cview s10)\<lparr>vw_read := length (wk_rmsgs s10)\<rparr>, wk_out := wk_out s10 @ [7]\<rparr>)"
    by (rule weak_cons [OF 10 r_publish]) (simp_all add: s10_def)
  moreover have "wk_in s10 = [7]" "wk_out s10 = []" by (simp_all add: s10_def h)
  ultimately show ?thesis by force
qed

section \<open>Properties\<close>

text \<open>
  C2: Under the release/acquire memory model, where a load may return an old value of a position and the slots are
  plain memory, no run of one producer and one consumer has a data race on a slot; what the consumer has
  received is a prefix of what the producer has published, and at most \<open>capacity() - 1\<close> items are in flight.
  The relaxed loads of a thread's own position and the acquire loads of the other side's are enough.
\<close>

theorem spsc_weak_race_free:
  assumes "SPSCQueue_ctor dflt m = Some q" and "weak_reach moved q s"
  shows "\<not> wk_race s \<and> wk_out s = take (length (wk_out s)) (wk_in s)
    \<and> length (wk_in s) \<le> length (wk_out s) + spsc_slots q"
proof -
  have inv: "weak_inv (spsc_slots q + 1) s"
    using weak_reach_inv [OF assms(2)] SPSCQueue_ctor_Some [OF assms(1)] by simp
  then show ?thesis using weak_bounds(4) [OF inv] by (simp add: weak_inv_defs)
qed

theorem spsc_weak_race_free_witness:
  "\<exists>s. weak_reach (\<lambda>x. x) demo_q s \<and> \<not> wk_race s \<and> wk_in s = [7] \<and> wk_out s = [7]"
  using demo_weak spsc_weak_race_free [OF demo_ctor(1)] by metis

end
