(* ===== verification/Lockfree.thy ===== *)
theory Lockfree imports Spsc begin

text \<open>
  \<open>LockfreeQueue<T>\<close> of include/intertwine/fw/LockfreeQueue.hpp and LockfreeQueue.inl.  The queue
  itself is \<open>boost::lockfree::queue<T>\<close>, which is not part of the repository: its \<open>push\<close> and \<open>pop\<close>
  are arguments here, and what the wrapper relies on is that they are first-in first-out, the
  contract \<open>fifo\<close>.
\<close>

record 'q LockfreeQueue =
  lfq_queue :: 'q
  lfq_capacity :: size_t
  lfq_pushCount :: uint64
  lfq_popCount :: uint64
  lfq_dropCount :: uint64

text \<open>The doubling loop of the constructor is the one of \<open>SPSCQueue::nextPowerOfTwo\<close>.\<close>

definition LockfreeQueue_ctor :: "(size_t \<Rightarrow> 'q) \<Rightarrow> size_t \<Rightarrow> 'q LockfreeQueue option" where
  "LockfreeQueue_ctor new_queue capacity =
     (case doubleUntil capacity 1 of
        None \<Rightarrow> None
      | Some actualCapacity \<Rightarrow>
          Some \<lparr>lfq_queue = new_queue actualCapacity, lfq_capacity = actualCapacity,
                lfq_pushCount = 0, lfq_popCount = 0, lfq_dropCount = 0\<rparr>)"

definition LockfreeQueue_push ::
  "('q \<Rightarrow> 'a \<Rightarrow> bool \<times> 'q) \<Rightarrow> 'q LockfreeQueue \<Rightarrow> 'a \<Rightarrow> bool \<times> 'q LockfreeQueue" where
  "LockfreeQueue_push bpush q item =
     (let (success, q') = bpush (lfq_queue q) item
      in if success
         then (success, q\<lparr>lfq_queue := q', lfq_pushCount := lfq_pushCount q + 1\<rparr>)
         else (success, q\<lparr>lfq_queue := q', lfq_dropCount := lfq_dropCount q + 1\<rparr>))"

definition LockfreeQueue_pop ::
  "('q \<Rightarrow> 'a option \<times> 'q) \<Rightarrow> 'q LockfreeQueue \<Rightarrow> 'a option \<times> 'q LockfreeQueue" where
  "LockfreeQueue_pop bpop q =
     (let (r, q') = bpop (lfq_queue q)
      in if r \<noteq> None
         then (r, q\<lparr>lfq_queue := q', lfq_popCount := lfq_popCount q + 1\<rparr>)
         else (r, q\<lparr>lfq_queue := q'\<rparr>))"

definition LockfreeQueue_size :: "'q LockfreeQueue \<Rightarrow> size_t" where
  "LockfreeQueue_size q =
     (let pushCount = lfq_pushCount q; popCount = lfq_popCount q
      in if popCount < pushCount then pushCount - popCount else 0)"

definition LockfreeQueue_getCapacity :: "'q LockfreeQueue \<Rightarrow> size_t" where
  "LockfreeQueue_getCapacity q = lfq_capacity q"

partial_function (option) LockfreeQueue_clear ::
  "('q \<Rightarrow> 'a option \<times> 'q) \<Rightarrow> 'q LockfreeQueue \<Rightarrow> 'q LockfreeQueue option" where
  "LockfreeQueue_clear bpop q =
     (case LockfreeQueue_pop bpop q of
        (None, q') \<Rightarrow> Some q'
      | (Some item, q') \<Rightarrow> LockfreeQueue_clear bpop q')"

section \<open>The wrapper over any first-in first-out queue\<close>

definition lfq_invar :: "('q \<Rightarrow> bool) \<Rightarrow> 'q LockfreeQueue \<Rightarrow> bool" where
  "lfq_invar binvar q = binvar (lfq_queue q)"

context fifo begin

lemma lfq_fifo:
  "fifo (LockfreeQueue_push push) (LockfreeQueue_pop pop) (\<lambda>q. contents (lfq_queue q))
     (\<lambda>q. has_room (lfq_queue q)) (lfq_invar invar)"
  by unfold_locales
     (auto simp: LockfreeQueue_push_def LockfreeQueue_pop_def lfq_invar_def case_prod_unfold Let_def
       push_invar pop_invar push_result push_contents pop_result pop_contents)

lemma lfq_clear:
  "lfq_invar invar q \<Longrightarrow>
   \<exists>q'. LockfreeQueue_clear pop q = Some q' \<and> lfq_invar invar q' \<and> contents (lfq_queue q') = []"
proof (induction "contents (lfq_queue q)" arbitrary: q)
  case Nil
  then have inv: "invar (lfq_queue q)" by (simp add: lfq_invar_def)
  then have "fst (pop (lfq_queue q)) = None" using Nil by (simp add: pop_result)
  moreover have "contents (snd (pop (lfq_queue q))) = []" "invar (snd (pop (lfq_queue q)))"
    using Nil inv by (simp_all add: pop_contents pop_invar)
  ultimately show ?case
    by (subst LockfreeQueue_clear.simps) (simp add: LockfreeQueue_pop_def case_prod_unfold Let_def
        lfq_invar_def)
next
  case (Cons x xs)
  then have inv: "invar (lfq_queue q)" by (simp add: lfq_invar_def)
  let ?q1 = "snd (LockfreeQueue_pop pop q)"
  have r: "fst (pop (lfq_queue q)) = Some x"
    using Cons.hyps(2) inv by (simp add: pop_result flip: Cons.hyps(2))
  then have q1: "lfq_queue ?q1 = snd (pop (lfq_queue q))"
    by (simp add: LockfreeQueue_pop_def case_prod_unfold Let_def)
  have "LockfreeQueue_clear pop q = LockfreeQueue_clear pop ?q1"
    using r by (subst LockfreeQueue_clear.simps)
      (simp add: LockfreeQueue_pop_def case_prod_unfold Let_def)
  moreover have "xs = contents (lfq_queue ?q1)"
    using inv q1 by (simp add: pop_contents flip: Cons.hyps(2))
  moreover have "lfq_invar invar ?q1" using inv q1 by (simp add: lfq_invar_def pop_invar)
  ultimately show ?case using Cons.hyps(1) by simp
qed

end

text \<open>The counters follow the run: accepted pushes, successful pops and refused pushes.\<close>

lemma lfq_counts:
  "queue_run (LockfreeQueue_push push) (LockfreeQueue_pop pop) q ops = (acc, out, q') \<Longrightarrow>
   lfq_pushCount q' = lfq_pushCount q + of_nat (length acc)
   \<and> lfq_popCount q' = lfq_popCount q + of_nat (length out)
   \<and> lfq_capacity q' = lfq_capacity q"
proof (induction ops arbitrary: q acc out)
  case Nil
  then show ?case by simp
next
  case (Cons oper ops)
  show ?case
  proof (cases oper)
    case (Push x)
    then obtain acc1 where run: "queue_run (LockfreeQueue_push push) (LockfreeQueue_pop pop)
        (snd (LockfreeQueue_push push q x)) ops = (acc1, out, q')"
      and acc: "acc = (if fst (LockfreeQueue_push push q x) then x # acc1 else acc1)"
      using Cons.prems by (auto simp del: queue_run.simps elim: queue_run_push)
    show ?thesis using Cons.IH [OF run] acc
      by (auto simp: LockfreeQueue_push_def case_prod_unfold Let_def)
  next
    case Pop
    then obtain out1 where run: "queue_run (LockfreeQueue_push push) (LockfreeQueue_pop pop)
        (snd (LockfreeQueue_pop pop q)) ops = (acc, out1, q')"
      and out: "out = (case fst (LockfreeQueue_pop pop q) of None \<Rightarrow> out1 | Some x \<Rightarrow> x # out1)"
      using Cons.prems by (auto simp del: queue_run.simps elim: queue_run_pop)
    show ?thesis using Cons.IH [OF run] out
      by (auto simp: LockfreeQueue_pop_def case_prod_unfold Let_def split: option.splits)
  qed
qed

section \<open>Properties\<close>

text \<open>A queue on lists: an instance of what the wrapper relies on.\<close>

definition list_push :: "'a list \<Rightarrow> 'a \<Rightarrow> bool \<times> 'a list" where
  "list_push xs x = (True, xs @ [x])"

definition list_pop :: "'a list \<Rightarrow> 'a option \<times> 'a list" where
  "list_pop xs = (case xs of [] \<Rightarrow> (None, []) | x # r \<Rightarrow> (Some x, r))"

interpretation list_queue: fifo list_push list_pop "\<lambda>xs. xs" "\<lambda>_. True" "\<lambda>_. True"
  by unfold_locales (auto simp: list_push_def list_pop_def split: list.splits)

interpretation lfq_list: fifo "LockfreeQueue_push list_push" "LockfreeQueue_pop list_pop"
  "\<lambda>q. lfq_queue q" "\<lambda>_. True" "lfq_invar (\<lambda>_. True)"
  by (rule list_queue.lfq_fifo)

lemma LockfreeQueue_ctor_Some:
  "LockfreeQueue_ctor new_queue capacity = Some q \<Longrightarrow>
   (\<exists>n. lfq_queue q = new_queue n) \<and> lfq_pushCount q = 0 \<and> lfq_popCount q = 0"
  by (auto simp: LockfreeQueue_ctor_def split: option.splits)

lemma size_counts:
  assumes "lfq_pushCount q = of_nat a" and "lfq_popCount q = of_nat b"
    and "b \<le> a" and "a < 2 ^ 64"
  shows "unat (LockfreeQueue_size q) = a - b"
proof -
  have ab: "unat (of_nat a :: 64 word) = a" "unat (of_nat b :: 64 word) = b"
    using assms(3,4) by (simp_all add: unat_of_nat take_bit_nat_eq_self)
  show ?thesis
  proof (cases "b < a")
    case True
    then have "(of_nat b :: 64 word) < of_nat a" using ab by (simp add: word_less_nat_alt)
    moreover have "unat ((of_nat a :: 64 word) - of_nat b) = a - b"
      using ab assms(3) by (simp add: unat_sub word_le_nat_alt)
    ultimately show ?thesis by (simp add: LockfreeQueue_size_def assms(1,2))
  next
    case False
    then show ?thesis using assms(3) by (simp add: LockfreeQueue_size_def assms(1,2))
  qed
qed

text \<open>
  Over a first-in first-out \<open>boost::lockfree::queue\<close>, a \<open>LockfreeQueue\<close> delivers the accepted
  items in order, \<open>size()\<close>, which is computed from the push and pop counters, is the number of
  items inside (as long as fewer than \<open>2^64\<close> items were pushed), and \<open>clear()\<close> returns with the
  queue empty.
\<close>

theorem LockfreeQueue_order:
  assumes "fifo bpush bpop bcontents broom binvar"
    and "LockfreeQueue_ctor new_queue capacity = Some q"
    and "\<forall>n. binvar (new_queue n) \<and> bcontents (new_queue n) = []"
    and "queue_run (LockfreeQueue_push bpush) (LockfreeQueue_pop bpop) q ops = (acc, out, q')"
    and "length acc < 2 ^ 64"
  shows "out @ bcontents (lfq_queue q') = acc
     \<and> unat (LockfreeQueue_size q') = length (bcontents (lfq_queue q'))
     \<and> (\<exists>q2. LockfreeQueue_clear bpop q' = Some q2 \<and> bcontents (lfq_queue q2) = [])"
proof -
  note ctor = LockfreeQueue_ctor_Some [OF assms(2)]
  then have start: "lfq_invar binvar q" "bcontents (lfq_queue q) = []"
    using assms(3) by (auto simp: lfq_invar_def)
  from fifo.run_order [OF fifo.lfq_fifo [OF assms(1)] start(1) assms(4)] start(2)
  have inv: "lfq_invar binvar q'" and order: "out @ bcontents (lfq_queue q') = acc" by auto
  have len: "length out + length (bcontents (lfq_queue q')) = length acc"
    using arg_cong [OF order, of length] by simp
  have size: "unat (LockfreeQueue_size q') = length acc - length out"
  proof (rule size_counts)
    show "lfq_pushCount q' = of_nat (length acc)" "lfq_popCount q' = of_nat (length out)"
      using lfq_counts [OF assms(4)] ctor by simp_all
    show "length out \<le> length acc" using len by (rule subst) (rule le_add1)
  qed (rule assms(5))
  have "length acc - length out = length (bcontents (lfq_queue q'))"
    unfolding len [symmetric] by (rule diff_add_inverse)
  with size have "unat (LockfreeQueue_size q') = length (bcontents (lfq_queue q'))" by (rule trans)
  moreover obtain q2 where "LockfreeQueue_clear bpop q' = Some q2" "bcontents (lfq_queue q2) = []"
    using fifo.lfq_clear [OF assms(1) inv] by blast
  ultimately show ?thesis using order by blast
qed

lemma LockfreeQueue_order_witness:
  "\<exists>q q'.
     LockfreeQueue_ctor (\<lambda>_. []) 1 = Some q
     \<and> queue_run (LockfreeQueue_push list_push) (LockfreeQueue_pop list_pop) q
         [Push (7::int), Push 8, Pop] = ([7, 8], [7], q')
     \<and> [7] @ lfq_queue q' = [7, 8] \<and> unat (LockfreeQueue_size q') = length (lfq_queue q')"
proof -
  have c: "LockfreeQueue_ctor (\<lambda>_. []) 1 =
      Some \<lparr>lfq_queue = [], lfq_capacity = 1, lfq_pushCount = 0, lfq_popCount = 0, lfq_dropCount = 0\<rparr>"
    (is "_ = Some ?q")
    unfolding LockfreeQueue_ctor_def by (subst doubleUntil.simps) simp
  obtain q' where run: "queue_run (LockfreeQueue_push list_push) (LockfreeQueue_pop list_pop) ?q
         [Push (7::int), Push 8, Pop] = ([7, 8], [7], q')"
    by (simp add: LockfreeQueue_push_def LockfreeQueue_pop_def list_push_def list_pop_def)
  have "[7] @ lfq_queue q' = [7, 8] \<and> unat (LockfreeQueue_size q') = length (lfq_queue q')
     \<and> (\<exists>q2. LockfreeQueue_clear list_pop q' = Some q2 \<and> lfq_queue q2 = [])"
    by (rule LockfreeQueue_order [OF list_queue.fifo_axioms c _ run]) simp_all
  then show ?thesis using c run by blast
qed

end
