(* ===== verification/Counters.thy ===== *)
theory Counters imports Prelude "HOL-Library.Multiset" "HOL-Library.Signed_Division" begin

text \<open>
  The counters that the framework keeps on its hot paths: \<open>AtomicCounter\<close> (src/AtomicCounter.cpp),
  the admission control of \<open>FlowController\<close> (src/FlowController.cpp) and the \<open>TransferStats\<close> block
  of include/intertwine/fw/IFileTransfer.hpp.  Every method of \<open>AtomicCounter\<close> is one atomic access, so a
  concurrent execution is some sequence of these operations.  The methods of the other two touch several
  counters, each by an atomic access of its own; they are modelled as calls made one after another.  The
  counters are 64-bit words.
\<close>

section \<open>AtomicCounter\<close>

type_synonym AtomicCounter = int64

definition AtomicCounter_ctor :: "int64 \<Rightarrow> AtomicCounter" where
  "AtomicCounter_ctor initialValue = initialValue"

definition AtomicCounter_add :: "AtomicCounter \<Rightarrow> int64 \<Rightarrow> int64 \<times> AtomicCounter" where
  "AtomicCounter_add c delta = (c + delta, c + delta)"

definition AtomicCounter_sub :: "AtomicCounter \<Rightarrow> int64 \<Rightarrow> int64 \<times> AtomicCounter" where
  "AtomicCounter_sub c delta = (c - delta, c - delta)"

definition AtomicCounter_get :: "AtomicCounter \<Rightarrow> int64" where
  "AtomicCounter_get c = c"

definition AtomicCounter_int64 :: "AtomicCounter \<Rightarrow> int64" where    \<comment> \<open>the conversion operator\<close>
  "AtomicCounter_int64 c = AtomicCounter_get c"

definition AtomicCounter_set :: "AtomicCounter \<Rightarrow> int64 \<Rightarrow> AtomicCounter" where
  "AtomicCounter_set c value = value"

definition AtomicCounter_reset :: "AtomicCounter \<Rightarrow> AtomicCounter" where
  "AtomicCounter_reset c = 0"

definition AtomicCounter_preInc :: "AtomicCounter \<Rightarrow> int64 \<times> AtomicCounter" where
  "AtomicCounter_preInc c = AtomicCounter_add c 1"

definition AtomicCounter_postInc :: "AtomicCounter \<Rightarrow> int64 \<times> AtomicCounter" where
  "AtomicCounter_postInc c = (let (r, c') = AtomicCounter_add c 1 in (r - 1, c'))"

definition AtomicCounter_preDec :: "AtomicCounter \<Rightarrow> int64 \<times> AtomicCounter" where
  "AtomicCounter_preDec c = AtomicCounter_sub c 1"

definition AtomicCounter_postDec :: "AtomicCounter \<Rightarrow> int64 \<times> AtomicCounter" where
  "AtomicCounter_postDec c = (let (r, c') = AtomicCounter_sub c 1 in (r + 1, c'))"

text \<open>The operations that threads issue, each with the change it makes.\<close>

datatype counter_op = CAdd int64 | CSub int64 | CPreInc | CPostInc | CPreDec | CPostDec

fun counter_do :: "AtomicCounter \<Rightarrow> counter_op \<Rightarrow> int64 \<times> AtomicCounter" where
  "counter_do c (CAdd d) = AtomicCounter_add c d"
| "counter_do c (CSub d) = AtomicCounter_sub c d"
| "counter_do c CPreInc = AtomicCounter_preInc c"
| "counter_do c CPostInc = AtomicCounter_postInc c"
| "counter_do c CPreDec = AtomicCounter_preDec c"
| "counter_do c CPostDec = AtomicCounter_postDec c"

fun counter_delta :: "counter_op \<Rightarrow> int64" where
  "counter_delta (CAdd d) = d"
| "counter_delta (CSub d) = - d"
| "counter_delta CPreInc = 1"
| "counter_delta CPostInc = 1"
| "counter_delta CPreDec = - 1"
| "counter_delta CPostDec = - 1"

fun counter_run :: "AtomicCounter \<Rightarrow> counter_op list \<Rightarrow> int64 list \<times> AtomicCounter" where
  "counter_run c [] = ([], c)"
| "counter_run c (x # xs) =
     (let (r, c1) = counter_do c x; (rs, c2) = counter_run c1 xs in (r # rs, c2))"

lemmas AtomicCounter_defs = AtomicCounter_add_def AtomicCounter_sub_def AtomicCounter_preInc_def
  AtomicCounter_postInc_def AtomicCounter_preDec_def AtomicCounter_postDec_def
  AtomicCounter_get_def AtomicCounter_set_def AtomicCounter_reset_def AtomicCounter_ctor_def

lemma counter_do_delta: "snd (counter_do c x) = c + counter_delta x"
  by (cases x) (simp_all add: AtomicCounter_defs Let_def)

lemma counter_run_total: "snd (counter_run c xs) = c + sum_list (map counter_delta xs)"
proof (induction xs arbitrary: c)
  case Nil
  then show ?case by simp
next
  case (Cons x xs)
  then show ?case
    using counter_do_delta [of c x] by (simp add: case_prod_unfold Let_def add.assoc)
qed

lemma counter_run_returns:
  "i < length xs \<Longrightarrow>
   fst (counter_run c xs) ! i = fst (counter_do (c + sum_list (map counter_delta (take i xs))) (xs ! i))
   \<and> length (fst (counter_run c xs)) = length xs"
proof (induction xs arbitrary: c i)
  case Nil
  then show ?case by simp
next
  case (Cons x xs)
  have len: "length (fst (counter_run c xs)) = length xs" for c
    using Cons.IH [of 0 c] by (cases xs) auto
  show ?case
    using Cons counter_do_delta [of c x] len
    by (cases i) (simp_all add: case_prod_unfold Let_def add.assoc)
qed

section \<open>FlowController\<close>

record FlowController =
  fc_maxQueueSize :: size_t
  fc_dropOnFull :: bool
  fc_dropCount :: uint64
  fc_totalPushAttempts :: uint64
  fc_totalDrops :: uint64

definition FlowController_ctor :: "size_t \<Rightarrow> bool \<Rightarrow> FlowController" where
  "FlowController_ctor maxQueueSize dropOnFull =
     \<lparr>fc_maxQueueSize = maxQueueSize, fc_dropOnFull = dropOnFull, fc_dropCount = 0,
      fc_totalPushAttempts = 0, fc_totalDrops = 0\<rparr>"

definition FlowController_canPush :: "FlowController \<Rightarrow> size_t \<Rightarrow> bool" where
  "FlowController_canPush f currentSize = (currentSize < fc_maxQueueSize f)"

definition FlowController_recordDrop :: "FlowController \<Rightarrow> FlowController" where
  "FlowController_recordDrop f =
     f\<lparr>fc_dropCount := fc_dropCount f + 1, fc_totalDrops := fc_totalDrops f + 1\<rparr>"

definition FlowController_tryPush :: "FlowController \<Rightarrow> size_t \<Rightarrow> bool \<times> FlowController" where
  "FlowController_tryPush f currentSize =
     (let f1 = f\<lparr>fc_totalPushAttempts := fc_totalPushAttempts f + 1\<rparr>
      in if FlowController_canPush f1 currentSize then (True, f1)
         else if fc_dropOnFull f1 then (False, FlowController_recordDrop f1)
         else (False, f1))"

definition FlowController_getDropCount :: "FlowController \<Rightarrow> uint64" where
  "FlowController_getDropCount f = fc_dropCount f"

definition FlowController_resetDropCount :: "FlowController \<Rightarrow> FlowController" where
  "FlowController_resetDropCount f = f\<lparr>fc_dropCount := 0\<rparr>"

definition FlowController_getMaxQueueSize :: "FlowController \<Rightarrow> size_t" where
  "FlowController_getMaxQueueSize f = fc_maxQueueSize f"

definition FlowController_isDropOnFull :: "FlowController \<Rightarrow> bool" where
  "FlowController_isDropOnFull f = fc_dropOnFull f"

definition FlowController_setMaxQueueSize :: "FlowController \<Rightarrow> size_t \<Rightarrow> FlowController" where
  "FlowController_setMaxQueueSize f maxSize = f\<lparr>fc_maxQueueSize := maxSize\<rparr>"

definition FlowController_setDropOnFull :: "FlowController \<Rightarrow> bool \<Rightarrow> FlowController" where
  "FlowController_setDropOnFull f dropOnFull = f\<lparr>fc_dropOnFull := dropOnFull\<rparr>"

datatype flow_op = FTry size_t | FRecord | FReset | FSetMax size_t | FSetDrop bool

fun flow_do :: "FlowController \<Rightarrow> flow_op \<Rightarrow> FlowController" where
  "flow_do f (FTry n) = snd (FlowController_tryPush f n)"
| "flow_do f FRecord = FlowController_recordDrop f"
| "flow_do f FReset = FlowController_resetDropCount f"
| "flow_do f (FSetMax n) = FlowController_setMaxQueueSize f n"
| "flow_do f (FSetDrop b) = FlowController_setDropOnFull f b"

fun flow_run :: "FlowController \<Rightarrow> flow_op list \<Rightarrow> FlowController" where
  "flow_run f [] = f"
| "flow_run f (x # xs) = flow_run (flow_do f x) xs"

lemmas FlowController_defs = FlowController_ctor_def FlowController_canPush_def
  FlowController_recordDrop_def FlowController_tryPush_def FlowController_resetDropCount_def
  FlowController_setMaxQueueSize_def FlowController_setDropOnFull_def FlowController_getDropCount_def

text \<open>
  What the counters should say, computed from the calls alone: for every call, the limit and the
  policy in force, and whether it dropped.
\<close>

fun flow_drops :: "size_t \<Rightarrow> bool \<Rightarrow> flow_op list \<Rightarrow> nat" where
  "flow_drops m b [] = 0"
| "flow_drops m b (FTry n # xs) = (if \<not> n < m \<and> b then 1 else 0) + flow_drops m b xs"
| "flow_drops m b (FRecord # xs) = 1 + flow_drops m b xs"
| "flow_drops m b (FReset # xs) = flow_drops m b xs"
| "flow_drops m b (FSetMax n # xs) = flow_drops n b xs"
| "flow_drops m b (FSetDrop c # xs) = flow_drops m c xs"

fun flow_attempts :: "flow_op list \<Rightarrow> nat" where
  "flow_attempts [] = 0"
| "flow_attempts (FTry n # xs) = 1 + flow_attempts xs"
| "flow_attempts (x # xs) = flow_attempts xs"

lemma flow_run_append: "flow_run f (xs @ ys) = flow_run (flow_run f xs) ys"
  by (induction xs arbitrary: f) auto

lemma flow_run_totals:
  "fc_totalDrops (flow_run f xs) =
     fc_totalDrops f + of_nat (flow_drops (fc_maxQueueSize f) (fc_dropOnFull f) xs)
   \<and> fc_totalPushAttempts (flow_run f xs) = fc_totalPushAttempts f + of_nat (flow_attempts xs)"
proof (induction xs arbitrary: f)
  case Nil
  then show ?case by simp
next
  case (Cons x xs)
  then show ?case by (cases x) (simp_all add: FlowController_defs Let_def)
qed

lemma flow_run_since_reset:
  "FReset \<notin> set xs \<Longrightarrow>
   fc_dropCount (flow_run f xs) =
     fc_dropCount f + of_nat (flow_drops (fc_maxQueueSize f) (fc_dropOnFull f) xs)"
proof (induction xs arbitrary: f)
  case Nil
  then show ?case by simp
next
  case (Cons x xs)
  then show ?case by (cases x) (simp_all add: FlowController_defs Let_def)
qed

section \<open>TransferStats\<close>

text \<open>
  Times are the readings of the steady clock in nanoseconds, taken at each call; the cast to milliseconds
  rounds the difference towards zero.
\<close>

record TransferStats =
  ts_totalCount :: int64
  ts_totalBytes :: int64
  ts_activeCount :: int64
  ts_errorCount :: int64
  ts_totalDurationMs :: int64

definition TransferStats_ctor :: TransferStats where
  "TransferStats_ctor = \<lparr>ts_totalCount = 0, ts_totalBytes = 0, ts_activeCount = 0,
     ts_errorCount = 0, ts_totalDurationMs = 0\<rparr>"

definition recordStart :: "int64 \<Rightarrow> TransferStats \<Rightarrow> TransferStats" where
  "recordStart bytes t =
     t\<lparr>ts_totalCount := ts_totalCount t + 1, ts_totalBytes := ts_totalBytes t + bytes,
       ts_activeCount := ts_activeCount t + 1\<rparr>"

definition elapsed_ms :: "int64 \<Rightarrow> int64 \<Rightarrow> int64" where
  "elapsed_ms startTime now = word_of_int (sint (now - startTime) sdiv 1000000)"

definition recordEnd :: "bool \<Rightarrow> int64 \<Rightarrow> int64 \<Rightarrow> TransferStats \<Rightarrow> TransferStats" where
  "recordEnd success startTime now t =
     t\<lparr>ts_activeCount := ts_activeCount t - 1,
       ts_errorCount := (if \<not> success then ts_errorCount t + 1 else ts_errorCount t),
       ts_totalDurationMs := ts_totalDurationMs t + elapsed_ms startTime now\<rparr>"

section \<open>Properties\<close>

text \<open>
  However concurrent calls on an \<open>AtomicCounter\<close> are ordered, the final value is the initial
  value plus all the deltas (modulo \<open>2^64\<close>), the same for every order; and the value a call returns
  is determined by the deltas of the calls before it alone.
\<close>

theorem AtomicCounter_any_order:
  assumes "mset xs = mset ys"
  shows "AtomicCounter_get (snd (counter_run (AtomicCounter_ctor v) xs))
      = AtomicCounter_get (snd (counter_run (AtomicCounter_ctor v) ys))
    \<and> snd (counter_run (AtomicCounter_ctor v) xs) = v + sum_list (map counter_delta xs)
    \<and> (\<forall>i < length xs. fst (counter_run (AtomicCounter_ctor v) xs) ! i
         = fst (counter_do (v + sum_list (map counter_delta (take i xs))) (xs ! i)))"
proof -
  have "sum_list (map counter_delta xs) = sum_list (map counter_delta ys)"
    using assms by (metis mset_map sum_mset_sum_list)
  then show ?thesis
    using counter_run_returns [of _ xs v] by (simp add: counter_run_total AtomicCounter_defs)
qed

theorem AtomicCounter_any_order_witness:
  "snd (counter_run (AtomicCounter_ctor 5) [CPostInc, CSub 3])
     = snd (counter_run (AtomicCounter_ctor 5) [CSub 3, CPostInc])"
  using AtomicCounter_any_order [of "[CPostInc, CSub 3]" "[CSub 3, CPostInc]" 5]
  by (simp add: AtomicCounter_get_def)

text \<open>
  After any sequence of calls on a \<open>FlowController\<close>, \<open>getDropCount()\<close> is the number of drops since
  the last \<open>resetDropCount()\<close>, the totals count every attempt and every drop since construction,
  and a \<open>tryPush\<close> is admitted exactly when the size is under the limit in force.
\<close>

theorem FlowController_accounts:
  assumes "FReset \<notin> set ys"
  shows "let f0 = FlowController_ctor m b; f = flow_run f0 (xs @ FReset # ys);
             g = flow_run f0 (xs @ [FReset])
         in FlowController_getDropCount f
              = of_nat (flow_drops (fc_maxQueueSize g) (fc_dropOnFull g) ys)
          \<and> fc_totalDrops f = of_nat (flow_drops m b (xs @ FReset # ys))
          \<and> fc_totalPushAttempts f = of_nat (flow_attempts (xs @ FReset # ys))
          \<and> (fst (FlowController_tryPush f n) \<longleftrightarrow> n < fc_maxQueueSize f)"
proof -
  let ?f0 = "FlowController_ctor m b"
  let ?g = "flow_run ?f0 (xs @ [FReset])"
  have split: "flow_run ?f0 (xs @ FReset # ys) = flow_run ?g ys"
    by (simp add: flow_run_append)
  have "fc_dropCount ?g = 0" by (simp add: flow_run_append FlowController_defs)
  then have "fc_dropCount (flow_run ?g ys)
      = of_nat (flow_drops (fc_maxQueueSize ?g) (fc_dropOnFull ?g) ys)"
    using flow_run_since_reset [OF assms, of ?g] by simp
  moreover have "fc_maxQueueSize ?f0 = m" "fc_dropOnFull ?f0 = b" "fc_totalDrops ?f0 = 0"
    "fc_totalPushAttempts ?f0 = 0" by (simp_all add: FlowController_defs)
  ultimately show ?thesis
    using flow_run_totals [of ?f0 "xs @ FReset # ys"] split
    by (simp add: FlowController_getDropCount_def FlowController_tryPush_def
        FlowController_canPush_def Let_def)
qed

theorem FlowController_accounts_witness:
  "FlowController_getDropCount (flow_run (FlowController_ctor 2 True) [FTry 2, FReset, FTry 1, FTry 5]) = 1"
  using FlowController_accounts [of "[FTry 1, FTry 5]" 2 True "[FTry 2]" 0]
  by (simp add: Let_def FlowController_defs)

end
