(* ===== verification/ThreadPool.thy ===== *)
theory ThreadPool imports Prelude begin

text \<open>
  \<open>SupervisedThreadPool\<close> (src/SupervisedThreadPool.cpp): the workers, the supervisor, the thread that
  calls \<open>start\<close> and \<open>stop\<close>, and the clients that call \<open>submit\<close>, interleaved.  A thread is a program
  point; every access to the flag \<open>m_running\<close>, every acquisition of a mutex, every wait and every
  wake-up is a step of its own.  A step that has to block is \<open>None\<close>.  What happens under a mutex
  between two such accesses is one step.

  A task is a value of the type \<open>'t\<close>; an empty \<open>boost::function\<close> is \<open>None\<close>.  \<open>start\<close> and \<open>stop\<close>
  are called by one thread, as the header of the class says.
\<close>

section \<open>State\<close>

text \<open>The program points of \<open>workerLoop\<close>, in the order of the code.\<close>

datatype 't worker_pc =
    WHead            \<comment> \<open>the test of \<open>m_running\<close> in the loop head\<close>
  | WLock            \<comment> \<open>acquiring \<open>m_tasksMutex\<close>\<close>
  | WTest            \<comment> \<open>mutex held: the test of the inner loop\<close>
  | WWait            \<comment> \<open>mutex held: about to call \<open>wait\<close>\<close>
  | WWaiting         \<comment> \<open>inside \<open>wait\<close>, mutex released\<close>
  | WWoken           \<comment> \<open>inside \<open>wait\<close>, acquiring the mutex again\<close>
  | WCheck           \<comment> \<open>mutex held: the second test of \<open>m_running\<close>\<close>
  | WTake            \<comment> \<open>mutex held: taking a task\<close>
  | WRun 't          \<comment> \<open>executing a task\<close>
  | WExit            \<comment> \<open>the destructor of \<open>ExitNotify\<close>\<close>
  | WDone

datatype supervisor_pc =
    SHead | SLock | STest | SWait | SWaiting | SWoken | SCheck | STakeId
  | SJoin nat | SRecheck nat | SRestart nat | SDone

text \<open>
  The caller of \<open>stop\<close> and \<open>start\<close>; the argument is the number of workers with which \<open>start\<close> goes on
  after its call of \<open>stop\<close>, or \<open>None\<close> in a plain \<open>stop\<close>.
\<close>

datatype main_pc =
    MIdle
  | MStop "nat option"          \<comment> \<open>the test of \<open>m_running\<close> at the head of \<open>stop\<close>\<close>
  | MStore "nat option"
  | MNotifyTasks "nat option"
  | MNotifyFinished "nat option"
  | MJoinWorker nat "nat option"
  | MJoinSupervisor "nat option"
  | MInit nat
  | MSpawn nat
  | MSpawnSupervisor

record 't pool =
  tp_numWorkers :: nat
  tp_maxQueueSize :: nat
  tp_running :: bool
  tp_workers :: "'t worker_pc list"
  tp_joinable :: "bool list"
  tp_supervisor :: supervisor_pc
  tp_supJoinable :: bool
  tp_main :: main_pc
  tp_tasks :: "'t list"
  tp_tasksMutex :: "nat option"       \<comment> \<open>the worker that holds it\<close>
  tp_finishedIds :: "nat list"
  tp_finishedMutex :: bool            \<comment> \<open>held by the supervisor\<close>
  tp_submitting :: "'t list"          \<comment> \<open>calls of \<open>submit\<close> past their test of \<open>m_running\<close>\<close>
  tp_notifies :: nat                  \<comment> \<open>calls of \<open>submit\<close> that have yet to notify\<close>

definition SupervisedThreadPool_ctor :: "'t pool" where
  "SupervisedThreadPool_ctor =
     \<lparr>tp_numWorkers = 0, tp_maxQueueSize = 0, tp_running = False, tp_workers = [],
      tp_joinable = [], tp_supervisor = SDone, tp_supJoinable = False, tp_main = MIdle,
      tp_tasks = [], tp_tasksMutex = None, tp_finishedIds = [], tp_finishedMutex = False,
      tp_submitting = [], tp_notifies = 0\<rparr>"

definition setMaxQueueSize :: "nat \<Rightarrow> 't pool \<Rightarrow> 't pool" where
  "setMaxQueueSize maxSize p = p\<lparr>tp_maxQueueSize := maxSize\<rparr>"

definition maxQueueSize :: "'t pool \<Rightarrow> nat" where
  "maxQueueSize p = tp_maxQueueSize p"

definition workerCount :: "'t pool \<Rightarrow> nat" where
  "workerCount p = tp_numWorkers p"

definition isRunning :: "'t pool \<Rightarrow> bool" where
  "isRunning p = tp_running p"

text \<open>\<open>queueSize\<close> takes \<open>m_tasksMutex\<close>; it blocks while a worker holds it.\<close>

definition queueSize :: "'t pool \<Rightarrow> nat option" where
  "queueSize p = (if tp_tasksMutex p = None then Some (length (tp_tasks p)) else None)"

text \<open>A fresh pool whose limit has been set before \<open>start\<close>.\<close>

abbreviation new_pool :: "nat \<Rightarrow> 't pool" where
  "new_pool m \<equiv> setMaxQueueSize m SupervisedThreadPool_ctor"

lemmas new_pool_defs = setMaxQueueSize_def SupervisedThreadPool_ctor_def

section \<open>Steps\<close>

text \<open>What a step shows: a task accepted by \<open>submit\<close>, a refusal, a task taken by a worker.\<close>

datatype 't pool_event = Accepted 't | Refused | Taken nat 't

definition set_worker :: "nat \<Rightarrow> 't worker_pc \<Rightarrow> 't pool \<Rightarrow> 't pool" where
  "set_worker i pc p = p\<lparr>tp_workers := (tp_workers p)[i := pc]\<rparr>"

definition set_supervisor :: "supervisor_pc \<Rightarrow> 't pool \<Rightarrow> 't pool" where
  "set_supervisor pc p = p\<lparr>tp_supervisor := pc\<rparr>"

definition set_main :: "main_pc \<Rightarrow> 't pool \<Rightarrow> 't pool" where
  "set_main pc p = p\<lparr>tp_main := pc\<rparr>"

text \<open>\<open>notify\<close> on \<open>m_finishedCond\<close>, whose only waiter is the supervisor.\<close>

definition wake_supervisor :: "'t pool \<Rightarrow> 't pool" where
  "wake_supervisor p =
     (if tp_supervisor p = SWaiting then set_supervisor SWoken p else p)"

definition wake_worker :: "'t worker_pc \<Rightarrow> 't worker_pc" where
  "wake_worker pc = (case pc of WWaiting \<Rightarrow> WWoken | _ \<Rightarrow> pc)"

definition pushFinished :: "nat \<Rightarrow> 't pool \<Rightarrow> 't pool option" where
  "pushFinished workerId p =
     (if tp_finishedMutex p then None
      else Some (wake_supervisor (p\<lparr>tp_finishedIds := tp_finishedIds p @ [workerId]\<rparr>)))"

definition workerLoop :: "nat \<Rightarrow> 't pool \<Rightarrow> ('t pool_event list \<times> 't pool) option" where
  "workerLoop i p =
     (if i < length (tp_workers p) then
        (case tp_workers p ! i of
           WHead \<Rightarrow> Some ([], set_worker i (if tp_running p then WLock else WExit) p)
         | WLock \<Rightarrow>
             if tp_tasksMutex p = None
             then Some ([], set_worker i WTest (p\<lparr>tp_tasksMutex := Some i\<rparr>)) else None
         | WTest \<Rightarrow>
             Some ([], set_worker i (if tp_tasks p = [] \<and> tp_running p then WWait else WCheck) p)
         | WWait \<Rightarrow> Some ([], set_worker i WWaiting (p\<lparr>tp_tasksMutex := None\<rparr>))
         | WWaiting \<Rightarrow> None
         | WWoken \<Rightarrow>
             if tp_tasksMutex p = None
             then Some ([], set_worker i WTest (p\<lparr>tp_tasksMutex := Some i\<rparr>)) else None
         | WCheck \<Rightarrow>
             if \<not> tp_running p then Some ([], set_worker i WExit (p\<lparr>tp_tasksMutex := None\<rparr>))
             else Some ([], set_worker i WTake p)
         | WTake \<Rightarrow>
             (case tp_tasks p of
                [] \<Rightarrow> Some ([], set_worker i WHead (p\<lparr>tp_tasksMutex := None\<rparr>))
              | t # ts \<Rightarrow>
                  Some ([Taken i t],
                        set_worker i (WRun t) (p\<lparr>tp_tasks := ts, tp_tasksMutex := None\<rparr>)))
         | WRun t \<Rightarrow> Some ([], set_worker i WHead p)
         | WExit \<Rightarrow> map_option (\<lambda>p'. ([], set_worker i WDone p')) (pushFinished i p)
         | WDone \<Rightarrow> None)
      else None)"

text \<open>A \<open>join\<close> blocks until the joined thread has returned.\<close>

definition supervisorLoop :: "'t pool \<Rightarrow> 't pool option" where
  "supervisorLoop p =
     (case tp_supervisor p of
        SHead \<Rightarrow> Some (set_supervisor (if tp_running p then SLock else SDone) p)
      | SLock \<Rightarrow>
          if tp_finishedMutex p then None
          else Some (set_supervisor STest (p\<lparr>tp_finishedMutex := True\<rparr>))
      | STest \<Rightarrow>
          Some (set_supervisor (if tp_finishedIds p = [] \<and> tp_running p then SWait else SCheck) p)
      | SWait \<Rightarrow> Some (set_supervisor SWaiting (p\<lparr>tp_finishedMutex := False\<rparr>))
      | SWaiting \<Rightarrow> None
      | SWoken \<Rightarrow>
          if tp_finishedMutex p then None
          else Some (set_supervisor STest (p\<lparr>tp_finishedMutex := True\<rparr>))
      | SCheck \<Rightarrow>
          if \<not> tp_running p then Some (set_supervisor SDone (p\<lparr>tp_finishedMutex := False\<rparr>))
          else Some (set_supervisor STakeId p)
      | STakeId \<Rightarrow>
          (case tp_finishedIds p of
             [] \<Rightarrow> Some (set_supervisor SHead (p\<lparr>tp_finishedMutex := False\<rparr>))
           | i # is \<Rightarrow> Some (set_supervisor (SJoin i) (p\<lparr>tp_finishedIds := is, tp_finishedMutex := False\<rparr>)))
      | SJoin i \<Rightarrow>
          if length (tp_workers p) \<le> i then Some (set_supervisor SHead p)
          else if tp_joinable p ! i then
            (if tp_workers p ! i = WDone
             then Some (set_supervisor (SRecheck i) (p\<lparr>tp_joinable := (tp_joinable p)[i := False]\<rparr>))
             else None)
          else Some (set_supervisor (SRecheck i) p)
      | SRecheck i \<Rightarrow> Some (set_supervisor (if tp_running p then SRestart i else SDone) p)
      | SRestart i \<Rightarrow>
          Some (set_supervisor SHead (set_worker i WHead (p\<lparr>tp_joinable := (tp_joinable p)[i := True]\<rparr>)))
      | SDone \<Rightarrow> None)"

text \<open>Where the caller goes when \<open>stop\<close> returns.\<close>

definition after_stop :: "nat option \<Rightarrow> main_pc" where
  "after_stop k = (case k of None \<Rightarrow> MIdle | Some n \<Rightarrow> MInit n)"

definition stop_and_start :: "'t pool \<Rightarrow> 't pool option" where
  "stop_and_start p =
     (case tp_main p of
        MIdle \<Rightarrow> None
      | MStop k \<Rightarrow> Some (set_main (if tp_running p then MStore k else after_stop k) p)
      | MStore k \<Rightarrow> Some (set_main (MNotifyTasks k) (p\<lparr>tp_running := False\<rparr>))
      | MNotifyTasks k \<Rightarrow>
          Some (set_main (MNotifyFinished k) (p\<lparr>tp_workers := map wake_worker (tp_workers p)\<rparr>))
      | MNotifyFinished k \<Rightarrow> Some (set_main (MJoinWorker 0 k) (wake_supervisor p))
      | MJoinWorker i k \<Rightarrow>
          if length (tp_workers p) \<le> i then Some (set_main (MJoinSupervisor k) p)
          else if tp_joinable p ! i then
            (if tp_workers p ! i = WDone
             then Some (set_main (MJoinWorker (i + 1) k) (p\<lparr>tp_joinable := (tp_joinable p)[i := False]\<rparr>))
             else None)
          else Some (set_main (MJoinWorker (i + 1) k) p)
      | MJoinSupervisor k \<Rightarrow>
          if tp_supJoinable p then
            (if tp_supervisor p = SDone
             then Some (set_main (after_stop k) (p\<lparr>tp_supJoinable := False\<rparr>)) else None)
          else Some (set_main (after_stop k) p)
      | MInit n \<Rightarrow>
          Some (set_main (MSpawn n) (p\<lparr>tp_numWorkers := n, tp_running := True, tp_workers := [],
            tp_joinable := []\<rparr>))
      | MSpawn n \<Rightarrow>
          if length (tp_workers p) < n
          then Some (p\<lparr>tp_workers := tp_workers p @ [WHead], tp_joinable := tp_joinable p @ [True]\<rparr>)
          else Some (set_main MSpawnSupervisor p)
      | MSpawnSupervisor \<Rightarrow>
          Some (set_main MIdle (p\<lparr>tp_supervisor := SHead, tp_supJoinable := True\<rparr>)))"

definition pool_start :: "nat \<Rightarrow> 't pool \<Rightarrow> 't pool option" where
  "pool_start numWorkers p =
     (if tp_main p = MIdle
      then Some (if numWorkers = 0 then p else set_main (MStop (Some numWorkers)) p) else None)"

definition pool_stop :: "'t pool \<Rightarrow> 't pool option" where
  "pool_stop p = (if tp_main p = MIdle then Some (set_main (MStop None) p) else None)"

text \<open>
  \<open>submit\<close>: the test of the task and of \<open>m_running\<close>; the enqueueing under the mutex; \<open>notify_one\<close>,
  which wakes one waiting worker if there is one.
\<close>

definition submit :: "'t option \<Rightarrow> 't pool \<Rightarrow> 't pool_event list \<times> 't pool" where
  "submit task p =
     (case task of
        None \<Rightarrow> ([Refused], p)
      | Some t \<Rightarrow>
          if \<not> tp_running p then ([Refused], p)
          else ([], p\<lparr>tp_submitting := tp_submitting p @ [t]\<rparr>))"

definition submit_enqueue :: "nat \<Rightarrow> 't pool \<Rightarrow> ('t pool_event list \<times> 't pool) option" where
  "submit_enqueue k p =
     (if k < length (tp_submitting p) \<and> tp_tasksMutex p = None then
        (let t = tp_submitting p ! k;
             p1 = p\<lparr>tp_submitting := take k (tp_submitting p) @ drop (k + 1) (tp_submitting p)\<rparr>
         in if 0 < tp_maxQueueSize p \<and> tp_maxQueueSize p \<le> length (tp_tasks p)
            then Some ([Refused], p1)
            else Some ([Accepted t],
                       p1\<lparr>tp_tasks := tp_tasks p @ [t], tp_notifies := tp_notifies p + 1\<rparr>))
      else None)"

definition submit_notify :: "nat \<Rightarrow> 't pool \<Rightarrow> 't pool option" where
  "submit_notify i p =
     (if tp_notifies p = 0 then None
      else if \<forall>pc\<in>set (tp_workers p). pc \<noteq> WWaiting
      then Some (p\<lparr>tp_notifies := tp_notifies p - 1\<rparr>)
      else if i < length (tp_workers p) \<and> tp_workers p ! i = WWaiting
      then Some (set_worker i WWoken (p\<lparr>tp_notifies := tp_notifies p - 1\<rparr>))
      else None)"

text \<open>The threads that can take the next step; a wait may also return without a notification.\<close>

datatype 't actor =
    Worker nat | Supervisor | Main
  | CallStart nat | CallStop | CallSubmit "'t option" | Enqueue nat | NotifyOne nat
  | Spurious nat | SpuriousSupervisor

fun pool_step :: "'t actor \<Rightarrow> 't pool \<Rightarrow> ('t pool_event list \<times> 't pool) option" where
  "pool_step (Worker i) p = workerLoop i p"
| "pool_step Supervisor p = map_option (Pair []) (supervisorLoop p)"
| "pool_step Main p = map_option (Pair []) (stop_and_start p)"
| "pool_step (CallStart n) p = map_option (Pair []) (pool_start n p)"
| "pool_step CallStop p = map_option (Pair []) (pool_stop p)"
| "pool_step (CallSubmit t) p = Some (submit t p)"
| "pool_step (Enqueue k) p = submit_enqueue k p"
| "pool_step (NotifyOne i) p = map_option (Pair []) (submit_notify i p)"
| "pool_step (Spurious i) p =
     (if i < length (tp_workers p) \<and> tp_workers p ! i = WWaiting
      then Some ([], set_worker i WWoken p) else None)"
| "pool_step SpuriousSupervisor p =
     (if tp_supervisor p = SWaiting then Some ([], set_supervisor SWoken p) else None)"

fun pool_run :: "'t pool \<Rightarrow> 't actor list \<Rightarrow> ('t pool_event list \<times> 't pool) option" where
  "pool_run p [] = Some ([], p)"
| "pool_run p (a # as) =
     (case pool_step a p of
        None \<Rightarrow> None
      | Some (ev, p1) \<Rightarrow> map_option (\<lambda>(evs, p2). (ev @ evs, p2)) (pool_run p1 as))"

section \<open>Order of the tasks\<close>

fun accepted :: "'t pool_event list \<Rightarrow> 't list" where
  "accepted [] = []"
| "accepted (Accepted t # es) = t # accepted es"
| "accepted (e # es) = accepted es"

fun taken :: "'t pool_event list \<Rightarrow> 't list" where
  "taken [] = []"
| "taken (Taken i t # es) = t # taken es"
| "taken (e # es) = taken es"

lemma accepted_append [simp]: "accepted (xs @ ys) = accepted xs @ accepted ys"
  by (induction xs rule: accepted.induct) auto

lemma taken_append [simp]: "taken (xs @ ys) = taken xs @ taken ys"
  by (induction xs rule: taken.induct) auto

lemmas pool_frame = set_worker_def set_supervisor_def set_main_def wake_supervisor_def

text \<open>What a step does to the queue of tasks.\<close>

definition queue_step :: "'t pool \<Rightarrow> 't pool_event list \<Rightarrow> 't pool \<Rightarrow> bool" where
  "queue_step p ev p' =
     (tp_tasks p @ accepted ev = taken ev @ tp_tasks p'
      \<and> tp_maxQueueSize p' = tp_maxQueueSize p
      \<and> (0 < tp_maxQueueSize p \<longrightarrow> length (tp_tasks p') \<le> max (length (tp_tasks p)) (tp_maxQueueSize p)))"

lemma queue_step_same:
  "tp_tasks p' = tp_tasks p \<Longrightarrow> tp_maxQueueSize p' = tp_maxQueueSize p \<Longrightarrow> queue_step p [] p'"
  by (simp add: queue_step_def)

lemma workerLoop_queue: "workerLoop i p = Some (ev, p') \<Longrightarrow> queue_step p ev p'"
  by (auto simp: workerLoop_def pool_frame pushFinished_def queue_step_def
      split: worker_pc.splits if_splits list.splits)

lemma supervisorLoop_queue: "supervisorLoop p = Some p' \<Longrightarrow> queue_step p [] p'"
  by (rule queue_step_same)
    (auto simp: supervisorLoop_def pool_frame split: supervisor_pc.splits if_splits list.splits)

lemma stop_and_start_queue: "stop_and_start p = Some p' \<Longrightarrow> queue_step p [] p'"
  by (rule queue_step_same)
    (auto simp: stop_and_start_def pool_frame split: main_pc.splits if_splits)

lemma submit_queue: "submit t p = (ev, p') \<Longrightarrow> queue_step p ev p'"
  by (auto simp: submit_def queue_step_def split: option.splits if_splits)

lemma enqueue_queue: "submit_enqueue k p = Some (ev, p') \<Longrightarrow> queue_step p ev p'"
  by (auto simp: submit_enqueue_def queue_step_def Let_def split: if_splits)

lemma notify_queue: "submit_notify i p = Some p' \<Longrightarrow> queue_step p [] p'"
  by (rule queue_step_same) (auto simp: submit_notify_def pool_frame split: if_splits)

lemma pool_step_queue: "pool_step a p = Some (ev, p') \<Longrightarrow> queue_step p ev p'"
  by (cases a)
    (auto simp: pool_start_def pool_stop_def pool_frame split: if_splits
      intro: workerLoop_queue supervisorLoop_queue stop_and_start_queue submit_queue enqueue_queue
        notify_queue queue_step_same)

lemma pool_run_step:
  assumes "pool_run p (a # as) = Some (evs, p')"
  obtains ev p1 evs1 where "pool_step a p = Some (ev, p1)" "pool_run p1 as = Some (evs1, p')"
    "evs = ev @ evs1"
  using assms by (auto split: option.splits)

lemma pool_run_queue:
  "pool_run p as = Some (evs, p') \<Longrightarrow>
   tp_tasks p @ accepted evs = taken evs @ tp_tasks p'
   \<and> tp_maxQueueSize p' = tp_maxQueueSize p
   \<and> (0 < tp_maxQueueSize p \<longrightarrow> length (tp_tasks p') \<le> max (length (tp_tasks p)) (tp_maxQueueSize p))"
proof (induction as arbitrary: p evs)
  case Nil
  then show ?case by simp
next
  case (Cons a as)
  obtain ev p1 evs1 where st: "pool_step a p = Some (ev, p1)"
    and run: "pool_run p1 as = Some (evs1, p')" and evs: "evs = ev @ evs1"
    using Cons.prems by (rule pool_run_step)
  have q: "tp_tasks p @ accepted ev = taken ev @ tp_tasks p1" "tp_maxQueueSize p1 = tp_maxQueueSize p"
    "0 < tp_maxQueueSize p \<longrightarrow> length (tp_tasks p1) \<le> max (length (tp_tasks p)) (tp_maxQueueSize p)"
    using pool_step_queue [OF st] by (auto simp: queue_step_def)
  have "tp_tasks p @ accepted evs = taken evs @ tp_tasks p'"
    using q(1) Cons.IH [OF run] evs by (metis accepted_append taken_append append_assoc)
  then show ?case using q(2,3) Cons.IH [OF run] by auto
qed

section \<open>Starting and stopping\<close>

definition exited :: "'t worker_pc \<Rightarrow> bool" where
  "exited pc = (pc = WExit \<or> pc = WDone)"

text \<open>While the pool runs no worker leaves its loop, and no thread has been joined.\<close>

definition live_ok :: "'t pool \<Rightarrow> bool" where
  "live_ok p = (tp_running p \<longrightarrow>
     (\<forall>i < length (tp_workers p). \<not> exited (tp_workers p ! i) \<and> tp_joinable p ! i))"

definition handles_ok :: "'t pool \<Rightarrow> bool" where
  "handles_ok p =
     (length (tp_joinable p) = length (tp_workers p)
      \<and> (\<forall>i < length (tp_workers p). tp_joinable p ! i \<or> tp_workers p ! i = WDone)
      \<and> (tp_supJoinable p \<or> tp_supervisor p = SDone))"

fun supervisor_ok :: "bool \<Rightarrow> supervisor_pc \<Rightarrow> bool" where
  "supervisor_ok running (SRestart i) = False"
| "supervisor_ok running (SRecheck i) = (\<not> running)"
| "supervisor_ok running pc = True"

definition workers_done :: "nat \<Rightarrow> 't pool \<Rightarrow> bool" where
  "workers_done n p = (\<forall>i < length (tp_workers p). i < n \<longrightarrow> tp_workers p ! i = WDone)"

definition all_done :: "'t pool \<Rightarrow> bool" where
  "all_done p = ((\<forall>i < length (tp_workers p). tp_workers p ! i = WDone) \<and> tp_supervisor p = SDone)"

fun main_ok :: "main_pc \<Rightarrow> 't pool \<Rightarrow> bool" where
  "main_ok MIdle p = (tp_running p \<or> all_done p)"
| "main_ok (MStop k) p = (tp_running p \<or> all_done p)"
| "main_ok (MStore k) p = tp_running p"
| "main_ok (MNotifyTasks k) p = (\<not> tp_running p)"
| "main_ok (MNotifyFinished k) p = (\<not> tp_running p)"
| "main_ok (MJoinWorker n k) p = (\<not> tp_running p \<and> workers_done n p)"
| "main_ok (MJoinSupervisor k) p = (\<not> tp_running p \<and> workers_done (length (tp_workers p)) p)"
| "main_ok (MInit n) p = (\<not> tp_running p \<and> all_done p)"
| "main_ok (MSpawn n) p = (tp_running p \<and> tp_supervisor p = SDone)"
| "main_ok MSpawnSupervisor p = (tp_running p \<and> tp_supervisor p = SDone)"

definition pool_ok :: "'t pool \<Rightarrow> bool" where
  "pool_ok p = (live_ok p \<and> handles_ok p \<and> supervisor_ok (tp_running p) (tp_supervisor p)
     \<and> main_ok (tp_main p) p)"

lemmas pool_ok_defs = pool_ok_def live_ok_def handles_ok_def workers_done_def all_done_def exited_def

lemma pool_ok_ctor: "pool_ok (new_pool m)"
  by (simp add: pool_ok_defs new_pool_defs)

lemma pool_ok_change:
  assumes "pool_ok p" and "tp_running p' = tp_running p" and "tp_main p' = tp_main p"
    and "tp_joinable p' = tp_joinable p" and "tp_supJoinable p' = tp_supJoinable p"
    and "tp_supervisor p' = tp_supervisor p \<or>
      (tp_supervisor p \<noteq> SDone \<and> supervisor_ok (tp_running p) (tp_supervisor p') \<and> tp_supervisor p' \<noteq> SDone)"
    and "length (tp_workers p') = length (tp_workers p)"
    and "\<And>i. i < length (tp_workers p) \<Longrightarrow>
      tp_workers p' ! i = tp_workers p ! i \<or>
      (tp_workers p ! i \<noteq> WDone \<and> (tp_running p \<longrightarrow> \<not> exited (tp_workers p' ! i)))"
  shows "pool_ok p'"
proof -
  have live: "live_ok p'" using assms unfolding pool_ok_def live_ok_def by metis
  have handles: "handles_ok p'"
    using assms unfolding pool_ok_def handles_ok_def by metis
  have sup: "supervisor_ok (tp_running p') (tp_supervisor p')"
    using assms(1,2,6) by (auto simp: pool_ok_def)
  have "\<And>n. workers_done n p \<Longrightarrow> workers_done n p'" "all_done p \<Longrightarrow> all_done p'"
    using assms unfolding workers_done_def all_done_def by metis+
  moreover have "tp_supervisor p = SDone \<Longrightarrow> tp_supervisor p' = SDone" using assms(6) by metis
  ultimately have "main_ok (tp_main p') p'"
    using assms unfolding pool_ok_def by (cases "tp_main p") auto
  then show ?thesis using live handles sup by (simp add: pool_ok_def)
qed

lemma pool_ok_worker:
  assumes "pool_ok p" and "workerLoop i p = Some (ev, p')"
  shows "pool_ok p'"
proof (rule pool_ok_change [OF assms(1)])
  have i: "i < length (tp_workers p)" using assms(2) by (auto simp: workerLoop_def split: if_splits)
  have live: "tp_running p \<Longrightarrow> \<not> exited (tp_workers p ! i)"
    using assms(1) i by (simp add: pool_ok_def live_ok_def)
  show "tp_workers p' ! j = tp_workers p ! j \<or>
      (tp_workers p ! j \<noteq> WDone \<and> (tp_running p \<longrightarrow> \<not> exited (tp_workers p' ! j)))"
    if "j < length (tp_workers p)" for j
    using assms(2) live that
    by (cases "j = i")
      (auto simp: workerLoop_def pool_frame pushFinished_def exited_def
        split: worker_pc.splits if_splits list.splits)
qed (use assms(2) in \<open>auto simp: workerLoop_def pool_frame pushFinished_def
      split: worker_pc.splits if_splits list.splits\<close>)

lemma pool_ok_supervisor:
  assumes "pool_ok p" and "supervisorLoop p = Some p'"
  shows "pool_ok p'"
proof (cases "\<exists>i. tp_supervisor p = SJoin i \<and> i < length (tp_workers p)")
  case True
  then obtain i where i: "tp_supervisor p = SJoin i" "i < length (tp_workers p)" by blast
  have run: "\<not> tp_running p" "tp_workers p ! i = WDone"
    and p': "p' = set_supervisor (SRecheck i) p
      \<or> p' = set_supervisor (SRecheck i) (p\<lparr>tp_joinable := (tp_joinable p)[i := False]\<rparr>)"
    using assms i
    by (auto simp: pool_ok_defs supervisorLoop_def split: if_splits)
  show ?thesis
    using assms(1) p' run i
    by (cases "tp_main p")
      (auto simp: pool_ok_defs pool_frame nth_list_update)
next
  case False
  show ?thesis
  proof (cases "tp_supervisor p = SHead \<and> \<not> tp_running p \<or> tp_supervisor p = SCheck \<and> \<not> tp_running p
      \<or> (\<exists>i. tp_supervisor p = SRecheck i)")
    case True
    then have stop: "\<not> tp_running p" "tp_supervisor p' = SDone" "tp_workers p' = tp_workers p"
      "tp_joinable p' = tp_joinable p" "tp_running p' = tp_running p" "tp_main p' = tp_main p"
      "tp_supJoinable p' = tp_supJoinable p"
      using assms by (auto simp: pool_ok_def supervisorLoop_def pool_frame)
    show ?thesis
      using assms(1) stop by (cases "tp_main p") (auto simp: pool_ok_defs)
  next
    case other: False
    have norestart: "\<And>i. tp_supervisor p \<noteq> SRestart i" using assms(1) by (auto simp: pool_ok_def)
    show ?thesis
      by (rule pool_ok_change [OF assms(1)])
        (use assms(2) False other norestart in \<open>auto simp: supervisorLoop_def pool_frame
          split: supervisor_pc.splits if_splits list.splits\<close>)
  qed
qed

lemma wake_worker_simps [simp]:
  "wake_worker pc = WDone \<longleftrightarrow> pc = WDone" "exited (wake_worker pc) = exited pc"
  by (cases pc; simp add: wake_worker_def exited_def)+

lemma wake_supervisor_fields [simp]:
  "tp_running (wake_supervisor p) = tp_running p" "tp_workers (wake_supervisor p) = tp_workers p"
  "tp_joinable (wake_supervisor p) = tp_joinable p"
  "tp_supJoinable (wake_supervisor p) = tp_supJoinable p"
  "tp_supervisor (wake_supervisor p) = SDone \<longleftrightarrow> tp_supervisor p = SDone"
  "supervisor_ok r (tp_supervisor (wake_supervisor p)) \<longleftrightarrow> supervisor_ok r (tp_supervisor p)"
  by (auto simp: wake_supervisor_def set_supervisor_def)

lemma workers_done_step:
  "workers_done i p \<Longrightarrow> tp_workers p ! i = WDone \<Longrightarrow> workers_done (Suc i) p"
  by (auto simp: workers_done_def less_Suc_eq)

lemma pool_ok_main:
  assumes "pool_ok p" and "stop_and_start p = Some p'"
  shows "pool_ok p'"
proof (cases "tp_main p")
  case (MJoinWorker i k)
  then show ?thesis
    using assms workers_done_step [of i p]
    by (cases "i < length (tp_workers p)")
      (auto simp: stop_and_start_def set_main_def pool_ok_def live_ok_def handles_ok_def
        nth_list_update workers_done_def split: if_splits)
next
  case (MJoinSupervisor k)
  then show ?thesis
    using assms
    by (cases k) (auto simp: stop_and_start_def set_main_def pool_ok_defs after_stop_def split: if_splits)
next
  case (MStop k)
  then show ?thesis
    using assms
    by (cases k) (auto simp: stop_and_start_def set_main_def pool_ok_defs after_stop_def split: if_splits)
next
  case (MStore k)
  then show ?thesis
    using assms
    by (cases "tp_supervisor p") (auto simp: stop_and_start_def set_main_def pool_ok_defs)
next
  case (MNotifyTasks k)
  then show ?thesis
    using assms by (auto simp: stop_and_start_def set_main_def pool_ok_def live_ok_def handles_ok_def)
next
  case (MNotifyFinished k)
  then show ?thesis
    using assms
    by (auto simp: stop_and_start_def set_main_def pool_ok_def live_ok_def handles_ok_def workers_done_def)
next
  case (MInit n)
  then show ?thesis
    using assms by (auto simp: stop_and_start_def set_main_def pool_ok_defs)
next
  case (MSpawn n)
  then show ?thesis
    using assms
    by (auto simp: stop_and_start_def set_main_def pool_ok_defs nth_append less_Suc_eq split: if_splits)
next
  case MSpawnSupervisor
  then show ?thesis
    using assms by (auto simp: stop_and_start_def set_main_def pool_ok_defs)
next
  case MIdle
  then show ?thesis using assms(2) by (simp add: stop_and_start_def)
qed

lemma pool_ok_step: "pool_ok p \<Longrightarrow> pool_step a p = Some (ev, p') \<Longrightarrow> pool_ok p'"
proof (cases a)
  case (CallStart n)
  then show "pool_ok p \<Longrightarrow> pool_step a p = Some (ev, p') \<Longrightarrow> pool_ok p'"
    by (auto simp: pool_start_def set_main_def pool_ok_defs split: if_splits)
next
  case CallStop
  then show "pool_ok p \<Longrightarrow> pool_step a p = Some (ev, p') \<Longrightarrow> pool_ok p'"
    by (auto simp: pool_stop_def set_main_def pool_ok_defs split: if_splits)
next
  case (CallSubmit t)
  assume "pool_ok p" "pool_step a p = Some (ev, p')"
  then show "pool_ok p'"
    by (intro pool_ok_change [of p p'])
      (auto simp: CallSubmit submit_def split: option.splits if_splits)
next
  case (Enqueue k)
  assume "pool_ok p" "pool_step a p = Some (ev, p')"
  then show "pool_ok p'"
    by (intro pool_ok_change [of p p'])
      (auto simp: Enqueue submit_enqueue_def Let_def split: if_splits)
next
  case (NotifyOne i)
  assume ok: "pool_ok p" and "pool_step a p = Some (ev, p')"
  then show "pool_ok p'"
    by (intro pool_ok_change [OF ok])
      (auto simp: NotifyOne submit_notify_def pool_frame nth_list_update exited_def split: if_splits)
next
  case (Spurious i)
  assume ok: "pool_ok p" and "pool_step a p = Some (ev, p')"
  then show "pool_ok p'"
    by (intro pool_ok_change [OF ok])
      (auto simp: Spurious pool_frame nth_list_update exited_def split: if_splits)
next
  case SpuriousSupervisor
  assume ok: "pool_ok p" and "pool_step a p = Some (ev, p')"
  then show "pool_ok p'"
    by (intro pool_ok_change [OF ok]) (auto simp: SpuriousSupervisor pool_frame split: if_splits)
qed (auto intro: pool_ok_worker pool_ok_supervisor pool_ok_main)

lemma pool_ok_run: "pool_ok p \<Longrightarrow> pool_run p as = Some (evs, p') \<Longrightarrow> pool_ok p'"
proof (induction as arbitrary: p evs)
  case Nil
  then show ?case by simp
next
  case (Cons a as)
  from Cons.prems(2) show ?case
    by (rule pool_run_step) (use Cons.IH pool_ok_step [OF Cons.prems(1)] in blast)
qed

section \<open>The mutexes\<close>

definition holds_tasks :: "'t worker_pc \<Rightarrow> bool" where
  "holds_tasks pc = (pc \<in> {WTest, WWait, WCheck, WTake})"

definition holds_finished :: "supervisor_pc \<Rightarrow> bool" where
  "holds_finished pc = (pc \<in> {STest, SWait, SCheck, STakeId})"

text \<open>Exactly the worker that owns the mutex is between its acquisition and its release.\<close>

fun tasks_lock :: "nat option \<Rightarrow> 't worker_pc list \<Rightarrow> bool" where
  "tasks_lock None ws = (\<forall>j < length ws. \<not> holds_tasks (ws ! j))"
| "tasks_lock (Some i) ws =
     (i < length ws \<and> holds_tasks (ws ! i) \<and> (\<forall>j < length ws. j \<noteq> i \<longrightarrow> \<not> holds_tasks (ws ! j)))"

declare tasks_lock.simps [simp del]

definition lock_ok :: "'t pool \<Rightarrow> bool" where
  "lock_ok p =
     (tasks_lock (tp_tasksMutex p) (tp_workers p)
      \<and> (tp_finishedMutex p \<longleftrightarrow> holds_finished (tp_supervisor p)))"

lemma holds_simps [simp]:
  "\<not> holds_tasks WHead" "\<not> holds_tasks WLock" "holds_tasks WTest" "holds_tasks WWait"
  "\<not> holds_tasks WWaiting" "\<not> holds_tasks WWoken" "holds_tasks WCheck" "holds_tasks WTake"
  "\<not> holds_tasks (WRun t)" "\<not> holds_tasks WExit" "\<not> holds_tasks WDone"
  "\<not> holds_finished SHead" "\<not> holds_finished SLock" "holds_finished STest" "holds_finished SWait"
  "\<not> holds_finished SWaiting" "\<not> holds_finished SWoken" "holds_finished SCheck"
  "holds_finished STakeId" "\<not> holds_finished (SJoin i)" "\<not> holds_finished (SRecheck i)"
  "\<not> holds_finished (SRestart i)" "\<not> holds_finished SDone"
  "holds_tasks (wake_worker pc) = holds_tasks pc"
  by (auto simp: holds_tasks_def holds_finished_def wake_worker_def split: worker_pc.splits)

lemma tasks_lock_same:
  assumes "tasks_lock m ws" and "holds_tasks pc = holds_tasks (ws ! i)"
  shows "tasks_lock m (ws[i := pc])"
proof -
  have "holds_tasks (ws[i := pc] ! j) = holds_tasks (ws ! j)" if "j < length ws" for j
    using assms(2) that by (cases "i = j") auto
  then show ?thesis using assms(1) by (cases m) (auto simp: tasks_lock.simps)
qed

lemma tasks_lock_acquire:
  "tasks_lock None ws \<Longrightarrow> i < length ws \<Longrightarrow> holds_tasks pc \<Longrightarrow> tasks_lock (Some i) (ws[i := pc])"
  by (auto simp: tasks_lock.simps nth_list_update)

lemma tasks_lock_release:
  "tasks_lock m ws \<Longrightarrow> i < length ws \<Longrightarrow> holds_tasks (ws ! i) \<Longrightarrow> \<not> holds_tasks pc \<Longrightarrow>
   tasks_lock None (ws[i := pc])"
  by (cases m) (auto simp: tasks_lock.simps nth_list_update)

lemma tasks_lock_wake: "tasks_lock m ws \<Longrightarrow> tasks_lock m (map wake_worker ws)"
  by (cases m) (auto simp: tasks_lock.simps)

lemma tasks_lock_spawn: "tasks_lock m ws \<Longrightarrow> \<not> holds_tasks pc \<Longrightarrow> tasks_lock m (ws @ [pc])"
  by (cases m) (auto simp: tasks_lock.simps nth_append less_Suc_eq)

lemma tasks_lock_clear:
  "tasks_lock m ws \<Longrightarrow> \<forall>j < length ws. \<not> holds_tasks (ws ! j) \<Longrightarrow> tasks_lock m []"
  by (cases m) (auto simp: tasks_lock.simps)

lemmas tasks_lock_intros = tasks_lock_same tasks_lock_acquire tasks_lock_release tasks_lock_wake
  tasks_lock_spawn

lemma lock_ok_worker:
  "lock_ok p \<Longrightarrow> workerLoop i p = Some (ev, p') \<Longrightarrow> lock_ok p'"
  by (auto simp: workerLoop_def pool_frame pushFinished_def lock_ok_def
      tasks_lock_intros
      split: worker_pc.splits if_splits list.splits)

lemma lock_ok_supervisor:
  "lock_ok p \<Longrightarrow> pool_ok p \<Longrightarrow> supervisorLoop p = Some p' \<Longrightarrow> lock_ok p'"
  by (auto simp: supervisorLoop_def pool_frame lock_ok_def pool_ok_def
      split: supervisor_pc.splits if_splits list.splits)

lemma lock_ok_main:
  assumes "lock_ok p" and "pool_ok p" and "stop_and_start p = Some p'"
  shows "lock_ok p'"
proof (cases "\<exists>n. tp_main p = MInit n")
  case True
  then have "all_done p" using assms(2) by (auto simp: pool_ok_def)
  then have "tasks_lock (tp_tasksMutex p) []"
    using assms(1) by (intro tasks_lock_clear) (auto simp: lock_ok_def all_done_def)
  then show ?thesis
    using True assms by (auto simp: stop_and_start_def pool_frame lock_ok_def)
next
  case False
  then show ?thesis
    using assms
    by (cases "tp_main p")
      (auto simp: stop_and_start_def pool_frame lock_ok_def pool_ok_def tasks_lock_intros
        split: if_splits)
qed

lemma lock_ok_change:
  "lock_ok p \<Longrightarrow> tp_tasksMutex p' = tp_tasksMutex p \<Longrightarrow> tp_workers p' = tp_workers p \<Longrightarrow>
   tp_finishedMutex p' = tp_finishedMutex p \<Longrightarrow> tp_supervisor p' = tp_supervisor p \<Longrightarrow> lock_ok p'"
  by (simp add: lock_ok_def)

lemma lock_ok_step:
  assumes "lock_ok p" and "pool_ok p" and "pool_step a p = Some (ev, p')"
  shows "lock_ok p'"
proof (cases a)
  case (CallStart n)
  then show ?thesis using assms
    by (auto simp: pool_start_def set_main_def lock_ok_def split: if_splits)
next
  case (CallSubmit t)
  then show ?thesis using assms
    by (intro lock_ok_change [of p p']) (auto simp: submit_def split: option.splits if_splits)
next
  case (Enqueue k)
  then show ?thesis using assms
    by (intro lock_ok_change [of p p']) (auto simp: submit_enqueue_def Let_def split: if_splits)
next
  case (NotifyOne i)
  then show ?thesis using assms
    by (auto simp: submit_notify_def pool_frame lock_ok_def tasks_lock_same split: if_splits)
next
  case (Spurious i)
  then show ?thesis using assms
    by (auto simp: pool_frame lock_ok_def tasks_lock_same split: if_splits)
next
  case SpuriousSupervisor
  then show ?thesis using assms by (auto simp: pool_frame lock_ok_def split: if_splits)
next
  case CallStop
  then show ?thesis using assms
    by (auto simp: pool_stop_def set_main_def lock_ok_def split: if_splits)
qed (use assms in \<open>auto intro: lock_ok_worker lock_ok_supervisor lock_ok_main\<close>)

lemma lock_ok_run:
  "lock_ok p \<Longrightarrow> pool_ok p \<Longrightarrow> pool_run p as = Some (evs, p') \<Longrightarrow> lock_ok p'"
proof (induction as arbitrary: p evs)
  case Nil
  then show ?case by simp
next
  case (Cons a as)
  from Cons.prems(3) show ?case
    by (rule pool_run_step)
      (use Cons.IH pool_ok_step [OF Cons.prems(2)] lock_ok_step [OF Cons.prems(1,2)] in blast)
qed

lemma lock_ok_ctor: "lock_ok (new_pool m)"
  by (simp add: lock_ok_def tasks_lock.simps new_pool_defs)

section \<open>Stopping ends\<close>

text \<open>
  When the pool has been told to stop and no thread is inside (or about to enter) a wait, every step
  of its threads brings it closer to the end.
\<close>

fun worker_left :: "'t worker_pc \<Rightarrow> nat" where
  "worker_left WTake = 4"
| "worker_left WLock = 4"
| "worker_left WWoken = 4"
| "worker_left WTest = 3"
| "worker_left (WRun t) = 3"
| "worker_left WCheck = 2"
| "worker_left WHead = 2"
| "worker_left WExit = 1"
| "worker_left _ = 0"

fun supervisor_left :: "supervisor_pc \<Rightarrow> nat" where
  "supervisor_left STakeId = 3"
| "supervisor_left SLock = 3"
| "supervisor_left SWoken = 3"
| "supervisor_left STest = 2"
| "supervisor_left (SJoin i) = 2"
| "supervisor_left (SRecheck i) = 1"
| "supervisor_left SCheck = 1"
| "supervisor_left SHead = 1"
| "supervisor_left _ = 0"

fun main_left :: "nat \<Rightarrow> main_pc \<Rightarrow> nat" where
  "main_left n (MNotifyTasks k) = n + 4"
| "main_left n (MNotifyFinished k) = n + 3"
| "main_left n (MJoinWorker i k) = 2 + (n - i)"
| "main_left n (MJoinSupervisor k) = 1"
| "main_left n _ = 0"

definition steps_left :: "'t pool \<Rightarrow> nat" where
  "steps_left p = sum_list (map worker_left (tp_workers p)) + supervisor_left (tp_supervisor p)
     + main_left (length (tp_workers p)) (tp_main p)"

text \<open>No thread waits, and the caller of \<open>stop\<close> is past the notifications.\<close>

fun joining :: "main_pc \<Rightarrow> bool" where
  "joining (MJoinWorker i k) = (k = None)"
| "joining (MJoinSupervisor k) = (k = None)"
| "joining MIdle = True"
| "joining _ = False"

definition stopping :: "'t pool \<Rightarrow> bool" where
  "stopping p =
     (\<not> tp_running p \<and> joining (tp_main p)
      \<and> (\<forall>i < length (tp_workers p). tp_workers p ! i \<noteq> WWait \<and> tp_workers p ! i \<noteq> WWaiting)
      \<and> tp_supervisor p \<noteq> SWait \<and> tp_supervisor p \<noteq> SWaiting)"

fun own_thread :: "'t actor \<Rightarrow> bool" where
  "own_thread (Worker i) = True"
| "own_thread Supervisor = True"
| "own_thread Main = True"
| "own_thread _ = False"

lemma sum_list_update_split:
  fixes f :: "'a \<Rightarrow> nat"
  assumes "i < length xs"
  obtains r where "sum_list (map f xs) = r + f (xs ! i)" and "\<And>x. sum_list (map f (xs[i := x])) = r + f x"
proof
  show "sum_list (map f (xs[i := x])) = sum_list (map f (take i xs)) + sum_list (map f (drop (Suc i) xs)) + f x" for x
    using assms by (simp add: upd_conv_take_nth_drop)
  from this [of "xs ! i"]
  show "sum_list (map f xs) = sum_list (map f (take i xs)) + sum_list (map f (drop (Suc i) xs)) + f (xs ! i)"
    by simp
qed

lemma sum_list_update_less:
  fixes f :: "'a \<Rightarrow> nat"
  assumes "i < length xs" and "f x < f (xs ! i)"
  shows "sum_list (map f (xs[i := x])) < sum_list (map f xs)"
  using sum_list_update_split [OF assms(1), of f] assms(2) by (metis add_less_cancel_left)

lemma stopping_worker:
  assumes "stopping p" and "workerLoop i p = Some (ev, p')"
  shows "stopping p' \<and> steps_left p' < steps_left p"
proof -
  have "i < length (tp_workers p)" using assms(2) by (auto simp: workerLoop_def split: if_splits)
  then show ?thesis
    using assms sum_list_update_less [of i "tp_workers p" worker_left]
    by (auto simp: stopping_def workerLoop_def pool_frame pushFinished_def steps_left_def nth_list_update
        split: worker_pc.splits if_splits list.splits)
qed

lemma stopping_supervisor:
  "stopping p \<Longrightarrow> pool_ok p \<Longrightarrow> supervisorLoop p = Some p' \<Longrightarrow>
   stopping p' \<and> steps_left p' < steps_left p"
  by (auto simp: stopping_def pool_ok_def supervisorLoop_def pool_frame steps_left_def
      split: supervisor_pc.splits if_splits list.splits)

lemma stopping_main:
  "stopping p \<Longrightarrow> stop_and_start p = Some p' \<Longrightarrow> stopping p' \<and> steps_left p' < steps_left p"
  by (cases "tp_main p")
    (auto simp: stopping_def stop_and_start_def pool_frame steps_left_def after_stop_def split: if_splits)

lemma stopping_step:
  "stopping p \<Longrightarrow> pool_ok p \<Longrightarrow> own_thread a \<Longrightarrow> pool_step a p = Some (ev, p') \<Longrightarrow>
   stopping p' \<and> steps_left p' < steps_left p"
  by (cases a) (auto dest: stopping_worker stopping_supervisor stopping_main)

lemma stopping_run:
  "stopping p \<Longrightarrow> pool_ok p \<Longrightarrow> \<forall>a\<in>set as. own_thread a \<Longrightarrow> pool_run p as = Some (evs, p') \<Longrightarrow>
   stopping p' \<and> length as + steps_left p' \<le> steps_left p"
proof (induction as arbitrary: p evs)
  case Nil
  then show ?case by simp
next
  case (Cons a as)
  obtain ev p1 evs1 where st: "pool_step a p = Some (ev, p1)"
    and run: "pool_run p1 as = Some (evs1, p')"
    using Cons.prems(4) by (rule pool_run_step)
  have "stopping p1 \<and> steps_left p1 < steps_left p"
    using stopping_step [OF Cons.prems(1,2) _ st] Cons.prems(3) by simp
  then show ?case
    using Cons.IH [OF _ pool_ok_step [OF Cons.prems(2) st] _ run] Cons.prems(3) by auto
qed

text \<open>As long as \<open>stop\<close> has not returned some thread can move.\<close>

lemma stopping_worker_moves:
  assumes "stopping p" and "lock_ok p" and "i < length (tp_workers p)" and "tp_workers p ! i \<noteq> WDone"
    and "tp_finishedMutex p = False"
  shows "\<exists>j ev p'. workerLoop j p = Some (ev, p')"
proof (cases "tp_tasksMutex p")
  case None
  then have "workerLoop i p \<noteq> None"
    using assms by (auto simp: workerLoop_def stopping_def pushFinished_def split: worker_pc.splits list.splits)
  then show ?thesis by (metis not_None_eq old.prod.exhaust)
next
  case (Some j)
  then have "j < length (tp_workers p)" "holds_tasks (tp_workers p ! j)"
    using assms(2) by (auto simp: lock_ok_def tasks_lock.simps)
  then have "workerLoop j p \<noteq> None"
    using assms(1) by (auto simp: workerLoop_def stopping_def split: worker_pc.splits list.splits)
  then show ?thesis by (metis not_None_eq old.prod.exhaust)
qed

lemma stopping_moves:
  assumes "stopping p" and "lock_ok p" and "tp_main p \<noteq> MIdle"
  shows "\<exists>a ev p'. own_thread a \<and> pool_step a p = Some (ev, p')"
proof (cases "tp_finishedMutex p")
  case True
  then have "holds_finished (tp_supervisor p)" using assms(2) by (simp add: lock_ok_def)
  then have "supervisorLoop p \<noteq> None"
    using assms(1) by (auto simp: supervisorLoop_def stopping_def split: supervisor_pc.splits list.splits)
  then show ?thesis by (intro exI [of _ Supervisor]) auto
next
  case free: False
  show ?thesis
  proof (cases "\<exists>i < length (tp_workers p). tp_workers p ! i \<noteq> WDone")
    case True
    then obtain j ev p' where "workerLoop j p = Some (ev, p')"
      using stopping_worker_moves [OF assms(1,2)] free by blast
    then show ?thesis by (intro exI [of _ "Worker j"]) auto
  next
    case workers: False
    show ?thesis
    proof (cases "tp_supervisor p = SDone")
      case True
      then have "stop_and_start p \<noteq> None"
        using assms(1,3) workers by (cases "tp_main p") (auto simp: stop_and_start_def stopping_def)
      then show ?thesis by (intro exI [of _ Main]) auto
    next
      case False
      then have "supervisorLoop p \<noteq> None"
        using assms(1) workers free
        by (auto simp: supervisorLoop_def stopping_def split: supervisor_pc.splits list.splits)
      then show ?thesis by (intro exI [of _ Supervisor]) auto
    qed
  qed
qed

section \<open>Properties\<close>

text \<open>
  C3: In every interleaving the tasks that workers have taken, followed by the tasks still queued, are
  exactly the tasks that \<open>submit\<close> accepted, in that order: none is lost, run twice or overtaken.  With
  a limit set, the queue never grows beyond it, and \<open>queueSize\<close> answers the number of accepted tasks not
  yet taken (or blocks, while a worker holds the mutex).
\<close>

theorem ThreadPool_tasks_in_order:
  assumes "pool_run (new_pool m) as = Some (evs, p)"
  shows "accepted evs = taken evs @ tp_tasks p \<and> (m = 0 \<or> length (tp_tasks p) \<le> m)
    \<and> queueSize p \<in> {None, Some (length (accepted evs) - length (taken evs))}"
  using pool_run_queue [OF assms] by (auto simp: new_pool_defs queueSize_def)

text \<open>A run that starts one worker, and one that takes a task.\<close>

definition start_one :: "nat actor list" where
  "start_one = [CallStart 1, Main, Main, Main, Main, Main]"

definition one_worker :: "nat pool" where
  "one_worker =
     \<lparr>tp_numWorkers = 1, tp_maxQueueSize = 1, tp_running = True, tp_workers = [WHead],
      tp_joinable = [True], tp_supervisor = SHead, tp_supJoinable = True, tp_main = MIdle,
      tp_tasks = [], tp_tasksMutex = None, tp_finishedIds = [], tp_finishedMutex = False,
      tp_submitting = [], tp_notifies = 0\<rparr>"

lemmas pool_eval = workerLoop_def supervisorLoop_def stop_and_start_def pool_start_def pool_stop_def
  submit_def submit_enqueue_def submit_notify_def after_stop_def pool_frame pushFinished_def
  wake_worker_def one_worker_def

lemma start_one_run: "pool_run (new_pool 1) start_one = Some ([], one_worker)"
  by (simp add: start_one_def new_pool_defs pool_eval)

lemma pool_run_append:
  "pool_run p as = Some (e1, p1) \<Longrightarrow> pool_run p1 bs = Some (e2, p2) \<Longrightarrow>
   pool_run p (as @ bs) = Some (e1 @ e2, p2)"
proof (induction as arbitrary: p e1)
  case Nil
  then show ?case by simp
next
  case (Cons a as)
  obtain ev q evs1 where "pool_step a p = Some (ev, q)" "pool_run q as = Some (evs1, p1)" "e1 = ev @ evs1"
    using Cons.prems(1) by (rule pool_run_step)
  then show ?case using Cons.IH [of q evs1] Cons.prems(2) by simp
qed

lemma ThreadPool_tasks_in_order_witness:
  "\<exists>p. pool_run (new_pool 1)
     (start_one @ [CallSubmit (Some 7), CallSubmit (Some 8), Enqueue 0, Worker 0, Worker 0, Worker 0,
        Worker 0, Worker 0, Enqueue 0]) = Some ([Accepted 7, Taken 0 7, Accepted 8], p)
     \<and> accepted [Accepted 7, Taken 0 7, Accepted (8::nat)] = [7] @ tp_tasks p"
proof -
  obtain p where "pool_run one_worker
     [CallSubmit (Some 7), CallSubmit (Some 8), Enqueue 0, Worker 0, Worker 0, Worker 0,
        Worker 0, Worker 0, Enqueue 0] = Some ([Accepted 7, Taken 0 7, Accepted 8], p)"
    by (simp add: pool_eval)
  from pool_run_append [OF start_one_run this]
  have run: "pool_run (new_pool 1)
     (start_one @ [CallSubmit (Some 7), CallSubmit (Some 8), Enqueue 0, Worker 0, Worker 0, Worker 0,
        Worker 0, Worker 0, Enqueue 0]) = Some ([Accepted 7, Taken 0 7, Accepted 8], p)" by simp
  show ?thesis using ThreadPool_tasks_in_order [OF run] run by auto
qed

text \<open>
  C4: When \<open>stop()\<close> has returned every thread of the pool has ended, so no task runs any more; while the
  pool runs no worker has left its loop, so the supervisor never replaces one; and at any time at
  most one worker is inside the section that \<open>m_tasksMutex\<close> protects.
\<close>

theorem ThreadPool_stop_joins_all:
  assumes "pool_run (new_pool m) as = Some (evs, p)"
  shows "(tp_main p = MIdle \<and> \<not> tp_running p \<longrightarrow> (\<forall>pc\<in>set (tp_workers p). pc = WDone)
      \<and> tp_supervisor p = SDone)
    \<and> (tp_running p \<longrightarrow> (\<forall>pc\<in>set (tp_workers p). \<not> exited pc))
    \<and> (\<forall>i. tp_supervisor p \<noteq> SRestart i)
    \<and> (\<forall>i < length (tp_workers p). \<forall>j < length (tp_workers p).
         holds_tasks (tp_workers p ! i) \<and> holds_tasks (tp_workers p ! j) \<longrightarrow> i = j)"
proof -
  have ok: "pool_ok p" using pool_ok_run [OF pool_ok_ctor assms] .
  have lock: "lock_ok p" using lock_ok_run [OF lock_ok_ctor pool_ok_ctor assms] .
  have "i = j" if "i < length (tp_workers p)" "j < length (tp_workers p)"
    "holds_tasks (tp_workers p ! i)" "holds_tasks (tp_workers p ! j)" for i j
    using lock that by (cases "tp_tasksMutex p") (auto simp: lock_ok_def tasks_lock.simps)
  then show ?thesis
    using ok by (auto simp: pool_ok_def live_ok_def all_done_def in_set_conv_nth)
qed

definition stop_one :: "nat actor list" where
  "stop_one = [CallStop, Main, Main, Main, Main, Supervisor, Worker 0, Worker 0, Main, Main, Main]"

lemma ThreadPool_stop_joins_all_witness:
  "\<exists>p. pool_run (new_pool 1) (start_one @ stop_one) = Some ([], p)
     \<and> tp_main p = MIdle \<and> \<not> tp_running p \<and> tp_workers p \<noteq> [] \<and> set (tp_workers p) = {WDone}"
proof -
  obtain p where p: "pool_run one_worker stop_one = Some ([], p)" "tp_main p = MIdle" "\<not> tp_running p"
    "tp_workers p \<noteq> []"
    by (simp add: pool_eval stop_one_def)
  have run: "pool_run (new_pool 1) (start_one @ stop_one) = Some ([], p)"
    using pool_run_append [OF start_one_run p(1)] by simp
  then have "\<forall>pc\<in>set (tp_workers p). pc = WDone"
    using ThreadPool_stop_joins_all [OF run] p(2,3) by blast
  then show ?thesis using run p by (cases "tp_workers p") auto
qed

text \<open>
  C6: Once \<open>stop()\<close> is joining the threads and none of them is inside, or about to enter, a wait, it
  returns: the threads can make only finitely many steps, and they can always make one until \<open>stop\<close> has
  returned.
\<close>

theorem ThreadPool_stop_returns:
  assumes "pool_run (new_pool m) as = Some (evs, p)"
    and "stopping p"
    and "\<forall>a\<in>set bs. own_thread a" and "pool_run p bs = Some (evs', p')"
  shows "length bs \<le> steps_left p
    \<and> ((\<forall>a. own_thread a \<longrightarrow> pool_step a p' = None) \<longrightarrow> tp_main p' = MIdle)"
proof -
  have ok: "pool_ok p" using pool_ok_run [OF pool_ok_ctor assms(1)] .
  have lock: "lock_ok p" using lock_ok_run [OF lock_ok_ctor pool_ok_ctor assms(1)] .
  have "stopping p'" "length bs \<le> steps_left p"
    using stopping_run [OF assms(2) ok assms(3,4)] by auto
  moreover have "lock_ok p'" using lock_ok_run [OF lock ok assms(4)] .
  ultimately show ?thesis using stopping_moves by fastforce
qed

lemma ThreadPool_stop_returns_witness:
  "\<exists>p. pool_run (new_pool 1) (start_one @ take 5 stop_one) = Some ([], p)
     \<and> stopping p \<and> length (drop 5 stop_one) \<le> steps_left p"
proof -
  obtain p p' where p: "pool_run one_worker (take 5 stop_one) = Some ([], p)" "stopping p"
    "pool_run p (drop 5 stop_one) = Some ([], p')"
    by (simp add: pool_eval stop_one_def stopping_def)
  have run: "pool_run (new_pool 1) (start_one @ take 5 stop_one) = Some ([], p)"
    using pool_run_append [OF start_one_run p(1)] by simp
  have "\<forall>a\<in>set (drop 5 stop_one). own_thread a" by (simp add: stop_one_def)
  from ThreadPool_stop_returns [OF run p(2) this p(3)] show ?thesis using run p(2) by blast
qed

definition lost_wakeup :: "nat actor list" where
  "lost_wakeup = start_one @ [Worker 0, Worker 0, Worker 0, CallStop, Main, Main, Main, Worker 0,
     Main, Supervisor]"

text \<open>
  \<open>stop\<close> stores \<open>m_running\<close> and notifies without holding \<open>m_tasksMutex\<close>.  If a worker has tested the
  flag but not yet begun to wait, the notification is lost: there is a run after which \<open>stop\<close> is
  blocked in \<open>join\<close>, and nothing but a spurious wake-up of that worker can ever change the state.
\<close>

theorem ThreadPool_lost_wakeup:
  "\<exists>p. pool_run (new_pool 1) lost_wakeup = Some ([], p)
     \<and> tp_main p = MJoinWorker 0 None \<and> tp_workers p = [WWaiting]
     \<and> (\<forall>a. a = Spurious 0 \<or> pool_step a p \<in> {None, Some ([], p), Some ([Refused], p)})"
proof -
  let ?p = "one_worker\<lparr>tp_running := False, tp_workers := [WWaiting], tp_supervisor := SDone,
    tp_main := MJoinWorker 0 None\<rparr>"
  have run: "pool_run one_worker [Worker 0, Worker 0, Worker 0, CallStop, Main, Main, Main, Worker 0,
     Main, Supervisor] = Some ([], ?p)"
    by (simp add: pool_eval)
  have "a = Spurious 0 \<or> pool_step a ?p \<in> {None, Some ([], ?p), Some ([Refused], ?p)}" for a
    by (cases a) (auto simp: pool_eval split: option.splits if_splits)
  then show ?thesis
    using pool_run_append [OF start_one_run run] unfolding lost_wakeup_def
    by (intro exI [of _ ?p]) simp
qed

end
