(* ===== verification/PoolLiveness.thy ===== *)
theory PoolLiveness imports ThreadPool begin

text \<open>
  Progress of \<open>SupervisedThreadPool\<close> (src/SupervisedThreadPool.cpp) while it runs: no accepted task is left
  behind with every worker asleep, although \<open>submit\<close> notifies after it has released the mutex; so the
  workers, left to themselves, take every task.  And what is left over when the pool is stopped and started
  again: the ids in \<open>m_finishedIds\<close>, on which the new supervisor blocks.
\<close>

section \<open>No task is left behind\<close>

text \<open>What the worker that holds \<open>m_tasksMutex\<close> knows of the queue.\<close>

fun pc_tasks :: "'t list \<Rightarrow> 't worker_pc \<Rightarrow> bool" where
  "pc_tasks ts WWait = (ts = [])"
| "pc_tasks ts WCheck = (ts \<noteq> [])"
| "pc_tasks ts WTake = (ts \<noteq> [])"
| "pc_tasks ts _ = True"

definition wakeful :: "'t pool \<Rightarrow> bool" where
  "wakeful p = (tp_tasks p \<noteq> [] \<and> tp_workers p \<noteq> [] \<and> (\<forall>pc\<in>set (tp_workers p). pc = WWaiting)
     \<longrightarrow> 0 < tp_notifies p)"

definition waits_ok :: "'t pool \<Rightarrow> bool" where
  "waits_ok p = (tp_running p \<longrightarrow>
     (\<forall>i < length (tp_workers p). pc_tasks (tp_tasks p) (tp_workers p ! i)) \<and> wakeful p)"

lemma pc_tasks_free: "\<not> holds_tasks pc \<Longrightarrow> pc_tasks ts pc"
  by (cases pc) auto

lemma wakeful_awake: "i < length (tp_workers p) \<Longrightarrow> tp_workers p ! i \<noteq> WWaiting \<Longrightarrow> wakeful p"
  by (auto simp: wakeful_def)

text \<open>Only the holder of the mutex changes the queue, so the others know nothing that could become wrong.\<close>

lemma others_free:
  assumes "lock_ok p" and "holds_tasks (tp_workers p ! i)" and "i < length (tp_workers p)"
    and "j < length (tp_workers p)" and "j \<noteq> i"
  shows "pc_tasks ts (tp_workers p ! j)"
  using assms by (cases "tp_tasksMutex p") (auto simp: lock_ok_def tasks_lock.simps intro: pc_tasks_free)

lemma all_free:
  "lock_ok p \<Longrightarrow> tp_tasksMutex p = None \<Longrightarrow> j < length (tp_workers p) \<Longrightarrow> pc_tasks ts (tp_workers p ! j)"
  by (auto simp: lock_ok_def tasks_lock.simps intro: pc_tasks_free)

lemma waits_ok_change:
  assumes "waits_ok p" and "tp_running p' \<longrightarrow> tp_running p" and "tp_tasks p' = tp_tasks p"
    and "tp_workers p' = tp_workers p" and "tp_notifies p' = tp_notifies p"
  shows "waits_ok p'"
  using assms by (auto simp: waits_ok_def wakeful_def)

text \<open>A worker moves to a program point at which what it knows holds.\<close>

lemma waits_ok_move:
  assumes "waits_ok p" and "i < length (tp_workers p)" and "tp_running p' = tp_running p"
    and "tp_tasks p' = tp_tasks p" and "tp_workers p' = (tp_workers p)[i := pc]"
    and "tp_running p \<Longrightarrow> pc_tasks (tp_tasks p) pc" and "tp_running p \<Longrightarrow> pc = WWaiting \<Longrightarrow> tp_tasks p = []"
  shows "waits_ok p'"
proof (cases "tp_running p")
  case True
  have "wakeful p'"
  proof (cases "pc = WWaiting")
    case True
    then show ?thesis using assms(4,7) \<open>tp_running p\<close> by (simp add: wakeful_def)
  next
    case False
    then show ?thesis using assms(2,5) wakeful_awake [of i p'] by simp
  qed
  then show ?thesis using assms True by (auto simp: waits_ok_def nth_list_update)
qed (use assms in \<open>simp add: waits_ok_def\<close>)

lemma waits_ok_worker:
  assumes "waits_ok p" and "lock_ok p" and "workerLoop i p = Some (ev, p')"
  shows "waits_ok p'"
proof (cases "tp_workers p ! i = WTake \<and> tp_tasks p \<noteq> []")
  case True
  then have "i < length (tp_workers p)" using assms(3) by (auto simp: workerLoop_def split: if_splits)
  then have "wakeful p'" "\<forall>j < length (tp_workers p'). pc_tasks (tp_tasks p') (tp_workers p' ! j)"
    using True assms(3) others_free [OF assms(2), of i] wakeful_awake [of i p']
    by (auto simp: workerLoop_def pool_frame nth_list_update split: list.splits)
  then show ?thesis by (simp add: waits_ok_def)
next
  case False
  have i: "i < length (tp_workers p)" using assms(3) by (auto simp: workerLoop_def split: if_splits)
  show ?thesis
    using False assms(1,3) i
    by (intro waits_ok_move [OF assms(1) i, where pc = "tp_workers p' ! i"])
      (auto simp: workerLoop_def pool_frame pushFinished_def waits_ok_def
        split: worker_pc.splits if_splits list.splits)
qed

lemma waits_ok_supervisor:
  "waits_ok p \<Longrightarrow> pool_ok p \<Longrightarrow> supervisorLoop p = Some p' \<Longrightarrow> waits_ok p'"
  by (rule waits_ok_change [of p])
    (auto simp: supervisorLoop_def pool_frame pool_ok_def split: supervisor_pc.splits if_splits list.splits)

lemma waits_ok_main:
  assumes "waits_ok p" and "pool_ok p" and "stop_and_start p = Some p'"
  shows "waits_ok p'"
proof (cases "tp_main p")
  case (MSpawn n)
  then show ?thesis
    using assms(1,3)
    by (auto simp: stop_and_start_def waits_ok_def wakeful_def pool_frame nth_append less_Suc_eq split: if_splits)
next
  case (MNotifyTasks k)
  then show ?thesis
    using assms(2,3) by (auto simp: stop_and_start_def waits_ok_def pool_ok_def set_main_def)
qed (use assms in \<open>auto simp: stop_and_start_def waits_ok_def wakeful_def pool_frame split: if_splits\<close>)

lemma waits_ok_enqueue:
  assumes "waits_ok p" and "lock_ok p" and "submit_enqueue k p = Some (ev, p')"
  shows "waits_ok p'"
  using assms all_free [OF assms(2)]
  by (auto simp: submit_enqueue_def waits_ok_def wakeful_def Let_def split: if_splits)

lemma waits_ok_notify:
  assumes "waits_ok p" and "submit_notify i p = Some p'"
  shows "waits_ok p'"
proof (cases "\<forall>pc\<in>set (tp_workers p). pc \<noteq> WWaiting")
  case True
  then show ?thesis
    using assms by (cases "tp_workers p") (auto simp: submit_notify_def waits_ok_def wakeful_def split: if_splits)
next
  case False
  then show ?thesis
    using assms by (intro waits_ok_move [of p i p' WWoken]) (auto simp: submit_notify_def pool_frame split: if_splits)
qed

lemma waits_ok_step:
  assumes "waits_ok p" and "pool_ok p" and "lock_ok p" and "pool_step a p = Some (ev, p')"
  shows "waits_ok p'"
proof (cases a)
  case (Spurious i)
  then show ?thesis
    using assms by (intro waits_ok_move [of p i p' WWoken]) (auto simp: pool_frame split: if_splits)
next
  case (CallSubmit t)
  then show ?thesis
    using assms by (intro waits_ok_change [OF assms(1)]) (auto simp: submit_def split: option.splits if_splits)
next
  case (CallStart n)
  then show ?thesis
    using assms(4) by (intro waits_ok_change [OF assms(1)]) (auto simp: pool_start_def pool_frame split: if_splits)
next
  case CallStop
  then show ?thesis
    using assms(4) by (intro waits_ok_change [OF assms(1)]) (auto simp: pool_stop_def pool_frame split: if_splits)
next
  case SpuriousSupervisor
  then show ?thesis
    using assms(4) by (intro waits_ok_change [OF assms(1)]) (auto simp: pool_frame split: if_splits)
next
  case (Worker i)
  then show ?thesis using assms waits_ok_worker by auto
next
  case Supervisor
  then show ?thesis using assms waits_ok_supervisor by auto
next
  case Main
  then show ?thesis using assms waits_ok_main by auto
next
  case (Enqueue k)
  then show ?thesis using assms waits_ok_enqueue by auto
next
  case (NotifyOne i)
  then show ?thesis using assms waits_ok_notify by auto
qed

text \<open>The three invariants together.\<close>

definition pool_inv :: "'t pool \<Rightarrow> bool" where
  "pool_inv p = (pool_ok p \<and> lock_ok p \<and> waits_ok p)"

lemma pool_inv_ctor: "pool_inv (new_pool m)"
  using pool_ok_ctor [of m] lock_ok_ctor [of m] by (simp add: pool_inv_def waits_ok_def new_pool_defs)

lemma pool_inv_step: "pool_inv p \<Longrightarrow> pool_step a p = Some (ev, p') \<Longrightarrow> pool_inv p'"
  by (auto simp: pool_inv_def intro: pool_ok_step lock_ok_step waits_ok_step)

lemma pool_inv_run: "pool_inv p \<Longrightarrow> pool_run p as = Some (evs, p') \<Longrightarrow> pool_inv p'"
proof (induction as arbitrary: p evs)
  case Nil
  then show ?case by simp
next
  case (Cons a as)
  from Cons.prems(2) show ?case
    by (rule pool_run_step) (use Cons.IH pool_inv_step [OF Cons.prems(1)] in blast)
qed


section \<open>A running pool has workers\<close>

fun start_size :: "main_pc \<Rightarrow> nat option" where
  "start_size (MStop k) = k"
| "start_size (MStore k) = k"
| "start_size (MNotifyTasks k) = k"
| "start_size (MNotifyFinished k) = k"
| "start_size (MJoinWorker i k) = k"
| "start_size (MJoinSupervisor k) = k"
| "start_size (MInit n) = Some n"
| "start_size (MSpawn n) = Some n"
| "start_size _ = None"

definition staffed :: "'t pool \<Rightarrow> bool" where
  "staffed p = (start_size (tp_main p) \<noteq> Some 0
     \<and> (tp_running p \<longrightarrow> tp_workers p \<noteq> [] \<or> (\<exists>n. tp_main p = MSpawn n)))"

lemma staffed_change:
  "staffed p \<Longrightarrow> tp_running p' = tp_running p \<Longrightarrow> tp_main p' = tp_main p \<Longrightarrow>
   length (tp_workers p') = length (tp_workers p) \<Longrightarrow> staffed p'"
  by (cases "tp_workers p") (auto simp: staffed_def)

lemma staffed_main:
  assumes "staffed p" and "pool_ok p" and "stop_and_start p = Some p'"
  shows "staffed p'"
  using assms
  by (cases "tp_main p")
    (auto simp: stop_and_start_def staffed_def pool_ok_def pool_frame after_stop_def split: if_splits option.splits)

lemma staffed_step:
  assumes "staffed p" and "pool_ok p" and "pool_step a p = Some (ev, p')"
  shows "staffed p'"
proof (cases a)
  case Main
  then show ?thesis using assms staffed_main by auto
next
  case (CallStart n)
  then show ?thesis using assms by (auto simp: pool_start_def staffed_def pool_frame split: if_splits)
next
  case CallStop
  then show ?thesis using assms by (auto simp: pool_stop_def staffed_def pool_frame split: if_splits)
next
  case (Worker i)
  then show ?thesis using assms(3)
    by (intro staffed_change [OF assms(1)])
      (auto simp: workerLoop_def pool_frame pushFinished_def split: worker_pc.splits if_splits list.splits)
next
  case Supervisor
  then show ?thesis using assms(3)
    by (intro staffed_change [OF assms(1)])
      (auto simp: supervisorLoop_def pool_frame split: supervisor_pc.splits if_splits list.splits)
next
  case (CallSubmit t)
  then show ?thesis using assms(3)
    by (intro staffed_change [OF assms(1)]) (auto simp: submit_def split: option.splits if_splits)
next
  case (Enqueue k)
  then show ?thesis using assms(3)
    by (intro staffed_change [OF assms(1)]) (auto simp: submit_enqueue_def Let_def split: if_splits)
qed (use assms(3) in \<open>auto simp: submit_notify_def pool_frame split: if_splits intro!: staffed_change [OF assms(1)]\<close>)

lemma staffed_run: "staffed p \<Longrightarrow> pool_ok p \<Longrightarrow> pool_run p as = Some (evs, p') \<Longrightarrow> staffed p'"
proof (induction as arbitrary: p evs)
  case Nil
  then show ?case by simp
next
  case (Cons a as)
  from Cons.prems(3) show ?case
    by (rule pool_run_step)
      (use Cons.IH staffed_step [OF Cons.prems(1,2)] pool_ok_step [OF Cons.prems(2)] in blast)
qed

lemma staffed_ctor: "staffed (new_pool m)"
  by (simp add: staffed_def new_pool_defs)

section \<open>The queue drains\<close>

text \<open>
  The steps by which a running pool works off what has been submitted: those of the workers, and the rest
  of the calls of \<open>submit\<close> that are past their test of \<open>m_running\<close>.  Each brings it closer to the end.
\<close>

fun serving_actor :: "'t actor \<Rightarrow> bool" where
  "serving_actor (Worker i) = True"
| "serving_actor (Enqueue k) = True"
| "serving_actor (NotifyOne i) = True"
| "serving_actor _ = False"

fun serve_left :: "'t worker_pc \<Rightarrow> nat" where
  "serve_left (WRun t) = 6"
| "serve_left WHead = 5"
| "serve_left WLock = 4"
| "serve_left WWoken = 4"
| "serve_left WTest = 3"
| "serve_left WCheck = 2"
| "serve_left WTake = 1"
| "serve_left WWait = 1"
| "serve_left _ = 0"

definition drain_left :: "'t pool \<Rightarrow> nat" where
  "drain_left p = 12 * length (tp_submitting p) + 6 * length (tp_tasks p) + 5 * tp_notifies p
     + sum_list (map serve_left (tp_workers p))"

definition serving :: "'t pool \<Rightarrow> bool" where
  "serving p = (tp_running p \<and> tp_main p = MIdle \<and> tp_workers p \<noteq> [])"

lemma drain_worker:
  assumes "serving p" and "pool_inv p" and "workerLoop i p = Some (ev, p')"
  shows "serving p' \<and> drain_left p' < drain_left p"
proof -
  have i: "i < length (tp_workers p)" using assms(3) by (auto simp: workerLoop_def split: if_splits)
  have "\<not> exited (tp_workers p ! i)" "pc_tasks (tp_tasks p) (tp_workers p ! i)"
    using assms(1,2) i by (auto simp: pool_inv_def serving_def pool_ok_def live_ok_def waits_ok_def)
  moreover obtain r where "sum_list (map serve_left (tp_workers p)) = r + serve_left (tp_workers p ! i)"
    "\<And>pc. sum_list (map serve_left ((tp_workers p)[i := pc])) = r + serve_left pc"
    using sum_list_update_split [OF i] by metis
  ultimately show ?thesis
    using assms(1,3) i
    by (auto simp: serving_def workerLoop_def pool_frame drain_left_def exited_def
        split: worker_pc.splits if_splits list.splits)
qed

lemma drain_enqueue:
  assumes "serving p" and "submit_enqueue k p = Some (ev, p')"
  shows "serving p' \<and> drain_left p' < drain_left p"
  using assms by (auto simp: serving_def submit_enqueue_def drain_left_def Let_def split: if_splits)

lemma drain_notify:
  assumes "serving p" and "submit_notify i p = Some p'"
  shows "serving p' \<and> drain_left p' < drain_left p"
proof (cases "\<forall>pc\<in>set (tp_workers p). pc \<noteq> WWaiting")
  case True
  then show ?thesis using assms by (auto simp: serving_def submit_notify_def drain_left_def split: if_splits)
next
  case False
  then have i: "i < length (tp_workers p)" "tp_workers p ! i = WWaiting"
    using assms(2) by (auto simp: submit_notify_def split: if_splits)
  obtain r where "sum_list (map serve_left (tp_workers p)) = r + serve_left (tp_workers p ! i)"
    "\<And>pc. sum_list (map serve_left ((tp_workers p)[i := pc])) = r + serve_left pc"
    using sum_list_update_split [OF i(1)] by metis
  then show ?thesis
    using assms i by (auto simp: serving_def submit_notify_def drain_left_def pool_frame split: if_splits)
qed

lemma drain_step:
  "serving p \<Longrightarrow> pool_inv p \<Longrightarrow> serving_actor a \<Longrightarrow> pool_step a p = Some (ev, p') \<Longrightarrow>
   serving p' \<and> drain_left p' < drain_left p"
  by (cases a) (auto dest: drain_worker drain_enqueue drain_notify)

lemma drain_run:
  "serving p \<Longrightarrow> pool_inv p \<Longrightarrow> \<forall>a\<in>set as. serving_actor a \<Longrightarrow> pool_run p as = Some (evs, p') \<Longrightarrow>
   serving p' \<and> length as + drain_left p' \<le> drain_left p"
proof (induction as arbitrary: p evs)
  case Nil
  then show ?case by simp
next
  case (Cons a as)
  obtain ev p1 evs1 where st: "pool_step a p = Some (ev, p1)"
    and run: "pool_run p1 as = Some (evs1, p')"
    using Cons.prems(4) by (rule pool_run_step)
  have "serving p1 \<and> drain_left p1 < drain_left p"
    using drain_step [OF Cons.prems(1,2) _ st] Cons.prems(3) by simp
  then show ?case
    using Cons.IH [OF _ pool_inv_step [OF Cons.prems(2) st] _ run] Cons.prems(3) by auto
qed

text \<open>When none of these steps is possible, there is nothing left to do.\<close>

lemma serving_stuck_workers:
  assumes "serving p" and "pool_inv p" and "\<And>i. workerLoop i p = None"
  shows "tp_tasksMutex p = None \<and> (\<forall>pc\<in>set (tp_workers p). pc = WWaiting)"
proof -
  have live: "\<not> exited (tp_workers p ! i)" if "i < length (tp_workers p)" for i
    using assms(1,2) that by (auto simp: pool_inv_def serving_def pool_ok_def live_ok_def)
  have free: "tp_tasksMutex p = None"
  proof (rule ccontr)
    assume "tp_tasksMutex p \<noteq> None"
    then obtain j where "j < length (tp_workers p)" "holds_tasks (tp_workers p ! j)"
      using assms(2) by (auto simp: pool_inv_def lock_ok_def tasks_lock.simps)
    then show False
      using assms(3) [of j] by (auto simp: workerLoop_def split: worker_pc.splits list.splits if_splits)
  qed
  have "tp_workers p ! i = WWaiting" if "i < length (tp_workers p)" for i
    using live [OF that] assms(3) [of i] free that
    by (auto simp: workerLoop_def exited_def split: worker_pc.splits list.splits if_splits)
  then show ?thesis using free by (auto simp: in_set_conv_nth)
qed

lemma serving_stuck:
  assumes "serving p" and "pool_inv p" and stuck: "\<And>a. serving_actor a \<Longrightarrow> pool_step a p = None"
  shows "tp_tasks p = [] \<and> tp_submitting p = [] \<and> (\<forall>pc\<in>set (tp_workers p). pc = WWaiting)"
proof -
  have w: "tp_tasksMutex p = None" "\<forall>pc\<in>set (tp_workers p). pc = WWaiting"
    using serving_stuck_workers [OF assms(1,2)] stuck [of "Worker i" for i] by auto
  have "tp_submitting p = []"
    using stuck [of "Enqueue 0"] w(1) by (auto simp: submit_enqueue_def Let_def split: if_splits)
  moreover have "tp_notifies p = 0"
    using stuck [of "NotifyOne 0"] w(2) assms(1)
    by (cases "tp_workers p") (auto simp: submit_notify_def serving_def split: if_splits)
  moreover have "tp_tasks p = []"
    using calculation(2) assms(1,2) w(2) by (auto simp: pool_inv_def waits_ok_def wakeful_def serving_def)
  ultimately show ?thesis using w(2) by simp
qed

section \<open>A second start\<close>

text \<open>
  The supervisor of a pool that has been stopped and started again: it blocks in the \<open>join\<close> of a worker
  that is alive, and stays there for as long as nobody calls \<open>stop\<close> or \<open>start\<close>.
\<close>

definition supervisor_stuck :: "nat \<Rightarrow> 't pool \<Rightarrow> bool" where
  "supervisor_stuck i p = (serving p \<and> pool_ok p \<and> i < length (tp_workers p) \<and> tp_supervisor p = SJoin i)"

fun calls_start_or_stop :: "'t actor \<Rightarrow> bool" where
  "calls_start_or_stop (CallStart n) = True"
| "calls_start_or_stop CallStop = True"
| "calls_start_or_stop _ = False"

lemma supervisor_stuck_blocked: "supervisor_stuck i p \<Longrightarrow> supervisorLoop p = None"
  by (auto simp: supervisor_stuck_def serving_def pool_ok_def live_ok_def exited_def supervisorLoop_def)

lemma supervisor_stuck_live:
  "supervisor_stuck i p \<Longrightarrow> tp_running p \<and> tp_supervisor p = SJoin i \<and> supervisorLoop p = None
     \<and> tp_joinable p ! i \<and> tp_workers p ! i \<noteq> WDone"
  using supervisor_stuck_blocked [of i p]
  by (auto simp: supervisor_stuck_def serving_def pool_ok_def live_ok_def exited_def)

lemma supervisor_stuck_step:
  assumes "supervisor_stuck i p" and "pool_step a p = Some (ev, p')" and "\<not> calls_start_or_stop a"
  shows "supervisor_stuck i p'"
proof -
  have ok: "pool_ok p'" using assms pool_ok_step by (auto simp: supervisor_stuck_def)
  have "serving p' \<and> i < length (tp_workers p') \<and> tp_supervisor p' = SJoin i"
  proof (cases a)
    case Supervisor
    then show ?thesis using assms(2) supervisor_stuck_blocked [OF assms(1)] by simp
  next
    case (Worker j)
    then show ?thesis using assms(1,2)
      by (auto simp: supervisor_stuck_def serving_def workerLoop_def pool_frame pushFinished_def
          split: worker_pc.splits if_splits list.splits)
  qed (use assms in \<open>auto simp: supervisor_stuck_def serving_def stop_and_start_def submit_def submit_enqueue_def
    submit_notify_def pool_frame Let_def split: if_splits option.splits\<close>)
  then show ?thesis using ok by (simp add: supervisor_stuck_def)
qed

lemma supervisor_stuck_run:
  "supervisor_stuck i p \<Longrightarrow> \<forall>a\<in>set as. \<not> calls_start_or_stop a \<Longrightarrow> pool_run p as = Some (evs, p') \<Longrightarrow>
   supervisor_stuck i p'"
proof (induction as arbitrary: p evs)
  case Nil
  then show ?case by simp
next
  case (Cons a as)
  obtain ev p1 evs1 where st: "pool_step a p = Some (ev, p1)" and run: "pool_run p1 as = Some (evs1, p')"
    using Cons.prems(3) by (rule pool_run_step)
  have "supervisor_stuck i p1" using supervisor_stuck_step [OF Cons.prems(1) st] Cons.prems(2) by simp
  then show ?case using Cons.IH [OF _ _ run] Cons.prems(2) by simp
qed

section \<open>The ids that are left over\<close>

text \<open>
  Every worker pushes its id when it leaves, and nothing clears the list.  So once a pool has been started and
  stopped, the id 0 is in it: only the supervisor of a running pool takes ids out, holding the mutex that
  the leaving worker needs.
\<close>

definition left_over :: "'t pool \<Rightarrow> bool" where
  "left_over p = ((tp_workers p \<noteq> [] \<and> tp_workers p ! 0 = WDone \<longrightarrow> 0 \<in> set (tp_finishedIds p))
     \<and> (tp_supervisor p = STakeId \<longrightarrow> tp_workers p = [] \<or> tp_workers p ! 0 \<noteq> WDone))"

lemma pool_run_keeps:
  assumes "\<And>a q ev q'. I q \<Longrightarrow> pool_step a q = Some (ev, q') \<Longrightarrow> I q'" and "I p" and "pool_run p as = Some (evs, p')"
  shows "I p'"
  using assms(2,3)
proof (induction as arbitrary: p evs)
  case Nil
  then show ?case by simp
next
  case (Cons a as)
  from Cons.prems(2) show ?case by (rule pool_run_step) (use Cons.IH assms(1) [OF Cons.prems(1)] in blast)
qed

lemma left_over_change:
  assumes "left_over p" and "tp_supervisor p' = STakeId \<Longrightarrow> tp_supervisor p = STakeId" and "set (tp_finishedIds p) \<subseteq> set (tp_finishedIds p')"
    and "length (tp_workers p') = length (tp_workers p)"
    and "tp_workers p \<noteq> [] \<Longrightarrow> tp_workers p' ! 0 = WDone \<Longrightarrow> tp_workers p ! 0 = WDone"
  shows "left_over p'"
proof -
  have "tp_workers p' = [] \<longleftrightarrow> tp_workers p = []" using assms(4) by (metis length_0_conv)
  then show ?thesis using assms by (auto simp: left_over_def)
qed

lemma left_over_worker:
  assumes "left_over p" and "lock_ok p" and "workerLoop i p = Some (ev, p')"
  shows "left_over p'"
proof (cases "tp_workers p ! i = WExit \<and> i = 0")
  case True
  then show ?thesis using assms
    by (auto simp: workerLoop_def left_over_def lock_ok_def pushFinished_def pool_frame split: if_splits)
next
  case False
  then show ?thesis using assms(3)
    by (intro left_over_change [OF assms(1)])
      (auto simp: workerLoop_def pushFinished_def pool_frame nth_list_update
        split: worker_pc.splits if_splits list.splits)
qed

lemma left_over_supervisor:
  assumes "left_over p" and "pool_ok p" and "supervisorLoop p = Some p'"
  shows "left_over p'"
  using assms
  by (cases "tp_supervisor p")
    (auto simp: supervisorLoop_def left_over_def pool_ok_def live_ok_def exited_def pool_frame
      split: if_splits list.splits)

lemma left_over_main:
  assumes "left_over p" and "pool_ok p" and "stop_and_start p = Some p'"
  shows "left_over p'"
  using assms
  by (cases "tp_main p"; cases "tp_workers p")
    (auto simp: stop_and_start_def left_over_def pool_ok_def all_done_def pool_frame wake_worker_def
      split: if_splits worker_pc.splits)

lemma left_over_step:
  assumes "left_over p" and "pool_ok p" and "lock_ok p" and "pool_step a p = Some (ev, p')"
  shows "left_over p'"
proof (cases a)
  case (Worker i)
  then show ?thesis using assms left_over_worker by auto
next
  case Supervisor
  then show ?thesis using assms left_over_supervisor by auto
next
  case Main
  then show ?thesis using assms left_over_main by auto
qed (use assms(4) in \<open>auto simp: pool_start_def pool_stop_def submit_def submit_enqueue_def submit_notify_def pool_frame
  Let_def nth_list_update split: if_splits option.splits intro!: left_over_change [OF assms(1)]\<close>)

text \<open>A pool that is being started again, and what becomes of it.\<close>

definition pool_sound :: "'t pool \<Rightarrow> bool" where
  "pool_sound p = (pool_ok p \<and> lock_ok p \<and> staffed p \<and> left_over p)"

lemma pool_sound_ctor: "pool_sound (new_pool m)"
  using pool_ok_ctor lock_ok_ctor staffed_ctor
  by (auto simp: pool_sound_def left_over_def new_pool_defs)

lemma pool_sound_step: "pool_sound p \<Longrightarrow> pool_step a p = Some (ev, p') \<Longrightarrow> pool_sound p'"
  unfolding pool_sound_def using pool_ok_step lock_ok_step staffed_step left_over_step by blast

definition restarting :: "'t pool \<Rightarrow> bool" where
  "restarting p = (0 \<in> set (tp_finishedIds p) \<and> tp_supervisor p = SDone
     \<and> ((\<exists>n. tp_main p = MStop (Some n)) \<and> \<not> tp_running p
        \<or> (\<exists>n. tp_main p = MInit n \<or> tp_main p = MSpawn n) \<or> tp_main p = MSpawnSupervisor))"

definition hanging :: "'t pool \<Rightarrow> bool" where
  "hanging p = (serving p
     \<and> (tp_supervisor p \<in> {SHead, SLock, STest, SCheck, STakeId} \<and> 0 \<in> set (tp_finishedIds p)
        \<or> (\<exists>i. tp_supervisor p = SJoin i \<and> (i < length (tp_workers p) \<or> 0 \<in> set (tp_finishedIds p)))))"

fun supervisor_rank :: "supervisor_pc \<Rightarrow> nat" where
  "supervisor_rank (SJoin i) = 6"
| "supervisor_rank SHead = 5"
| "supervisor_rank SLock = 4"
| "supervisor_rank STest = 3"
| "supervisor_rank SCheck = 2"
| "supervisor_rank STakeId = 1"
| "supervisor_rank pc = 5"

definition ids_left :: "'t pool \<Rightarrow> nat" where
  "ids_left p = 6 * length (tp_finishedIds p) + supervisor_rank (tp_supervisor p)"

text \<open>The other threads do not take part in it.\<close>

definition same_ids :: "'t pool \<Rightarrow> 't pool \<Rightarrow> bool" where
  "same_ids p p' = (tp_finishedIds p' = tp_finishedIds p \<and> tp_supervisor p' = tp_supervisor p \<and> tp_main p' = tp_main p
     \<and> tp_running p' = tp_running p \<and> length (tp_workers p') = length (tp_workers p))"

lemma same_ids_keeps:
  "same_ids p p' \<Longrightarrow> (restarting p' \<longleftrightarrow> restarting p) \<and> (hanging p' \<longleftrightarrow> hanging p) \<and> ids_left p' = ids_left p"
  by (cases "tp_workers p"; cases "tp_workers p'")
    (auto simp: same_ids_def restarting_def hanging_def serving_def ids_left_def)

lemma same_ids_worker:
  assumes "pool_ok p" and "restarting p \<or> hanging p" and "workerLoop i p = Some (ev, p')"
  shows "same_ids p p'"
proof -
  have i: "i < length (tp_workers p)" using assms(3) by (auto simp: workerLoop_def split: if_splits)
  have "\<not> exited (tp_workers p ! i) \<or> tp_workers p ! i = WDone"
    using assms(1,2) i by (auto simp: pool_ok_defs restarting_def hanging_def serving_def)
  then show ?thesis using assms(3)
    by (auto simp: workerLoop_def same_ids_def exited_def pool_frame split: worker_pc.splits if_splits list.splits)
qed

lemma restart_supervisor:
  assumes "pool_sound p" and "restarting p \<or> hanging p" and "supervisorLoop p = Some p'"
  shows "hanging p' \<and> ids_left p' < ids_left p"
proof -
  have live: "tp_running p \<Longrightarrow> i < length (tp_workers p) \<Longrightarrow> tp_joinable p ! i \<and> tp_workers p ! i \<noteq> WDone" for i
    using assms(1) by (auto simp: pool_sound_def pool_ok_def live_ok_def exited_def)
  show ?thesis
    using assms(2,3) live
    by (cases "tp_supervisor p")
      (auto simp: restarting_def hanging_def serving_def ids_left_def supervisorLoop_def pool_frame
        split: if_splits list.splits)
qed

lemma restart_main:
  assumes "pool_sound p" and "restarting p \<or> hanging p" and "stop_and_start p = Some p'"
  shows "(restarting p' \<or> hanging p') \<and> ids_left p' = ids_left p"
proof -
  have "tp_main p = MSpawnSupervisor \<Longrightarrow> tp_running p" using assms(1) by (auto simp: pool_sound_def pool_ok_def)
  with assms show ?thesis
    by (cases "tp_main p")
      (auto simp: restarting_def hanging_def serving_def ids_left_def stop_and_start_def after_stop_def pool_frame
        pool_sound_def staffed_def split: if_splits)
qed

lemma restart_step:
  assumes "pool_sound p" and "restarting p \<or> hanging p" and "pool_step a p = Some (ev, p')"
    and "\<not> calls_start_or_stop a"
  shows "(restarting p' \<or> hanging p') \<and> ids_left p' + (if a = Supervisor then 1 else 0) \<le> ids_left p"
proof (cases a)
  case Supervisor
  then show ?thesis using assms(3) restart_supervisor [OF assms(1,2)] by fastforce
next
  case Main
  then show ?thesis using assms(3) restart_main [OF assms(1,2)] by fastforce
next
  case (Worker i)
  then show ?thesis
    using assms(3) same_ids_keeps [OF same_ids_worker [OF _ assms(2)]] assms(1,2) by (auto simp: pool_sound_def)
next
  case SpuriousSupervisor
  then show ?thesis using assms(2,3) by (auto simp: restarting_def hanging_def split: if_splits)
qed (use assms(2-4) same_ids_keeps [of p p'] in \<open>auto simp: same_ids_def submit_def submit_enqueue_def submit_notify_def
  pool_frame Let_def split: if_splits option.splits\<close>)

lemma restart_run:
  "pool_sound p \<Longrightarrow> restarting p \<or> hanging p \<Longrightarrow> \<forall>b\<in>set bs. \<not> calls_start_or_stop b \<Longrightarrow> pool_run p bs = Some (evs, p') \<Longrightarrow>
   pool_sound p' \<and> (restarting p' \<or> hanging p') \<and> ids_left p' + length (filter ((=) Supervisor) bs) \<le> ids_left p"
proof (induction bs arbitrary: p evs)
  case Nil
  then show ?case by simp
next
  case (Cons a bs)
  obtain ev p1 evs1 where st: "pool_step a p = Some (ev, p1)" and run: "pool_run p1 bs = Some (evs1, p')"
    using Cons.prems(4) by (rule pool_run_step)
  show ?case
    using Cons.IH [OF pool_sound_step [OF Cons.prems(1) st] _ _ run] restart_step [OF Cons.prems(1,2) st] Cons.prems(3)
    by (auto split: if_splits)
qed

text \<open>Where the supervisor can make no step, it is in the \<open>join\<close> of a worker that is alive.\<close>

lemma hanging_blocked:
  assumes "pool_sound p" and "hanging p" and "supervisorLoop p = None"
  shows "\<exists>i. supervisor_stuck i p"
proof -
  have "tp_finishedMutex p \<longleftrightarrow> holds_finished (tp_supervisor p)" using assms(1) by (simp add: pool_sound_def lock_ok_def)
  then have "\<exists>i<length (tp_workers p). tp_supervisor p = SJoin i"
    using assms(2,3) by (auto simp: hanging_def supervisorLoop_def split: if_splits list.splits)
  then show ?thesis using assms(1,2) by (auto simp: supervisor_stuck_def pool_sound_def hanging_def)
qed

section \<open>Properties\<close>

text \<open>
  C5: A running pool works off its queue.  From any state in which \<open>start\<close> has returned, the workers and
  the calls of \<open>submit\<close> that are under way can make only boundedly many steps, and when none of them can
  make another one, every task ever accepted has been taken: no notification of \<open>submit\<close> is lost, though it
  is sent without the mutex.
\<close>

theorem ThreadPool_drains:
  assumes "pool_run (new_pool m) as = Some (evs, p)" and "tp_running p" and "tp_main p = MIdle"
    and "\<forall>a\<in>set bs. serving_actor a" and "pool_run p bs = Some (evs', p')"
  shows "length bs \<le> drain_left p
    \<and> ((\<forall>a. serving_actor a \<longrightarrow> pool_step a p' = None) \<longrightarrow>
        tp_tasks p' = [] \<and> tp_submitting p' = [] \<and> taken (evs @ evs') = accepted (evs @ evs'))"
proof -
  have inv: "pool_inv p" using pool_inv_run [OF pool_inv_ctor assms(1)] .
  have "staffed p" using staffed_run [OF staffed_ctor pool_ok_ctor assms(1)] .
  then have "serving p" using assms(2,3) by (simp add: serving_def staffed_def)
  then have "serving p'" "length bs \<le> drain_left p"
    using drain_run [OF _ inv assms(4,5)] by auto
  moreover have "pool_inv p'" using pool_inv_run [OF inv assms(5)] .
  moreover have "accepted (evs @ evs') = taken (evs @ evs') @ tp_tasks p'"
    using pool_run_queue [OF pool_run_append [OF assms(1,5)]] by (simp add: new_pool_defs)
  ultimately show ?thesis using serving_stuck [of p'] by auto
qed

definition serve_one :: "nat actor list" where
  "serve_one = [Enqueue 0, Worker 0, Worker 0, Worker 0, Worker 0, Worker 0, Worker 0, Worker 0,
     Worker 0, Worker 0, Worker 0, NotifyOne 0, Worker 0, Worker 0, Worker 0]"

lemma ThreadPool_drains_witness:
  "\<exists>p p'. pool_run (new_pool 1) (start_one @ [CallSubmit (Some 7)]) = Some ([], p)
     \<and> pool_run p serve_one = Some ([Accepted 7, Taken 0 7], p') \<and> length serve_one \<le> drain_left p
     \<and> tp_tasks p' = []"
proof -
  obtain p p' where p: "pool_run one_worker [CallSubmit (Some 7)] = Some ([], p)" "tp_running p" "tp_main p = MIdle"
    "pool_run p serve_one = Some ([Accepted 7, Taken 0 7], p')" "tp_tasks p' = []"
    by (simp add: pool_eval serve_one_def)
  have run: "pool_run (new_pool 1) (start_one @ [CallSubmit (Some 7)]) = Some ([], p)"
    using pool_run_append [OF start_one_run p(1)] by simp
  have "\<forall>a\<in>set serve_one. serving_actor a" by (simp add: serve_one_def)
  from ThreadPool_drains [OF run p(2,3) this p(4)] show ?thesis using run p by blast
qed

text \<open>
  C17: \<open>stop\<close> leaves the ids that the workers push when they leave in \<open>m_finishedIds\<close>.  Whatever happened to a
  pool before, once it has been started, stopped, and is started again with any number of workers, the new
  supervisor takes such an id: it makes at most six steps for each id left and five more, and where it can make no
  other one, after \<open>start\<close> has returned, it is blocked in the \<open>join\<close> of a new worker, which is alive, and stays
  blocked in it whatever the pool does, until the next call of \<open>stop\<close> or \<open>start\<close>.
\<close>

theorem ThreadPool_second_start:
  assumes "pool_run (new_pool m) as = Some (evs, p)" and "tp_main p = MIdle" and "\<not> tp_running p"
    and "tp_workers p \<noteq> []" and "0 < k" and "\<forall>b\<in>set bs. \<not> calls_start_or_stop b"
    and "pool_run p (CallStart k # bs) = Some (evs', p')"
  shows "length (filter ((=) Supervisor) bs) \<le> 6 * length (tp_finishedIds p) + 5
    \<and> (tp_main p' = MIdle \<and> supervisorLoop p' = None \<longrightarrow>
        (\<exists>i. tp_supervisor p' = SJoin i \<and> i < length (tp_workers p')
          \<and> (\<forall>cs evs'' p''. (\<forall>b\<in>set cs. \<not> calls_start_or_stop b) \<and> pool_run p' cs = Some (evs'', p'') \<longrightarrow>
              tp_running p'' \<and> tp_supervisor p'' = SJoin i \<and> supervisorLoop p'' = None
              \<and> tp_joinable p'' ! i \<and> tp_workers p'' ! i \<noteq> WDone)))"
proof -
  have sound: "pool_sound p"
    by (rule pool_run_keeps [where I = pool_sound, OF _ pool_sound_ctor assms(1)]) (rule pool_sound_step)
  let ?p = "set_main (MStop (Some k)) p"
  have start: "pool_step (CallStart k) p = Some ([], ?p)" using assms(2,5) by (simp add: pool_start_def)
  then obtain evs1 where run: "pool_run ?p bs = Some (evs1, p')" using assms(7) by auto
  have "all_done p" using sound assms(2,3) by (auto simp: pool_sound_def pool_ok_def)
  then have "restarting ?p \<and> ids_left ?p = 6 * length (tp_finishedIds p) + 5"
    using sound assms(3,4) by (auto simp: restarting_def ids_left_def all_done_def pool_sound_def left_over_def pool_frame)
  then have p': "pool_sound p'" "restarting p' \<or> hanging p'"
      "ids_left p' + length (filter ((=) Supervisor) bs) \<le> 6 * length (tp_finishedIds p) + 5"
    using restart_run [OF pool_sound_step [OF sound start] _ assms(6) run] by auto
  have stuck: "\<exists>i. supervisor_stuck i p'" if "tp_main p' = MIdle" "supervisorLoop p' = None"
    using hanging_blocked [OF p'(1) _ that(2)] p'(2) that(1) by (auto simp: restarting_def)
  have forever: "\<forall>cs evs'' p''. (\<forall>b\<in>set cs. \<not> calls_start_or_stop b) \<and> pool_run p' cs = Some (evs'', p'') \<longrightarrow>
      tp_running p'' \<and> tp_supervisor p'' = SJoin i \<and> supervisorLoop p'' = None
      \<and> tp_joinable p'' ! i \<and> tp_workers p'' ! i \<noteq> WDone" if "supervisor_stuck i p'" for i
  proof (intro allI impI, elim conjE)
    fix cs evs'' p''
    assume "\<forall>b\<in>set cs. \<not> calls_start_or_stop b" "pool_run p' cs = Some (evs'', p'')"
    from supervisor_stuck_live [OF supervisor_stuck_run [OF that this]]
    show "tp_running p'' \<and> tp_supervisor p'' = SJoin i \<and> supervisorLoop p'' = None
      \<and> tp_joinable p'' ! i \<and> tp_workers p'' ! i \<noteq> WDone" .
  qed
  show ?thesis
  proof (intro conjI impI)
    show "length (filter ((=) Supervisor) bs) \<le> 6 * length (tp_finishedIds p) + 5" using p'(3) by simp
  next
    assume "tp_main p' = MIdle \<and> supervisorLoop p' = None"
    then obtain i where "supervisor_stuck i p'" using stuck by blast
    then show "\<exists>i. tp_supervisor p' = SJoin i \<and> i < length (tp_workers p')
        \<and> (\<forall>cs evs'' p''. (\<forall>b\<in>set cs. \<not> calls_start_or_stop b) \<and> pool_run p' cs = Some (evs'', p'') \<longrightarrow>
            tp_running p'' \<and> tp_supervisor p'' = SJoin i \<and> supervisorLoop p'' = None
            \<and> tp_joinable p'' ! i \<and> tp_workers p'' ! i \<noteq> WDone)"
      by (intro exI [of _ i] conjI forever) (simp_all add: supervisor_stuck_def)
  qed
qed

definition second_start :: "nat actor list" where
  "second_start = tl start_one @ [Supervisor, Supervisor, Supervisor, Supervisor, Supervisor]"

lemma ThreadPool_second_start_witness:
  "\<exists>p p'. pool_run (new_pool 1) (start_one @ stop_one) = Some ([], p)
     \<and> pool_run p (CallStart 1 # second_start) = Some ([], p') \<and> tp_supervisor p' = SJoin 0
     \<and> (\<forall>cs evs'' p''. (\<forall>b\<in>set cs. \<not> calls_start_or_stop b) \<and> pool_run p' cs = Some (evs'', p'') \<longrightarrow>
         tp_supervisor p'' = SJoin 0 \<and> supervisorLoop p'' = None)"
proof -
  obtain p p' where p: "pool_run one_worker stop_one = Some ([], p)" "tp_main p = MIdle" "\<not> tp_running p"
    "tp_workers p \<noteq> []" "pool_run p (CallStart 1 # second_start) = Some ([], p')" "tp_main p' = MIdle"
    "tp_supervisor p' = SJoin 0" "supervisorLoop p' = None"
    by (simp add: pool_eval second_start_def stop_one_def start_one_def)
  have run: "pool_run (new_pool 1) (start_one @ stop_one) = Some ([], p)"
    using pool_run_append [OF start_one_run p(1)] by simp
  have "\<forall>b\<in>set second_start. \<not> calls_start_or_stop b" by (simp add: second_start_def start_one_def)
  from ThreadPool_second_start [OF run p(2-4) _ this p(5)] show ?thesis
    using run p(5-8) by auto
qed

end
