(* ===== verification/Codec.thy ===== *)
theory Codec imports Prelude begin

unbundle bit_operations_syntax

text \<open>
  The two Base64 codecs that the framework writes out itself: \<open>PasswordUtil::base64Encode\<close> and
  \<open>base64Decode\<close> (src/PasswordUtil.cpp) and the URL-safe, unpadded variant of src/JwtUtil.cpp.  Both
  files contain the same loop over groups of three bytes and the same decoding table; the loops are
  one definition each here.  The contract that the users of a codec rely on is the locale
  \<open>byte_codec\<close>.
\<close>

section \<open>The loops\<close>

definition b64_table :: string where
  "b64_table = ''ABCDEFGHIJKLMNOPQRSTUVWXYZabcdefghijklmnopqrstuvwxyz0123456789+/''"

definition decode_table :: "nat list" where
  "decode_table =
    [255,255,255,255,255,255,255,255,255,255,255,255,255,255,255,255,
     255,255,255,255,255,255,255,255,255,255,255,255,255,255,255,255,
     255,255,255,255,255,255,255,255,255,255,255, 62,255,255,255, 63,
      52, 53, 54, 55, 56, 57, 58, 59, 60, 61,255,255,255,  0,255,255,
     255,  0,  1,  2,  3,  4,  5,  6,  7,  8,  9, 10, 11, 12, 13, 14,
      15, 16, 17, 18, 19, 20, 21, 22, 23, 24, 25,255,255,255,255,255,
     255, 26, 27, 28, 29, 30, 31, 32, 33, 34, 35, 36, 37, 38, 39, 40,
      41, 42, 43, 44, 45, 46, 47, 48, 49, 50, 51,255,255,255,255,255,
     255,255,255,255,255,255,255,255,255,255,255,255,255,255,255,255,
     255,255,255,255,255,255,255,255,255,255,255,255,255,255,255,255,
     255,255,255,255,255,255,255,255,255,255,255,255,255,255,255,255,
     255,255,255,255,255,255,255,255,255,255,255,255,255,255,255,255,
     255,255,255,255,255,255,255,255,255,255,255,255,255,255,255,255,
     255,255,255,255,255,255,255,255,255,255,255,255,255,255,255,255,
     255,255,255,255,255,255,255,255,255,255,255,255,255,255,255,255,
     255,255,255,255,255,255,255,255,255,255,255,255,255,255,255,255]"

text \<open>\<open>table[(n >> k) & 0x3F]\<close>\<close>

definition sextet :: "nat \<Rightarrow> nat \<Rightarrow> char" where
  "sextet k n = b64_table ! (drop_bit k n AND 0x3F)"

fun b64_encode :: "string \<Rightarrow> string" where
  "b64_encode [] = []"
| "b64_encode [x] =
     (let n = push_bit 16 (byte x) in [sextet 18 n, sextet 12 n, CHR ''='', CHR ''=''])"
| "b64_encode [x, y] =
     (let n = push_bit 16 (byte x) OR push_bit 8 (byte y)
      in [sextet 18 n, sextet 12 n, sextet 6 n, CHR ''=''])"
| "b64_encode (x # y # z # rest) =
     (let n = push_bit 16 (byte x) OR push_bit 8 (byte y) OR byte z
      in [sextet 18 n, sextet 12 n, sextet 6 n, sextet 0 n] @ b64_encode rest)"

fun b64_decode :: "string \<Rightarrow> string" where
  "b64_decode (p # q # r # s # rest) =
     (let a = decode_table ! byte p; b = decode_table ! byte q;
          c = decode_table ! byte r; d = decode_table ! byte s
      in if a = 255 \<or> b = 255 then []
         else [char_of (push_bit 2 a OR drop_bit 4 b)]
           @ (if r \<noteq> CHR ''='' \<and> c \<noteq> 255
              then [char_of (push_bit 4 (b AND 0x0F) OR drop_bit 2 c)]
                @ (if s \<noteq> CHR ''='' \<and> d \<noteq> 255
                   then [char_of (push_bit 6 (c AND 0x03) OR d)] else [])
              else [])
           @ b64_decode rest)"
| "b64_decode _ = []"

section \<open>The codecs\<close>

definition base64Encode :: "string \<Rightarrow> string" where
  "base64Encode data = b64_encode data"

definition base64Decode :: "string \<Rightarrow> string" where
  "base64Decode encoded = b64_decode encoded"

definition to_url :: "char \<Rightarrow> char" where
  "to_url c = (if c = CHR ''+'' then CHR ''-'' else if c = CHR ''/'' then CHR ''_'' else c)"

definition from_url :: "char \<Rightarrow> char" where
  "from_url c = (if c = CHR ''-'' then CHR ''+'' else if c = CHR ''_'' then CHR ''/'' else c)"

definition strip_pad :: "string \<Rightarrow> string" where
  "strip_pad s = rev (dropWhile (\<lambda>c. c = CHR ''='') (rev s))"

text \<open>\<open>while (data.size() % 4 != 0) data += '='\<close>\<close>

definition add_pad :: "string \<Rightarrow> string" where
  "add_pad s = s @ replicate ((4 - length s mod 4) mod 4) (CHR ''='')"

definition base64UrlEncode :: "string \<Rightarrow> string" where
  "base64UrlEncode data = strip_pad (map to_url (b64_encode data))"

definition base64UrlDecode :: "string \<Rightarrow> string" where
  "base64UrlDecode input = b64_decode (add_pad (map from_url input))"

section \<open>Arithmetic of the groups\<close>

lemma push_or_add:
  assumes "b < 2 ^ k"
  shows "push_bit k a OR b = 2 ^ k * a + (b::nat)"
proof -
  have "take_bit k b = b" using assms by (simp add: take_bit_nat_eq_self)
  then have "bit b n \<Longrightarrow> n < k" for n by (metis bit_take_bit_iff)
  then have "\<not> bit (push_bit k a) n \<or> \<not> bit b n" for n by (fastforce simp: bit_push_bit_iff)
  then have "push_bit k a AND b = 0" by (auto simp: bit_eq_iff bit_and_iff)
  then show ?thesis by (subst disjunctive_add_eq_or [symmetric]) (auto simp: push_bit_eq_mult)
qed

definition triple :: "nat \<Rightarrow> nat \<Rightarrow> nat \<Rightarrow> nat" where
  "triple x y z = 65536 * x + 256 * y + z"

lemma triple_or:
  "y < 256 \<Longrightarrow> z < 256 \<Longrightarrow> push_bit 16 x OR push_bit 8 y OR z = triple x y z"
  using push_or_add [of z 8 y] push_or_add [of "256 * y + z" 16 x]
  by (simp add: triple_def or.assoc)

lemma mod64_16: "q < 16 \<Longrightarrow> (16 * x + q) mod 64 = (x mod 4) * 16 + (q::nat)"
  using mod_mult2_eq [of "16 * x + q" 16 4] by simp

lemma mod64_4:
  assumes "q < 4"
  shows "(1024 * x + 4 * y + q) mod 64 = (y mod 16) * 4 + (q::nat)"
proof -
  have "(1024 * x + 4 * y + q) div 4 = 256 * x + y" using assms by simp
  moreover have "(256 * x + y) mod 16 = y mod 16" using mod_mult_self4 [of 16 "16 * x" y] by simp
  moreover have "(1024 * x + 4 * y + q) mod 4 = q"
    using assms mod_mult_self4 [of 4 "256 * x + y" q] by (simp add: algebra_simps)
  ultimately show ?thesis using mod_mult2_eq [of "1024 * x + 4 * y + q" 4 16] by simp
qed

lemma triple_sextets:
  assumes "x < 256" "y < 256" "z < 256"
  shows "triple x y z div 262144 mod 64 = x div 4"
    and "triple x y z div 4096 mod 64 = (x mod 4) * 16 + y div 16"
    and "triple x y z div 64 mod 64 = (y mod 16) * 4 + z div 64"
    and "triple x y z mod 64 = z mod 64"
proof -
  have d: "triple x y z div 65536 = x" "triple x y z div 256 = 256 * x + y"
    using assms by (simp_all add: triple_def)
  have "triple x y z div 262144 = x div 4" using div_mult2_eq [of "triple x y z" 65536 4] d by simp
  then show "triple x y z div 262144 mod 64 = x div 4" using assms by simp
  have "triple x y z div 4096 = (256 * x + y) div 16"
    using div_mult2_eq [of "triple x y z" 256 16] d by simp
  also have "\<dots> = 16 * x + y div 16" by presburger
  finally show "triple x y z div 4096 mod 64 = (x mod 4) * 16 + y div 16"
    using mod64_16 [of "y div 16" x] assms by simp
  have "triple x y z div 64 = 1024 * x + 4 * y + z div 64" unfolding triple_def by presburger
  then show "triple x y z div 64 mod 64 = (y mod 16) * 4 + z div 64"
    using mod64_4 [of "z div 64" x y] assms by simp
  show "triple x y z mod 64 = z mod 64"
    using mod_mult_self4 [of 64 "1024 * x + 4 * y" z] by (simp add: triple_def algebra_simps)
qed

lemma sextet_triple:
  assumes "x < 256" "y < 256" "z < 256"
  shows "sextet 18 (triple x y z) = b64_table ! (x div 4)"
    and "sextet 12 (triple x y z) = b64_table ! ((x mod 4) * 16 + y div 16)"
    and "sextet 6 (triple x y z) = b64_table ! ((y mod 16) * 4 + z div 64)"
    and "sextet 0 (triple x y z) = b64_table ! (z mod 64)"
proof -
  have m: "n AND 63 = n mod 64" for n :: nat
    using take_bit_eq_mask [of 6 n] by (simp add: mask_eq_exp_minus_1 take_bit_eq_mod)
  show "sextet 18 (triple x y z) = b64_table ! (x div 4)"
    "sextet 12 (triple x y z) = b64_table ! ((x mod 4) * 16 + y div 16)"
    "sextet 6 (triple x y z) = b64_table ! ((y mod 16) * 4 + z div 64)"
    "sextet 0 (triple x y z) = b64_table ! (z mod 64)"
    using triple_sextets [OF assms] by (simp_all add: sextet_def drop_bit_eq_div m)
qed

section \<open>The tables are inverse\<close>

lemma b64_table_length: "length b64_table = 64"
  by (simp add: b64_table_def)

lemma decode_table_inverse: "map (\<lambda>c. decode_table ! byte c) b64_table = [0..<64]"
  by (simp add: b64_table_def decode_table_def byte_def upt_rec)

lemma url_inverse: "map (\<lambda>c. from_url (to_url c)) b64_table = b64_table"
  by (simp add: b64_table_def to_url_def from_url_def)

lemma tables_inverse [simp]:
  assumes "v < 64"
  shows "decode_table ! byte (b64_table ! v) = v"
    and "b64_table ! v \<noteq> CHR ''=''"
    and "from_url (to_url (b64_table ! v)) = b64_table ! v"
proof -
  show "decode_table ! byte (b64_table ! v) = v"
    using arg_cong [OF decode_table_inverse, of "\<lambda>xs. xs ! v"] assms by (simp add: b64_table_length)
  have "CHR ''='' \<notin> set b64_table" by (simp add: b64_table_def)
  then show "b64_table ! v \<noteq> CHR ''=''" using assms b64_table_length by (metis nth_mem)
  show "from_url (to_url (b64_table ! v)) = b64_table ! v"
    using arg_cong [OF url_inverse, of "\<lambda>xs. xs ! v"] assms by (simp add: b64_table_length)
qed

lemma decode_pad [simp]: "decode_table ! byte (CHR ''='') = 0"
  by (simp add: decode_table_def byte_def)

lemma sextets_less:
  fixes x y z :: nat
  shows "x < 256 \<Longrightarrow> x div 4 < 64"
    and "y < 256 \<Longrightarrow> (x mod 4) * 16 + y div 16 < 64"
    and "z < 256 \<Longrightarrow> (y mod 16) * 4 + z div 64 < 64"
    and "z mod 64 < 64"
proof -
  show "(x mod 4) * 16 + y div 16 < 64" if "y < 256"
  proof -
    have "x mod 4 \<le> 3" "y div 16 < 16" using that by auto
    then show ?thesis by linarith
  qed
  show "(y mod 16) * 4 + z div 64 < 64" if "z < 256"
  proof -
    have "y mod 16 \<le> 15" "z div 64 < 4" using that by auto
    then show ?thesis by linarith
  qed
qed auto

lemma char_of_byte [simp]: "char_of (byte c) = c"
  by (simp add: byte_def)

lemma regroup:
  fixes x y z :: nat
  assumes "x < 256" "y < 256" "z < 256"
  shows "push_bit 2 (x div 4) OR drop_bit 4 ((x mod 4) * 16 + y div 16) = x"
    and "push_bit 4 (((x mod 4) * 16 + y div 16) AND 0x0F) OR drop_bit 2 ((y mod 16) * 4 + z div 64) = y"
    and "push_bit 6 (((y mod 16) * 4 + z div 64) AND 0x03) OR (z mod 64) = z"
proof -
  have m: "n AND 15 = n mod 16" "n AND 3 = n mod 4" for n :: nat
    using take_bit_eq_mask [of 4 n] take_bit_eq_mask [of 2 n]
    by (simp_all add: mask_eq_exp_minus_1 take_bit_eq_mod)
  have "drop_bit 4 ((x mod 4) * 16 + y div 16) = x mod 4"
    using assms by (simp add: drop_bit_eq_div)
  then show "push_bit 2 (x div 4) OR drop_bit 4 ((x mod 4) * 16 + y div 16) = x"
    using push_or_add [of "x mod 4" 2 "x div 4"] by simp
  have "((x mod 4) * 16 + y div 16) mod 16 = y div 16" "drop_bit 2 ((y mod 16) * 4 + z div 64) = y mod 16"
    using assms by (simp_all add: drop_bit_eq_div)
  then show "push_bit 4 (((x mod 4) * 16 + y div 16) AND 0x0F) OR drop_bit 2 ((y mod 16) * 4 + z div 64) = y"
    using push_or_add [of "y mod 16" 4 "y div 16"] by (simp add: m)
  have "((y mod 16) * 4 + z div 64) mod 4 = z div 64" using assms by simp
  then show "push_bit 6 (((y mod 16) * 4 + z div 64) AND 0x03) OR (z mod 64) = z"
    using push_or_add [of "z mod 64" 6 "z div 64"] by (simp add: m)
qed

section \<open>Shape of the encoding\<close>

text \<open>The encoding is a body of table characters and at most two padding characters.\<close>

fun b64_body :: "string \<Rightarrow> nat list" where
  "b64_body [] = []"
| "b64_body [x] = [byte x div 4, (byte x mod 4) * 16]"
| "b64_body [x, y] =
     [byte x div 4, (byte x mod 4) * 16 + byte y div 16, (byte y mod 16) * 4]"
| "b64_body (x # y # z # rest) =
     [byte x div 4, (byte x mod 4) * 16 + byte y div 16, (byte y mod 16) * 4 + byte z div 64,
      byte z mod 64] @ b64_body rest"

fun b64_pad :: "string \<Rightarrow> nat" where
  "b64_pad [] = 0"
| "b64_pad [x] = 2"
| "b64_pad [x, y] = 1"
| "b64_pad (x # y # z # rest) = b64_pad rest"

lemma byte_sextets [simp]:
  "byte x div 4 < 64" "(byte x mod 4) * 16 + byte y div 16 < 64" "(byte x mod 4) * 16 < 64"
  "(byte y mod 16) * 4 + byte z div 64 < 64" "(byte y mod 16) * 4 < 64" "byte z mod 64 < 64"
  using sextets_less(1) [of "byte x"] sextets_less(2) [of "byte y" "byte x"]
    sextets_less(2) [of 0 "byte x"] sextets_less(3) [of "byte z" "byte y"]
    sextets_less(3) [of 0 "byte y"]
  by simp_all

lemma b64_body_less: "v \<in> set (b64_body d) \<Longrightarrow> v < 64"
  by (induction d rule: b64_body.induct) auto

lemma b64_pad_less: "b64_pad d < 3"
  by (induction d rule: b64_pad.induct) auto

lemma b64_length: "(length (b64_body d) + b64_pad d) mod 4 = 0"
  by (induction d rule: b64_body.induct) (auto simp: mod_Suc)

lemma b64_encode_shape:
  "b64_encode d = map ((!) b64_table) (b64_body d) @ replicate (b64_pad d) (CHR ''='')"
proof (induction d rule: b64_encode.induct)
  case (2 x)
  have "push_bit 16 (byte x) = triple (byte x) 0 0" using triple_or [of 0 0 "byte x"] by simp
  then show ?case using sextet_triple [of "byte x" 0 0] by (simp add: numeral_2_eq_2)
next
  case (3 x y)
  have "push_bit 16 (byte x) OR push_bit 8 (byte y) = triple (byte x) (byte y) 0"
    using triple_or [of "byte y" 0 "byte x"] by simp
  then show ?case using sextet_triple [of "byte x" "byte y" 0] by simp
next
  case (4 x y z rest)
  then show ?case
    using triple_or [of "byte y" "byte z" "byte x"] sextet_triple [of "byte x" "byte y" "byte z"]
    by simp
qed simp

lemma b64_decode_group:
  assumes "a < 64" "b < 64" "c < 64" "d < 64"
  shows "b64_decode (b64_table ! a # b64_table ! b # CHR ''='' # CHR ''='' # rest) =
      [char_of (push_bit 2 a OR drop_bit 4 b)] @ b64_decode rest"
    and "b64_decode (b64_table ! a # b64_table ! b # b64_table ! c # CHR ''='' # rest) =
      [char_of (push_bit 2 a OR drop_bit 4 b), char_of (push_bit 4 (b AND 0x0F) OR drop_bit 2 c)]
      @ b64_decode rest"
    and "b64_decode (b64_table ! a # b64_table ! b # b64_table ! c # b64_table ! d # rest) =
      [char_of (push_bit 2 a OR drop_bit 4 b), char_of (push_bit 4 (b AND 0x0F) OR drop_bit 2 c),
       char_of (push_bit 6 (c AND 0x03) OR d)] @ b64_decode rest"
  using assms by (simp_all add: Let_def)

lemma b64_round_trip: "b64_decode (b64_encode d) = d"
proof (induction d rule: b64_encode.induct)
  case (2 x)
  have "b64_encode [x] =
      [b64_table ! (byte x div 4), b64_table ! ((byte x mod 4) * 16), CHR ''='', CHR ''='']"
    unfolding b64_encode_shape by (simp add: numeral_2_eq_2)
  then show ?case
    using b64_decode_group(1) [of "byte x div 4" "(byte x mod 4) * 16" 0 0 "[]"] regroup(1) [of "byte x" 0 0]
    by simp
next
  case (3 x y)
  have "b64_encode [x, y] =
      [b64_table ! (byte x div 4), b64_table ! ((byte x mod 4) * 16 + byte y div 16),
       b64_table ! ((byte y mod 16) * 4), CHR ''='']"
    unfolding b64_encode_shape by simp
  then show ?case
    using b64_decode_group(2) [of "byte x div 4" "(byte x mod 4) * 16 + byte y div 16"
        "(byte y mod 16) * 4" 0 "[]"] regroup(1,2) [of "byte x" "byte y" 0]
    by simp
next
  case (4 x y z rest)
  have "b64_encode (x # y # z # rest) =
      b64_table ! (byte x div 4) # b64_table ! ((byte x mod 4) * 16 + byte y div 16)
      # b64_table ! ((byte y mod 16) * 4 + byte z div 64) # b64_table ! (byte z mod 64)
      # b64_encode rest"
    unfolding b64_encode_shape by simp
  then show ?case
    using b64_decode_group(3) [of "byte x div 4" "(byte x mod 4) * 16 + byte y div 16"
        "(byte y mod 16) * 4 + byte z div 64" "byte z mod 64" "b64_encode rest"]
      regroup [of "byte x" "byte y" "byte z"] 4
    by simp
qed simp

section \<open>The contract of a codec\<close>

locale byte_codec =
  fixes enc :: "string \<Rightarrow> string"
    and dec :: "string \<Rightarrow> string"
    and code_char :: "char \<Rightarrow> bool"
  assumes dec_enc: "dec (enc d) = d"
    and dec_empty: "dec [] = []"
    and enc_chars: "c \<in> set (enc d) \<Longrightarrow> code_char c"
begin

lemma enc_inj: "enc a = enc b \<longleftrightarrow> a = b"
  by (metis dec_enc)

lemma enc_nonempty: "d \<noteq> [] \<Longrightarrow> enc d \<noteq> []"
  by (metis dec_enc dec_empty)

text \<open>An encoded field ends at the first separator that is no code character.\<close>

lemma separator_after:
  assumes "\<not> code_char sep"
  shows "find_char sep (length pre) (pre @ enc d @ sep # rest) = Some (length pre + length (enc d))"
  using assms enc_chars by (intro find_char_hit) blast

lemma no_separator:
  assumes "\<not> code_char sep"
  shows "find_char sep (length pre) (pre @ enc d) = None"
  using assms enc_chars by (intro find_char_miss) blast

end

definition b64_char :: "char \<Rightarrow> bool" where
  "b64_char c = (c \<in> set b64_table \<or> c = CHR ''='')"

definition url_char :: "char \<Rightarrow> bool" where
  "url_char c = (c \<in> set (map to_url b64_table))"

lemma b64_body_char: "v \<in> set (b64_body d) \<Longrightarrow> b64_table ! v \<in> set b64_table"
  using b64_body_less [of v d] b64_table_length by (metis nth_mem)

interpretation b64: byte_codec base64Encode base64Decode b64_char
proof unfold_locales
  fix d c
  show "base64Decode (base64Encode d) = d"
    by (simp add: base64Decode_def base64Encode_def b64_round_trip)
  show "base64Decode [] = []" by (simp add: base64Decode_def)
  show "c \<in> set (base64Encode d) \<Longrightarrow> b64_char c"
    using b64_body_char by (auto simp: base64Encode_def b64_encode_shape b64_char_def)
qed

lemma to_url_pad: "to_url c = CHR ''='' \<longleftrightarrow> c = CHR ''=''"
  by (simp add: to_url_def)

lemma strip_pad_shape:
  assumes "CHR ''='' \<notin> set xs"
  shows "strip_pad (xs @ replicate n (CHR ''='')) = xs"
proof -
  have "dropWhile (\<lambda>c. c = CHR ''='') (rev xs) = rev xs"
    using assms by (cases xs rule: rev_cases) auto
  then show ?thesis by (simp add: strip_pad_def dropWhile_append)
qed

lemma base64UrlEncode_shape: "base64UrlEncode d = map to_url (map ((!) b64_table) (b64_body d))"
proof -
  have "CHR ''='' \<notin> set (map to_url (map ((!) b64_table) (b64_body d)))"
  proof
    assume "CHR ''='' \<in> set (map to_url (map ((!) b64_table) (b64_body d)))"
    then obtain v where "v \<in> set (b64_body d)" "to_url (b64_table ! v) = CHR ''=''" by auto
    then show False using b64_body_less [of v d] tables_inverse(2) [of v] by (simp add: to_url_pad)
  qed
  moreover have "map to_url (b64_encode d) =
      map to_url (map ((!) b64_table) (b64_body d)) @ replicate (b64_pad d) (CHR ''='')"
    by (simp add: b64_encode_shape to_url_def)
  ultimately show ?thesis using strip_pad_shape by (simp add: base64UrlEncode_def)
qed

lemma add_pad_shape:
  assumes "(length xs + n) mod 4 = 0" and "n < 3"
  shows "add_pad xs = xs @ replicate n (CHR ''='')"
proof -
  define r where "r = length xs mod 4"
  have "r < 4" "(r + n) mod 4 = 0" using assms(1) by (simp_all add: r_def mod_add_left_eq)
  then have "(4 - r) mod 4 = n" using assms(2) by (auto simp: mod_if split: if_splits)
  then show ?thesis by (simp add: add_pad_def r_def)
qed

interpretation b64url: byte_codec base64UrlEncode base64UrlDecode url_char
proof unfold_locales
  fix d c
  have "map from_url (base64UrlEncode d) = map ((!) b64_table) (b64_body d)"
    using b64_body_less [of _ d] by (auto simp: base64UrlEncode_shape)
  then have "add_pad (map from_url (base64UrlEncode d)) = b64_encode d"
    using b64_length [of d] b64_pad_less [of d]
    by (simp add: add_pad_shape b64_encode_shape)
  then show "base64UrlDecode (base64UrlEncode d) = d"
    by (simp add: base64UrlDecode_def b64_round_trip)
  show "base64UrlDecode [] = []" by (simp add: base64UrlDecode_def add_pad_def)
  show "c \<in> set (base64UrlEncode d) \<Longrightarrow> url_char c"
    using b64_body_char by (auto simp: base64UrlEncode_shape url_char_def)
qed

section \<open>Properties\<close>

text \<open>
  C38: Both codecs give back every byte string unchanged; the padded encoding of \<open>n\<close> bytes has
  \<open>4 * ((n + 2) / 3)\<close> characters, and the URL-safe one consists of letters, digits, \<open>-\<close> and \<open>_\<close> only.
\<close>

theorem base64_round_trip:
  "base64Decode (base64Encode d) = d
   \<and> base64UrlDecode (base64UrlEncode d) = d
   \<and> length (base64Encode d) = 4 * ((length d + 2) div 3)
   \<and> list_all (\<lambda>c. is_digit c \<or> is_upper c \<or> is_lower c \<or> c = CHR ''-'' \<or> c = CHR ''_'')
       (base64UrlEncode d)"
proof -
  have "length (b64_encode d) = 4 * ((length d + 2) div 3)"
  proof (induction d rule: b64_encode.induct)
    case (4 x y z rest)
    have "(5 + length rest) div 3 = Suc (Suc (Suc (length rest)) div 3)" by simp
    then show ?case using 4 by (simp add: Let_def)
  qed (simp_all add: Let_def)
  moreover have "list_all (\<lambda>c. is_digit c \<or> is_upper c \<or> is_lower c \<or> c = CHR ''-'' \<or> c = CHR ''_'')
      (map to_url b64_table)"
    by (simp add: b64_table_def to_url_def is_digit_def is_upper_def is_lower_def byte_def)
  then have "list_all (\<lambda>c. is_digit c \<or> is_upper c \<or> is_lower c \<or> c = CHR ''-'' \<or> c = CHR ''_'')
      (base64UrlEncode d)"
    using b64url.enc_chars [of _ d] unfolding list_all_iff url_char_def by blast
  ultimately show ?thesis
    using b64.dec_enc b64url.dec_enc by (simp add: base64Encode_def)
qed

end
