(* ===== verification/StdMap.thy ===== *)
theory StdMap imports Prelude begin

text \<open>
  \<open>std::map<std::string, T>\<close> and \<open>std::set\<close> of strings as the sources use them: a list of pairs in the
  order of \<open>operator<\<close> on \<open>std::string\<close>, which compares unsigned bytes, so that iteration is list
  traversal.
\<close>

section \<open>The order of strings\<close>

fun str_less :: "string \<Rightarrow> string \<Rightarrow> bool" where
  "str_less xs [] = False"
| "str_less [] (y # ys) = True"
| "str_less (x # xs) (y # ys) = (byte x < byte y \<or> (x = y \<and> str_less xs ys))"

lemma str_less_irrefl [simp]: "\<not> str_less s s"
  by (induction s) auto

lemma str_less_trans: "str_less a b \<Longrightarrow> str_less b c \<Longrightarrow> str_less a c"
proof (induction a b arbitrary: c rule: str_less.induct)
  case (2 y ys)
  then show ?case by (cases c) auto
next
  case (3 x xs y ys)
  then show ?case by (cases c) (auto dest: less_trans)
qed auto

lemma str_less_total: "str_less a b \<or> a = b \<or> str_less b a"
  by (induction a b rule: str_less.induct)
    (auto simp: byte_eq_iff [symmetric] neq_iff, metis byte_eq_iff list.exhaust str_less.simps(2))

lemma str_less_asym: "str_less a b \<Longrightarrow> \<not> str_less b a"
  using str_less_trans str_less_irrefl by blast

lemma str_less_neq: "str_less a b \<Longrightarrow> a \<noteq> b"
  by auto

section \<open>Maps\<close>

type_synonym 'v std_map = "(string \<times> 'v) list"

text \<open>\<open>m[k] = v\<close>\<close>

fun map_put :: "string \<Rightarrow> 'v \<Rightarrow> 'v std_map \<Rightarrow> 'v std_map" where
  "map_put k v [] = [(k, v)]"
| "map_put k v ((k', v') # m) =
     (if str_less k k' then (k, v) # (k', v') # m
      else if k = k' then (k, v) # m
      else (k', v') # map_put k v m)"

text \<open>\<open>m.find(k)\<close>\<close>

definition map_get :: "'v std_map \<Rightarrow> string \<Rightarrow> 'v option" where
  "map_get m k = map_of m k"

definition sorted_map :: "'v std_map \<Rightarrow> bool" where
  "sorted_map m = sorted_wrt (\<lambda>a b. str_less (fst a) (fst b)) m"

lemma sorted_map_Nil [simp]: "sorted_map []"
  by (simp add: sorted_map_def)

lemma map_put_set: "set (map_put k v m) \<subseteq> insert (k, v) (set m)"
  by (induction m) (auto split: if_splits)

lemma sorted_map_put: "sorted_map m \<Longrightarrow> sorted_map (map_put k v m)"
proof (induction m)
  case (Cons p m)
  obtain k' v' where p: "p = (k', v')" by (cases p)
  show ?case
  proof (cases "str_less k k' \<or> k = k'")
    case True
    then show ?thesis using Cons.prems p by (auto simp: sorted_map_def dest: str_less_trans)
  next
    case False
    then have "str_less k' k" using str_less_total [of k k'] by blast
    then show ?thesis
      using Cons p False map_put_set [of k v m] by (auto simp: sorted_map_def)
  qed
qed (simp add: sorted_map_def)

lemma map_get_put: "map_get (map_put k v m) j = (if j = k then Some v else map_get m j)"
  by (induction m) (auto simp: map_get_def split: if_splits)

lemma map_put_last:
  "\<forall>p\<in>set m. str_less (fst p) k \<Longrightarrow> map_put k v m = m @ [(k, v)]"
  by (induction m) (auto dest: str_less_asym)

text \<open>Entries put in their order make up the list itself.\<close>

lemma map_put_sorted:
  "sorted_map (m @ ps) \<Longrightarrow> foldl (\<lambda>m (k, v). map_put k v m) m ps = m @ ps"
proof (induction ps arbitrary: m)
  case (Cons p ps)
  obtain k v where p: "p = (k, v)" by (cases p)
  have "\<forall>q\<in>set m. str_less (fst q) k" using Cons.prems p by (simp add: sorted_map_def sorted_wrt_append)
  then have "map_put k v m = m @ [p]" using map_put_last p by simp
  moreover have "sorted_map ((m @ [p]) @ ps)" using Cons.prems by simp
  ultimately show ?case using Cons.IH [of "m @ [p]"] p by simp
qed simp

end
