(* ===== verification/Jwt.thy ===== *)
theory Jwt imports Codec StdMap begin

text \<open>
  \<open>JwtUtil\<close> (src/JwtUtil.cpp): signing and verification of HS256 tokens, the fields read from the
  payload, and the blacklist of revoked tokens.  The clock, \<open>RAND_bytes\<close> and \<open>HMAC\<close> are arguments.
  The static members of the class are the state; every call takes \<open>s_blacklistMutex\<close> around its use
  of them, so a call is one step.
\<close>

section \<open>Reading a token\<close>

definition dot :: char where "dot = CHR ''.''"

definition quoted :: "string \<Rightarrow> string" where
  "quoted s = CHR 0x22 # s @ [CHR 0x22]"

text \<open>
  The number that follows a key in the payload, as \<open>getExp\<close> and \<open>getIat\<close> both read it; 0 stands for
  every failure.
\<close>

definition payload_number :: "string \<Rightarrow> string \<Rightarrow> int" where
  "payload_number key token =
     (case find_char dot 0 token of
        None \<Rightarrow> 0
      | Some dot1 \<Rightarrow>
     (case find_char dot (dot1 + 1) token of
        None \<Rightarrow> 0
      | Some dot2 \<Rightarrow>
     (let payloadJson = base64UrlDecode (substr (dot1 + 1) (dot2 - dot1 - 1) token)
      in case find_sub key payloadJson of
        None \<Rightarrow> 0
      | Some keyPos \<Rightarrow>
     (case find_char (CHR '':'') keyPos payloadJson of
        None \<Rightarrow> 0
      | Some colon \<Rightarrow>
     (case stoll (takeWhile is_digit (dropWhile is_blank (drop (colon + 1) payloadJson))) of
        None \<Rightarrow> 0
      | Some v \<Rightarrow> v)))))"

definition getExp :: "string \<Rightarrow> int" where
  "getExp token = payload_number (quoted ''exp'') token"

definition getIat :: "string \<Rightarrow> int" where
  "getIat token = payload_number (quoted ''iat'') token"

definition extractBearer :: "string \<Rightarrow> string" where
  "extractBearer authHeader =
     (if 7 < length authHeader \<and> take 7 authHeader = ''Bearer '' then drop 7 authHeader else [])"

section \<open>The blacklist\<close>

record RevokedEntry =
  re_token :: string
  re_expireAt :: int

record JwtState =
  jwt_blacklist :: "RevokedEntry list"      \<comment> \<open>a \<open>std::set\<close>, in its order\<close>
  jwt_persistCallback :: bool
  jwt_maxEntries :: int
  jwt_startTimeSeconds :: int

definition JwtState_initial :: JwtState where
  "JwtState_initial =
     \<lparr>jwt_blacklist = [], jwt_persistCallback = False, jwt_maxEntries = 1000,
      jwt_startTimeSeconds = 0\<rparr>"

text \<open>\<open>std::set::insert\<close> and \<open>find\<close>; the order is that of the tokens alone.\<close>

fun entry_insert :: "RevokedEntry \<Rightarrow> RevokedEntry list \<Rightarrow> RevokedEntry list" where
  "entry_insert e [] = [e]"
| "entry_insert e (x # xs) =
     (if str_less (re_token e) (re_token x) then e # x # xs
      else if str_less (re_token x) (re_token e) then x # entry_insert e xs
      else x # xs)"

fun entry_find :: "string \<Rightarrow> RevokedEntry list \<Rightarrow> bool" where
  "entry_find t [] = False"
| "entry_find t (x # xs) =
     (if str_less (re_token x) t then entry_find t xs else \<not> str_less t (re_token x))"

definition drop_expired :: "int \<Rightarrow> RevokedEntry list \<Rightarrow> RevokedEntry list" where
  "drop_expired now es = filter (\<lambda>e. \<not> re_expireAt e \<le> now) es"

text \<open>The inner loop of \<open>revoke\<close>: the first entry whose expiry is smallest.\<close>

definition oldest :: "RevokedEntry list \<Rightarrow> RevokedEntry" where
  "oldest es = foldl (\<lambda>o' it. if re_expireAt it < re_expireAt o' then it else o') (hd es) es"

lemma oldest_fold_in:
  "foldl (\<lambda>o' it. if re_expireAt it < re_expireAt o' then it else o') e es \<in> insert e (set es)"
proof (induction es arbitrary: e)
  case (Cons a es)
  show ?case using Cons.IH [of e] Cons.IH [of a] by auto
qed simp

lemma oldest_in: "es \<noteq> [] \<Longrightarrow> oldest es \<in> set es"
  using oldest_fold_in [of "hd es" es] by (auto simp: oldest_def)

function evict :: "int \<Rightarrow> RevokedEntry list \<Rightarrow> RevokedEntry list" where
  "evict maxEntries es =
     (if 0 < maxEntries \<and> maxEntries \<le> int (length es)
      then evict maxEntries (remove1 (oldest es) es) else es)"
  by auto
termination
proof (relation "measure (\<lambda>(m, es). length es)")
  fix m :: int and es :: "RevokedEntry list"
  assume "0 < m \<and> m \<le> int (length es)"
  then have "es \<noteq> []" by auto
  then show "((m, remove1 (oldest es) es), m, es) \<in> measure (\<lambda>(m, es). length es)"
    using oldest_in [of es] by (simp add: length_remove1)
qed simp

declare evict.simps [simp del]

text \<open>The second component is the calls of the persistence callback.\<close>

definition revoke :: "int \<Rightarrow> string \<Rightarrow> JwtState \<Rightarrow> JwtState \<times> (string \<times> int) list" where
  "revoke now token s =
     (let exp = getExp token
      in if exp = 0 then (s, [])
         else
           (let es = evict (jwt_maxEntries s) (drop_expired now (jwt_blacklist s));
                entry = \<lparr>re_token = token, re_expireAt = exp\<rparr>
            in (s\<lparr>jwt_blacklist := entry_insert entry es\<rparr>,
                if jwt_persistCallback s then [(token, exp)] else [])))"

definition isRevoked :: "string \<Rightarrow> JwtState \<Rightarrow> bool" where
  "isRevoked token s = entry_find token (jwt_blacklist s)"

definition jwt_cleanup :: "int \<Rightarrow> JwtState \<Rightarrow> JwtState" where
  "jwt_cleanup now s = s\<lparr>jwt_blacklist := drop_expired now (jwt_blacklist s)\<rparr>"

definition loadEntries :: "(string \<times> int) list \<Rightarrow> JwtState \<Rightarrow> JwtState" where
  "loadEntries entries s =
     s\<lparr>jwt_blacklist :=
         foldl (\<lambda>es (t, x). entry_insert \<lparr>re_token = t, re_expireAt = x\<rparr> es) (jwt_blacklist s) entries\<rparr>"

definition setPersistCallback :: "bool \<Rightarrow> JwtState \<Rightarrow> JwtState" where
  "setPersistCallback cb s = s\<lparr>jwt_persistCallback := cb\<rparr>"

definition setMaxEntries :: "int \<Rightarrow> JwtState \<Rightarrow> JwtState" where
  "setMaxEntries maxEntries s = s\<lparr>jwt_maxEntries := maxEntries\<rparr>"

definition setStartTimeSeconds :: "int \<Rightarrow> JwtState \<Rightarrow> JwtState" where
  "setStartTimeSeconds seconds s = s\<lparr>jwt_startTimeSeconds := seconds\<rparr>"

definition getBlacklistSize :: "JwtState \<Rightarrow> nat" where
  "getBlacklistSize s = length (jwt_blacklist s)"

definition getMaxEntries :: "JwtState \<Rightarrow> int" where
  "getMaxEntries s = jwt_maxEntries s"

section \<open>Signing and verification\<close>

definition jwt_hex :: string where
  "jwt_hex = ''0123456789abcdef''"

definition jti_of :: "string \<Rightarrow> string" where
  "jti_of randomId =
     concat (map (\<lambda>b. [jwt_hex ! (drop_bit 4 (byte b)), jwt_hex ! (byte b AND 0x0F)]) randomId)"

definition jwt_header :: string where
  "jwt_header = ''{'' @ quoted ''alg'' @ '':'' @ quoted ''HS256'' @ '','' @ quoted ''typ'' @ '':''
     @ quoted ''JWT'' @ ''}''"

definition jwt_payload :: "int \<Rightarrow> int \<Rightarrow> string \<Rightarrow> string" where
  "jwt_payload iat exp jti =
     ''{'' @ quoted ''sub'' @ '':'' @ quoted ''admin'' @ '','' @ quoted ''iat'' @ '':'' @ dec_int iat
     @ '','' @ quoted ''exp'' @ '':'' @ dec_int exp @ '','' @ quoted ''jti'' @ '':'' @ quoted jti @ ''}''"

text \<open>\<open>rnd\<close> is what \<open>RAND_bytes\<close> delivers, \<open>None\<close> when it fails.\<close>

definition jwt_sign ::
  "(string \<Rightarrow> string \<Rightarrow> string) \<Rightarrow> string option \<Rightarrow> int \<Rightarrow> string \<Rightarrow> int \<Rightarrow> string" where
  "jwt_sign hmac rnd now secret expireSeconds =
     (case rnd of
        None \<Rightarrow> []
      | Some randomId \<Rightarrow>
          (let exp = now + expireSeconds;
               headerEnc = base64UrlEncode jwt_header;
               payloadEnc = base64UrlEncode (jwt_payload now exp (jti_of randomId));
               sigInput = headerEnc @ [dot] @ payloadEnc;
               sig = hmac secret sigInput
           in sigInput @ [dot] @ base64UrlEncode sig))"

definition jwt_verify ::
  "(string \<Rightarrow> string \<Rightarrow> string) \<Rightarrow> JwtState \<Rightarrow> int \<Rightarrow> string \<Rightarrow> string \<Rightarrow> bool" where
  "jwt_verify hmac s now token secret =
     (case find_char dot 0 token of
        None \<Rightarrow> False
      | Some dot1 \<Rightarrow>
     (case find_char dot (dot1 + 1) token of
        None \<Rightarrow> False
      | Some dot2 \<Rightarrow>
      if find_char dot (dot2 + 1) token \<noteq> None then False
      else
     (let sigInput = substr 0 dot2 token;
          sigEncoded = drop (dot2 + 1) token;
          expectedSig = base64UrlEncode (hmac secret sigInput);
          exp = getExp token
      in if length expectedSig \<noteq> length sigEncoded \<or> expectedSig \<noteq> sigEncoded then False
         else if exp = 0 \<or> exp \<le> now then False
         else if 0 < jwt_startTimeSeconds s
                 \<and> (let iat = getIat token in 0 < iat \<and> iat < jwt_startTimeSeconds s) then False
         else if isRevoked token s then False
         else True)))"

section \<open>The order of the blacklist\<close>

definition sorted_entries :: "RevokedEntry list \<Rightarrow> bool" where
  "sorted_entries es = sorted_wrt (\<lambda>a b. str_less (re_token a) (re_token b)) es"

lemma entry_insert_set:
  "set (entry_insert e es) \<subseteq> insert e (set es) \<and> set es \<subseteq> set (entry_insert e es)"
  by (induction es) auto

lemma entry_insert_token: "re_token e \<in> re_token ` set (entry_insert e es)"
proof (induction es)
  case (Cons x xs)
  then show ?case using str_less_total [of "re_token e" "re_token x"] by auto
qed simp

lemma entry_insert_sorted: "sorted_entries es \<Longrightarrow> sorted_entries (entry_insert e es)"
proof (induction es)
  case (Cons x xs)
  then show ?case
    using entry_insert_set [of e xs] str_less_trans
    by (auto simp: sorted_entries_def)
qed (simp add: sorted_entries_def)

lemma entry_insert_length: "length (entry_insert e es) \<le> Suc (length es)"
  by (induction es) auto

lemma entry_find_iff: "sorted_entries es \<Longrightarrow> entry_find t es \<longleftrightarrow> t \<in> re_token ` set es"
proof (induction es)
  case (Cons x xs)
  then have IH: "entry_find t xs \<longleftrightarrow> t \<in> re_token ` set xs"
    and less: "\<forall>y\<in>set xs. str_less (re_token x) (re_token y)"
    by (simp_all add: sorted_entries_def)
  show ?case
  proof (cases "str_less (re_token x) t")
    case True
    then show ?thesis using IH by (metis entry_find.simps(2) image_insert insertE insertI2 list.simps(15) str_less_irrefl)
  next
    case False
    then have "t \<notin> re_token ` set xs" using less by blast
    moreover have "\<not> str_less t (re_token x) \<longleftrightarrow> t = re_token x"
      using False str_less_total [of t "re_token x"] by auto
    ultimately show ?thesis using False by auto
  qed
qed simp

lemma drop_expired_sorted: "sorted_entries es \<Longrightarrow> sorted_entries (drop_expired now es)"
  by (simp add: sorted_entries_def drop_expired_def sorted_wrt_filter)

lemma sorted_wrt_remove1: "sorted_wrt P xs \<Longrightarrow> sorted_wrt P (remove1 x xs)"
  by (induction xs) (auto dest: notin_set_remove1 [of _ _ x, THEN contrapos_pp])

lemma evict_sorted: "sorted_entries es \<Longrightarrow> sorted_entries (evict m es)"
proof (induction m es rule: evict.induct)
  case (1 m es)
  then show ?case
    by (subst evict.simps) (auto simp: sorted_entries_def sorted_wrt_remove1)
qed

lemma evict_length: "0 < m \<Longrightarrow> int (length (evict m es)) < m"
proof (induction m es rule: evict.induct)
  case (1 m es)
  then show ?case by (subst evict.simps) auto
qed

lemma evict_keeps: "\<not> (0 < m \<and> m \<le> int (length es)) \<Longrightarrow> evict m es = es"
  by (subst evict.simps) auto

lemma oldest_least: "e \<in> set es \<Longrightarrow> re_expireAt (oldest es) \<le> re_expireAt e"
proof -
  have "re_expireAt (foldl (\<lambda>o' it. if re_expireAt it < re_expireAt o' then it else o') d es) \<le> re_expireAt d
    \<and> (\<forall>e\<in>set es. re_expireAt (foldl (\<lambda>o' it. if re_expireAt it < re_expireAt o' then it else o') d es)
         \<le> re_expireAt e)" for d
  proof (induction es arbitrary: d)
    case (Cons a es)
    show ?case using Cons.IH [of a] Cons.IH [of d] by auto
  qed simp
  then show "e \<in> set es \<Longrightarrow> re_expireAt (oldest es) \<le> re_expireAt e" by (simp add: oldest_def)
qed

text \<open>What eviction removes expires no later than anything it keeps.\<close>

lemma evict_oldest_first:
  "x \<in> set es \<Longrightarrow> x \<notin> set (evict m es) \<Longrightarrow> y \<in> set (evict m es) \<Longrightarrow> re_expireAt x \<le> re_expireAt y"
proof (induction m es rule: evict.induct)
  case (1 m es)
  show ?case
  proof (cases "0 < m \<and> m \<le> int (length es)")
    case True
    then have ev: "evict m es = evict m (remove1 (oldest es) es)" by (subst evict.simps) simp
    show ?thesis
    proof (cases "x \<in> set (remove1 (oldest es) es)")
      case True': True
      then show ?thesis using 1 True ev by auto
    next
      case False
      then have x: "x = oldest es" using 1(2) by (metis in_set_remove1)
      have "set (evict m ys) \<subseteq> set ys" for ys
      proof (induction m ys rule: evict.induct)
        case (1 m es)
        then show ?case using set_remove1_subset [of "oldest es" es] by (subst evict.simps) (simp, blast)
      qed
      then have "y \<in> set es" using 1(4) ev set_remove1_subset by fastforce
      then show ?thesis using x oldest_least by simp
    qed
  next
    case False
    then show ?thesis using 1 evict_keeps by simp
  qed
qed

section \<open>Sequences of calls\<close>

datatype jwt_op =
    Revoke int string | Cleanup int | Load "(string \<times> int) list"
  | SetCallback bool | SetMax int | SetStart int

fun jwt_do :: "jwt_op \<Rightarrow> JwtState \<Rightarrow> JwtState" where
  "jwt_do (Revoke now t) s = fst (revoke now t s)"
| "jwt_do (Cleanup now) s = jwt_cleanup now s"
| "jwt_do (Load es) s = loadEntries es s"
| "jwt_do (SetCallback b) s = setPersistCallback b s"
| "jwt_do (SetMax m) s = setMaxEntries m s"
| "jwt_do (SetStart t) s = setStartTimeSeconds t s"

fun jwt_run :: "JwtState \<Rightarrow> jwt_op list \<Rightarrow> JwtState" where
  "jwt_run s [] = s"
| "jwt_run s (x # xs) = jwt_run (jwt_do x s) xs"

abbreviation jwt_ok :: "JwtState \<Rightarrow> bool" where
  "jwt_ok s \<equiv> sorted_entries (jwt_blacklist s)"

lemmas jwt_state_defs = jwt_cleanup_def loadEntries_def setPersistCallback_def setMaxEntries_def
  setStartTimeSeconds_def

lemma load_sorted:
  "sorted_entries es \<Longrightarrow>
   sorted_entries (foldl (\<lambda>es (t, x). entry_insert \<lparr>re_token = t, re_expireAt = x\<rparr> es) es entries)"
  by (induction entries arbitrary: es) (auto simp: entry_insert_sorted)

lemma jwt_do_ok: "jwt_ok s \<Longrightarrow> jwt_ok (jwt_do x s)"
  by (cases x)
    (auto simp: revoke_def Let_def jwt_state_defs entry_insert_sorted evict_sorted drop_expired_sorted
      load_sorted)

lemma jwt_run_ok: "jwt_ok s \<Longrightarrow> jwt_ok (jwt_run s xs)"
  by (induction xs arbitrary: s) (auto intro: jwt_do_ok)

lemma jwt_initial_ok: "jwt_ok JwtState_initial"
  by (simp add: JwtState_initial_def sorted_entries_def)

lemma isRevoked_iff: "jwt_ok s \<Longrightarrow> isRevoked t s \<longleftrightarrow> t \<in> re_token ` set (jwt_blacklist s)"
  by (simp add: isRevoked_def entry_find_iff)

section \<open>The dots of a token\<close>

lemma split_dots:
  assumes "dot \<notin> set a" and "dot \<notin> set b" and "dot \<notin> set c"
  shows "find_char dot 0 (a @ dot # b @ dot # c) = Some (length a)"
    and "find_char dot (length a + 1) (a @ dot # b @ dot # c) = Some (length a + 1 + length b)"
    and "find_char dot (length a + 1 + length b + 1) (a @ dot # b @ dot # c) = None"
    and "substr 0 (length a + 1 + length b) (a @ dot # b @ dot # c) = a @ dot # b"
    and "substr (length a + 1) (length a + 1 + length b - length a - 1) (a @ dot # b @ dot # c) = b"
    and "drop (length a + 1 + length b + 1) (a @ dot # b @ dot # c) = c"
  using assms find_char_hit0 [of dot a "b @ dot # c"] find_char_hit [of dot b "a @ [dot]" c]
    find_char_miss [of dot c "a @ dot # b @ [dot]"]
  by (simp_all add: substr_def)

lemma find_char_split:
  "find_char c pos s = Some i \<Longrightarrow> pos \<le> i \<and> s = take pos s @ take (i - pos) (drop pos s) @ c # drop (i + 1) s
     \<and> c \<notin> set (take (i - pos) (drop pos s))"
proof -
  assume h: "find_char c pos s = Some i"
  then obtain j where j: "find_idx (\<lambda>x. x = c) (drop pos s) = Some j" "i = pos + j"
    by (auto simp: find_char_def find_from_def)
  then have "j < length (drop pos s)" "drop pos s ! j = c" "c \<notin> set (take j (drop pos s))"
    by (auto simp: find_idx_Some in_set_conv_nth)
  moreover from this have "drop pos s = take j (drop pos s) @ c # drop (Suc j) (drop pos s)"
    by (metis id_take_nth_drop)
  ultimately show ?thesis using j by (simp add: add.commute)
qed

lemma two_dots:
  assumes "find_char dot 0 t = Some d1" and "find_char dot (d1 + 1) t = Some d2"
    and "find_char dot (d2 + 1) t = None"
  obtains a b c where "t = a @ dot # b @ dot # c" "dot \<notin> set a" "dot \<notin> set b" "dot \<notin> set c"
    "d1 = length a" "d2 = length a + 1 + length b"
proof
  let ?a = "take d1 t" and ?b = "take (d2 - (d1 + 1)) (drop (d1 + 1) t)" and ?c = "drop (d2 + 1) t"
  have d1: "t = ?a @ dot # drop (d1 + 1) t" "dot \<notin> set ?a" "d1 < length t"
    using find_char_split [OF assms(1)] find_char_bound [OF assms(1)] by simp_all
  have d2: "d1 + 1 \<le> d2" "t = take (d1 + 1) t @ ?b @ dot # ?c" "dot \<notin> set ?b" "d2 < length t"
    using find_char_split [OF assms(2)] find_char_bound [OF assms(2)] by simp_all
  show "dot \<notin> set ?a" "dot \<notin> set ?b" by (fact d1(2), fact d2(3))
  have "drop (d1 + 1) t = ?b @ dot # ?c"
    using arg_cong [OF d2(2), of "drop (d1 + 1)"] d1(3) by simp
  then show "t = ?a @ dot # ?b @ dot # ?c" using d1(1) by simp
  show "dot \<notin> set ?c" using assms(3) by (auto simp: find_char_def find_from_def)
  show "d1 = length ?a" "d2 = length ?a + 1 + length ?b" using d1(3) d2(1,4) by simp_all
qed

section \<open>The numbers of the payload\<close>

lemma payload_number_value:
  assumes "token = a @ dot # base64UrlEncode (pre @ key @ CHR '':'' # dec_nat n @ rest) @ dot # c"
    and "dot \<notin> set a" and "dot \<notin> set c"
    and "find_sub key (pre @ key @ CHR '':'' # dec_nat n @ rest) = Some (length pre)"
    and "CHR '':'' \<notin> set key" and "rest \<noteq> []" and "\<not> is_digit (hd rest)" and "n < 2 ^ 63"
  shows "payload_number key token = int n"
proof -
  let ?json = "pre @ key @ CHR '':'' # dec_nat n @ rest"
  have nodot: "dot \<notin> set (base64UrlEncode ?json)"
    using b64url.enc_chars [of dot ?json] by (auto simp: url_char_def to_url_def b64_table_def dot_def)
  note dots = split_dots [OF assms(2) nodot assms(3)]
  have colon: "find_char (CHR '':'') (length pre) ?json = Some (length pre + length key)"
    using find_char_hit [OF assms(5)] by simp
  have "takeWhile is_digit (dropWhile is_blank (dec_nat n @ rest)) = dec_nat n"
  proof -
    obtain d ds where d: "dec_nat n = d # ds" by (cases "dec_nat n") auto
    then have "\<not> is_blank d" using dec_nat_digits [of d n]
      by (auto simp: is_blank_def is_digit_def byte_def)
    moreover have "takeWhile is_digit (dec_nat n @ rest) = dec_nat n"
      using assms(6,7) dec_nat_digits by (cases rest) (auto simp: takeWhile_append2)
    ultimately show ?thesis using d by simp
  qed
  then have "stoll (takeWhile is_digit (dropWhile is_blank (drop (length pre + length key + 1) ?json)))
      = Some (int n)"
    using stoll_dec_nat [OF assms(8)] by simp
  then show ?thesis
    using dots(1,2,5) colon assms(4) b64url.dec_enc [of ?json]
    by (simp add: payload_number_def assms(1) Let_def)
qed

text \<open>Where the keys are in a payload that \<open>sign\<close> wrote.\<close>

definition payload_front :: string where
  "payload_front = ''{'' @ quoted ''sub'' @ '':'' @ quoted ''admin'' @ '',''"

definition payload_back :: "string \<Rightarrow> string" where
  "payload_back jti = '','' @ quoted ''jti'' @ '':'' @ quoted jti @ ''}''"

lemma jwt_payload_parts:
  "jwt_payload iat exp jti =
     payload_front @ quoted ''iat'' @ CHR '':'' # dec_int iat @ CHR '','' # quoted ''exp'' @ CHR '':''
       # dec_int exp @ payload_back jti"
  by (simp add: jwt_payload_def payload_front_def payload_back_def)

lemma find_iat:
  "find_sub (quoted ''iat'') (payload_front @ quoted ''iat'' @ CHR '':'' # r) = Some (length payload_front)"
  by (simp add: payload_front_def quoted_def)

lemma find_exp:
  assumes "\<forall>c\<in>set ds. is_digit c"
  shows "find_sub (quoted ''exp'')
     ((payload_front @ quoted ''iat'' @ CHR '':'' # ds @ '','') @ quoted ''exp'' @ CHR '':'' # r)
   = Some (length (payload_front @ quoted ''iat'' @ CHR '':'' # ds @ '',''))"
proof -
  have "CHR 0x22 \<notin> set ds" using assms by (auto simp: is_digit_def byte_def)
  then have "find_sub (quoted ''exp'') (ds @ CHR '','' # quoted ''exp'' @ CHR '':'' # r) = Some (length ds + 1)"
    unfolding quoted_def by (subst find_sub_skip) simp_all
  then show ?thesis by (simp add: payload_front_def quoted_def)
qed

lemma dec_int_nat: "0 \<le> i \<Longrightarrow> dec_int i = dec_nat (nat i)"
  by (simp add: dec_int_def)

lemma sign_shape:
  assumes "rnd = Some randomId"
  shows "jwt_sign hmac rnd now secret expire =
    base64UrlEncode jwt_header @ dot # base64UrlEncode (jwt_payload now (now + expire) (jti_of randomId))
    @ dot # base64UrlEncode (hmac secret (base64UrlEncode jwt_header @ dot #
        base64UrlEncode (jwt_payload now (now + expire) (jti_of randomId))))"
  by (simp add: jwt_sign_def assms Let_def)

lemma dot_not_url: "\<not> url_char dot"
  by (simp add: url_char_def to_url_def b64_table_def dot_def)

lemma dot_not_encoded: "dot \<notin> set (base64UrlEncode d)"
  using b64url.enc_chars dot_not_url by blast

lemma sign_numbers:
  assumes "rnd = Some randomId" and "0 \<le> now" and "0 \<le> now + expire"
    and "now < 2 ^ 63" and "now + expire < 2 ^ 63"
  shows "getExp (jwt_sign hmac rnd now secret expire) = now + expire"
    and "getIat (jwt_sign hmac rnd now secret expire) = now"
proof -
  let ?exp = "now + expire" and ?behind = "payload_back (jti_of randomId)"
  let ?front = "payload_front @ quoted ''iat'' @ CHR '':'' # dec_nat (nat now) @ '',''"
  have n: "nat now < 2 ^ 63" "nat ?exp < 2 ^ 63" using assms by (simp_all add: nat_less_iff)
  have tail: "?behind \<noteq> []" "\<not> is_digit (hd ?behind)" by (simp_all add: payload_back_def is_digit_def byte_def)
  have p1: "jwt_payload now ?exp (jti_of randomId)
      = ?front @ quoted ''exp'' @ CHR '':'' # dec_nat (nat ?exp) @ ?behind"
    using assms by (simp add: jwt_payload_parts dec_int_nat)
  have p2: "jwt_payload now ?exp (jti_of randomId)
      = payload_front @ quoted ''iat'' @ CHR '':'' # dec_nat (nat now)
        @ (CHR '','' # quoted ''exp'' @ CHR '':'' # dec_nat (nat ?exp) @ ?behind)"
    using assms by (simp add: jwt_payload_parts dec_int_nat)
  note shape = sign_shape [OF assms(1), of hmac now secret expire]
  have "payload_number (quoted ''exp'') (jwt_sign hmac rnd now secret expire) = int (nat ?exp)"
    by (rule payload_number_value [OF shape [unfolded p1] dot_not_encoded dot_not_encoded find_exp _ tail n(2)])
      (auto simp: dec_nat_digits quoted_def)
  then show "getExp (jwt_sign hmac rnd now secret expire) = ?exp"
    using assms by (simp add: getExp_def)
  have "payload_number (quoted ''iat'') (jwt_sign hmac rnd now secret expire) = int (nat now)"
    by (rule payload_number_value [OF shape [unfolded p2] dot_not_encoded dot_not_encoded find_iat _ _ _ n(1)])
      (auto simp: quoted_def is_digit_def byte_def)
  then show "getIat (jwt_sign hmac rnd now secret expire) = now"
    using assms by (simp add: getIat_def)
qed

section \<open>Properties\<close>

text \<open>What \<open>verify\<close> demands besides the signature.\<close>

definition jwt_current :: "JwtState \<Rightarrow> int \<Rightarrow> string \<Rightarrow> bool" where
  "jwt_current s now token =
     (getExp token \<noteq> 0 \<and> now < getExp token
      \<and> \<not> (0 < jwt_startTimeSeconds s \<and> 0 < getIat token \<and> getIat token < jwt_startTimeSeconds s)
      \<and> \<not> isRevoked token s)"

lemma jwt_verify_dots:
  assumes "dot \<notin> set a" and "dot \<notin> set b" and "dot \<notin> set c"
  shows "jwt_verify hmac s now (a @ dot # b @ dot # c) secret \<longleftrightarrow>
    c = base64UrlEncode (hmac secret (a @ dot # b)) \<and> jwt_current s now (a @ dot # b @ dot # c)"
  using split_dots [OF assms] by (auto simp: jwt_verify_def jwt_current_def Let_def)

text \<open>
  C26: A token is accepted exactly if it has three parts, its third part is the encoding of the HMAC of
  the first two under the secret, it is not expired, was not issued before the process started, and is
  not revoked.
\<close>

theorem jwt_verify_iff:
  "jwt_verify hmac s now token secret \<longleftrightarrow>
   (\<exists>a b. token = a @ dot # b @ dot # base64UrlEncode (hmac secret (a @ dot # b))
      \<and> dot \<notin> set a \<and> dot \<notin> set b) \<and> jwt_current s now token"
proof
  assume v: "jwt_verify hmac s now token secret"
  then obtain d1 d2 where d: "find_char dot 0 token = Some d1" "find_char dot (d1 + 1) token = Some d2"
    "find_char dot (d2 + 1) token = None"
    by (auto simp: jwt_verify_def split: option.splits if_splits)
  obtain a b c where abc: "token = a @ dot # b @ dot # c" "dot \<notin> set a"
    "dot \<notin> set b" "dot \<notin> set c" by (rule two_dots [OF d])
  then show "(\<exists>a b. token = a @ dot # b @ dot # base64UrlEncode (hmac secret (a @ dot # b))
      \<and> dot \<notin> set a \<and> dot \<notin> set b) \<and> jwt_current s now token"
    using v jwt_verify_dots [OF abc(2,3,4)] by auto
next
  assume "(\<exists>a b. token = a @ dot # b @ dot # base64UrlEncode (hmac secret (a @ dot # b))
      \<and> dot \<notin> set a \<and> dot \<notin> set b) \<and> jwt_current s now token"
  then show "jwt_verify hmac s now token secret"
    using jwt_verify_dots [OF _ _ dot_not_encoded] by auto
qed

text \<open>
  C27: A token that \<open>sign\<close> issued is accepted by \<open>verify\<close> with the same secret exactly until it expires,
  unless it was issued before the recorded start time or has been revoked; this goes through the whole
  path of JSON text, Base64 and decimal numbers.
\<close>

theorem jwt_sign_verify:
  assumes "rnd = Some randomId" and "0 \<le> issued" and "0 < issued + expireSeconds"
    and "issued < 2 ^ 63" and "issued + expireSeconds < 2 ^ 63"
  shows "jwt_verify hmac s now (jwt_sign hmac rnd issued secret expireSeconds) secret \<longleftrightarrow>
    now < issued + expireSeconds
    \<and> \<not> (0 < issued \<and> issued < jwt_startTimeSeconds s)
    \<and> \<not> isRevoked (jwt_sign hmac rnd issued secret expireSeconds) s"
proof -
  let ?token = "jwt_sign hmac rnd issued secret expireSeconds"
  have nums: "getExp ?token = issued + expireSeconds" "getIat ?token = issued"
    using sign_numbers [OF assms(1,2) less_imp_le [OF assms(3)] assms(4,5)] by auto
  have "jwt_verify hmac s now ?token secret \<longleftrightarrow> jwt_current s now ?token"
    using jwt_verify_dots [OF dot_not_encoded dot_not_encoded dot_not_encoded]
    by (simp add: sign_shape [OF assms(1)])
  then show ?thesis using nums assms(2,3) by (auto simp: jwt_current_def)
qed

lemma jwt_sign_verify_witness:
  "jwt_verify (\<lambda>k d. take 3 d) JwtState_initial 1005
     (jwt_sign (\<lambda>k d. take 3 d) (Some ''0123456789abcdef'') 1000 ''secret'' 10) ''secret''
   \<and> \<not> jwt_verify (\<lambda>k d. take 3 d) JwtState_initial 1010
     (jwt_sign (\<lambda>k d. take 3 d) (Some ''0123456789abcdef'') 1000 ''secret'' 10) ''secret''"
  using jwt_sign_verify [of "Some ''0123456789abcdef''" "''0123456789abcdef''" 1000 10 "\<lambda>k d. take 3 d"
      JwtState_initial _ "''secret''"]
  by (simp add: JwtState_initial_def isRevoked_def)

text \<open>
  C28: After \<open>revoke\<close> the token is rejected under every secret and at every time, the list does not exceed
  its limit, and an entry that disappeared had expired or was evicted from a full list, never before an
  entry that expires earlier.
\<close>

theorem jwt_revocation:
  assumes "s = jwt_run JwtState_initial ops" and "getExp token \<noteq> 0"
    and "s' = fst (revoke now token s)"
  shows "isRevoked token s' \<and> \<not> jwt_verify hmac s' now' token secret
    \<and> (jwt_maxEntries s \<le> 0 \<or> int (getBlacklistSize s') \<le> jwt_maxEntries s)
    \<and> (\<forall>e\<in>set (jwt_blacklist s) - set (jwt_blacklist s'). re_expireAt e \<le> now
         \<or> (jwt_maxEntries s \<le> int (length (drop_expired now (jwt_blacklist s)))
            \<and> (\<forall>k\<in>set (jwt_blacklist s') - {\<lparr>re_token = token, re_expireAt = getExp token\<rparr>}.
                 re_expireAt e \<le> re_expireAt k)))"
proof -
  have ok: "jwt_ok s" using jwt_run_ok [OF jwt_initial_ok] assms(1) by simp
  let ?es = "drop_expired now (jwt_blacklist s)" and ?m = "jwt_maxEntries s"
  let ?entry = "\<lparr>re_token = token, re_expireAt = getExp token\<rparr>"
  have s': "jwt_blacklist s' = entry_insert ?entry (evict ?m ?es)"
    using assms(2,3) by (simp add: revoke_def Let_def)
  have sorted: "sorted_entries (evict ?m ?es)" using ok evict_sorted drop_expired_sorted by blast
  have rev: "isRevoked token s'"
    using entry_find_iff [OF entry_insert_sorted [OF sorted]] entry_insert_token [of ?entry]
    by (simp add: isRevoked_def s')
  have size: "?m \<le> 0 \<or> int (getBlacklistSize s') \<le> ?m"
    using evict_length [of ?m ?es] entry_insert_length [of ?entry "evict ?m ?es"]
    by (simp add: getBlacklistSize_def s') linarith
  have gone: "re_expireAt e \<le> now \<or> (?m \<le> int (length ?es)
      \<and> (\<forall>k\<in>set (jwt_blacklist s') - {?entry}. re_expireAt e \<le> re_expireAt k))"
    if e: "e \<in> set (jwt_blacklist s)" "e \<notin> set (jwt_blacklist s')" for e
  proof (cases "re_expireAt e \<le> now")
    case False
    then have "e \<in> set ?es" using e(1) by (simp add: drop_expired_def)
    moreover have out: "e \<notin> set (evict ?m ?es)" using e(2) entry_insert_set s' by auto
    moreover have "set (jwt_blacklist s') - {?entry} \<subseteq> set (evict ?m ?es)"
      using entry_insert_set [of ?entry "evict ?m ?es"] s' by auto
    ultimately show ?thesis using evict_oldest_first [of e ?es ?m] evict_keeps [of ?m ?es] by auto
  qed simp
  show ?thesis using rev size gone jwt_verify_iff [of hmac s' now' token secret]
    by (auto simp: jwt_current_def)
qed

lemma jwt_revocation_witness:
  "let t = jwt_sign (\<lambda>k d. []) (Some ''r'') 1000 ''k'' 10; s = fst (revoke 1001 t JwtState_initial)
   in isRevoked t s \<and> getBlacklistSize s \<le> 1000"
proof -
  let ?t = "jwt_sign (\<lambda>k d. []) (Some ''r'') 1000 ''k'' 10"
  have e: "getExp ?t \<noteq> 0" using sign_numbers(1) [of "Some ''r''" "''r''" 1000 10 "\<lambda>k d. []" "''k''"] by simp
  show ?thesis
    using jwt_revocation [of JwtState_initial "[]" ?t _ 1001, OF _ e refl]
    by (simp add: Let_def JwtState_initial_def)
qed

end
