(* ===== verification/Password.thy ===== *)
theory Password imports Codec begin

unbundle bit_operations_syntax

text \<open>
  \<open>PasswordUtil\<close> (src/PasswordUtil.cpp): the stored form \<open>$pbkdf2-sha256$iterations$salt$hash\<close> and its
  verification.  \<open>RAND_bytes\<close> and \<open>PKCS5_PBKDF2_HMAC\<close> are arguments; \<open>None\<close> is their failure.  What
  the code relies on is that a derivation of \<open>n\<close> bytes fills \<open>n\<close> bytes.
\<close>

definition kDefaultIterations :: nat where "kDefaultIterations = 310000"
definition kSaltBytes :: nat where "kSaltBytes = 32"
definition kHashBytes :: nat where "kHashBytes = 32"

definition dollar :: char where "dollar = CHR ''$''"

definition pw_prefix :: string where "pw_prefix = ''$pbkdf2-sha256$''"

definition isHashed :: "string \<Rightarrow> bool" where
  "isHashed s = (15 < length s \<and> take 15 s = ''$pbkdf2-sha256$'')"

text \<open>The arguments of the derivation: password, salt, iterations, length.\<close>

type_synonym kdf = "string \<Rightarrow> string \<Rightarrow> int \<Rightarrow> nat \<Rightarrow> string option"

definition password_hash :: "kdf \<Rightarrow> string option \<Rightarrow> string \<Rightarrow> string" where
  "password_hash pbkdf2 rnd password =
     (case rnd of
        None \<Rightarrow> []
      | Some salt \<Rightarrow>
     (case pbkdf2 password salt (int kDefaultIterations) kHashBytes of
        None \<Rightarrow> []
      | Some derived \<Rightarrow>
          ''$pbkdf2-sha256$'' @ dec_nat kDefaultIterations @ ''$'' @ base64Encode salt @ ''$''
          @ base64Encode derived))"

text \<open>The loop of the constant-time comparison.\<close>

definition byte_diff :: "string \<Rightarrow> string \<Rightarrow> nat" where
  "byte_diff xs ys = foldl (\<lambda>diff (x, y). diff OR (byte x XOR byte y)) 0 (zip xs ys)"

definition password_verify :: "kdf \<Rightarrow> string \<Rightarrow> string \<Rightarrow> bool" where
  "password_verify pbkdf2 password encoded =
     (if \<not> isHashed encoded then False
      else
     (let rest = drop (length pw_prefix) encoded
      in case find_char dollar 0 rest of
        None \<Rightarrow> False
      | Some d1 \<Rightarrow>
     (case find_char dollar (d1 + 1) rest of
        None \<Rightarrow> False
      | Some d2 \<Rightarrow>
     (case stoi (substr 0 d1 rest) of
        None \<Rightarrow> False
      | Some iterations \<Rightarrow>
        if iterations \<le> 0 then False
        else
       (let saltB64 = substr (d1 + 1) (d2 - d1 - 1) rest;
            hashB64 = drop (d2 + 1) rest;
            saltRaw = base64Decode saltB64;
            hashExpected = base64Decode hashB64
        in if saltRaw = [] \<or> hashExpected = [] then False
           else
          (let hashLen = length hashExpected
           in case pbkdf2 password saltRaw iterations hashLen of
                None \<Rightarrow> False
              | Some derived \<Rightarrow>
                  if length hashExpected \<noteq> hashLen then False
                  else byte_diff derived hashExpected = 0))))))"

section \<open>The comparison\<close>

lemma or_zero_iff: "(a OR b :: nat) = 0 \<longleftrightarrow> a = 0 \<and> b = 0"
  by (auto simp: or_eq_0_iff)

lemma byte_diff_step:
  "foldl (\<lambda>diff (x, y). diff OR (byte x XOR byte y)) d zs = 0 \<longleftrightarrow>
   d = 0 \<and> (\<forall>(x, y)\<in>set zs. x = y)"
proof (induction zs arbitrary: d)
  case (Cons z zs)
  obtain x y where z: "z = (x, y)" by (cases z)
  have "byte x XOR byte y = 0 \<longleftrightarrow> x = y" by (auto simp: bit_eq_iff bit_xor_iff byte_eq_iff [symmetric])
  then show ?case using Cons by (simp add: z or_zero_iff)
qed simp

lemma byte_diff_iff: "length xs = length ys \<Longrightarrow> byte_diff xs ys = 0 \<longleftrightarrow> xs = ys"
  unfolding byte_diff_def byte_diff_step by (auto simp: list_eq_iff_zip_eq set_zip)

section \<open>The fields\<close>

text \<open>Every place that the stored form is put together uses these pieces.\<close>

definition stored :: "nat \<Rightarrow> string \<Rightarrow> string \<Rightarrow> string" where
  "stored n salt derived =
     pw_prefix @ dec_nat n @ dollar # base64Encode salt @ dollar # base64Encode derived"

lemma stored_fields:
  fixes n salt derived
  defines "rest \<equiv> dec_nat n @ dollar # base64Encode salt @ dollar # base64Encode derived"
  shows "find_char dollar 0 rest = Some (length (dec_nat n))"
    and "find_char dollar (length (dec_nat n) + 1) rest
      = Some (length (dec_nat n) + 1 + length (base64Encode salt))"
    and "substr 0 (length (dec_nat n)) rest = dec_nat n"
    and "substr (length (dec_nat n) + 1)
      (length (dec_nat n) + 1 + length (base64Encode salt) - length (dec_nat n) - 1) rest = base64Encode salt"
    and "drop (length (dec_nat n) + 1 + length (base64Encode salt) + 1) rest = base64Encode derived"
proof -
  have nodollar: "\<not> b64_char dollar" by (simp add: b64_char_def b64_table_def dollar_def)
  have "dollar \<notin> set (dec_nat n)"
    using dec_nat_digits [of dollar n] by (auto simp: dollar_def is_digit_def byte_def)
  then show "find_char dollar 0 rest = Some (length (dec_nat n))"
    by (simp add: rest_def find_char_hit0)
  show "find_char dollar (length (dec_nat n) + 1) rest
      = Some (length (dec_nat n) + 1 + length (base64Encode salt))"
    using b64.separator_after [OF nodollar, of "dec_nat n @ [dollar]" salt "base64Encode derived"]
    by (simp add: rest_def)
qed (simp_all add: rest_def substr_def)

lemma verify_stored:
  assumes "0 < n" and "n < 2 ^ 31" and "salt \<noteq> []" and "derived \<noteq> []"
  shows "password_verify pbkdf2 password (stored n salt derived) \<longleftrightarrow>
    (case pbkdf2 password salt (int n) (length derived) of
       None \<Rightarrow> False | Some d \<Rightarrow> byte_diff d derived = 0)"
proof -
  have hashed: "isHashed (stored n salt derived)"
    by (simp add: isHashed_def stored_def pw_prefix_def)
  have rest: "drop (length pw_prefix) (stored n salt derived)
      = dec_nat n @ dollar # base64Encode salt @ dollar # base64Encode derived"
    by (simp add: stored_def)
  have "password_verify pbkdf2 password (stored n salt derived) =
    (case stoi (dec_nat n) of
        None \<Rightarrow> False
      | Some iterations \<Rightarrow>
        if iterations \<le> 0 then False
        else if base64Decode (base64Encode salt) = [] \<or> base64Decode (base64Encode derived) = [] then False
        else (case pbkdf2 password (base64Decode (base64Encode salt)) iterations
                (length (base64Decode (base64Encode derived))) of
                None \<Rightarrow> False
              | Some d \<Rightarrow> byte_diff d (base64Decode (base64Encode derived)) = 0))"
    unfolding password_verify_def Let_def rest stored_fields option.case
    by (simp only: hashed if_False not_True_eq_False simp_thms refl split: option.split)
  then show ?thesis using assms stoi_dec_nat by (simp add: b64.dec_enc split: option.splits)
qed

section \<open>Properties\<close>

text \<open>
  What \<open>hash\<close> stores for a password is recognised by \<open>isHashed\<close>, and \<open>verify\<close> accepts a password
  against it exactly if the derivation with the stored salt gives the stored bytes; so the password
  itself is accepted.
\<close>

theorem password_hash_verify:
  assumes "length salt = kSaltBytes"
    and "\<forall>p s i n d. pbkdf2 p s i n = Some d \<longrightarrow> length d = n"
    and "pbkdf2 password salt 310000 32 = Some derived"
  shows "isHashed (password_hash pbkdf2 (Some salt) password)
    \<and> (password_verify pbkdf2 candidate (password_hash pbkdf2 (Some salt) password)
         \<longleftrightarrow> pbkdf2 candidate salt 310000 32 = Some derived)"
proof -
  have hash: "password_hash pbkdf2 (Some salt) password = stored 310000 salt derived"
    using assms(3)
    by (simp add: password_hash_def stored_def kDefaultIterations_def kHashBytes_def pw_prefix_def dollar_def)
  have len: "length derived = 32" using assms(2,3) by blast
  have "salt \<noteq> []" "derived \<noteq> []" using assms(1) len by (auto simp: kSaltBytes_def)
  then have "password_verify pbkdf2 candidate (stored 310000 salt derived) \<longleftrightarrow>
    (case pbkdf2 candidate salt 310000 32 of None \<Rightarrow> False | Some d \<Rightarrow> byte_diff d derived = 0)"
    using verify_stored [of 310000 salt derived pbkdf2 candidate] len by simp
  also have "\<dots> \<longleftrightarrow> pbkdf2 candidate salt 310000 32 = Some derived"
    using assms(2) len byte_diff_iff [of _ derived] by (auto split: option.splits)
  finally have v: "password_verify pbkdf2 candidate (stored 310000 salt derived)
    \<longleftrightarrow> pbkdf2 candidate salt 310000 32 = Some derived" .
  show ?thesis unfolding hash using v by (simp add: isHashed_def stored_def pw_prefix_def)
qed

text \<open>A derivation that pads or cuts its input, as an instance.\<close>

definition toy_kdf :: kdf where
  "toy_kdf p s i n = Some (take n (p @ s @ replicate n (CHR ''x'')))"

lemma password_hash_verify_witness:
  "password_verify toy_kdf ''pw'' (password_hash toy_kdf (Some (replicate 32 (CHR ''s''))) ''pw'')
   \<and> \<not> password_verify toy_kdf ''px'' (password_hash toy_kdf (Some (replicate 32 (CHR ''s''))) ''pw'')"
proof -
  let ?salt = "replicate 32 (CHR ''s'')"
  have len: "\<forall>p s i n d. toy_kdf p s i n = Some d \<longrightarrow> length d = n" by (auto simp: toy_kdf_def)
  have salt: "length ?salt = kSaltBytes" by (simp add: kSaltBytes_def)
  obtain d where d: "toy_kdf ''pw'' ?salt 310000 32 = Some d" by (simp add: toy_kdf_def)
  moreover have "toy_kdf ''px'' ?salt 310000 32 \<noteq> Some d"
    using d by (auto simp: toy_kdf_def)
  ultimately show ?thesis
    using password_hash_verify [OF salt len d] by simp
qed

end
