(* ===== verification/Ids.thy ===== *)
theory Ids imports Prelude "HOL-Library.Signed_Division" begin

unbundle bit_operations_syntax

text \<open>
  \<open>SnowflakeGenerator\<close> and \<open>IdUtil\<close> (src/IdUtil.cpp) and \<open>isSafeId\<close>
  (include/intertwine/fw/IdUtil.hpp).  The successive readings of the system clock are a function of
  the number of the reading; the generator of UUIDs, the host name, the MAC address and the thread id
  are arguments.
\<close>

section \<open>The generator\<close>

definition snow_EPOCH :: int where "snow_EPOCH = 946684800000"
definition MAX_SEQUENCE :: int where "MAX_SEQUENCE = 4095"
definition MAX_WORKER_ID :: int where "MAX_WORKER_ID = 31"
definition MAX_DATACENTER_ID :: int where "MAX_DATACENTER_ID = 31"
definition WORKER_ID_SHIFT :: nat where "WORKER_ID_SHIFT = 12"
definition DATACENTER_ID_SHIFT :: nat where "DATACENTER_ID_SHIFT = 17"
definition TIMESTAMP_SHIFT :: nat where "TIMESTAMP_SHIFT = 22"

lemmas snow_consts = snow_EPOCH_def MAX_SEQUENCE_def MAX_WORKER_ID_def MAX_DATACENTER_ID_def
  WORKER_ID_SHIFT_def DATACENTER_ID_SHIFT_def TIMESTAMP_SHIFT_def

record SnowflakeGenerator =
  sg_datacenterId :: int
  sg_workerId :: int
  sg_sequence :: int
  sg_lastTimestamp :: int

text \<open>The exception of the constructor is \<open>Inl\<close>.\<close>

definition SnowflakeGenerator_ctor :: "int \<Rightarrow> int \<Rightarrow> string + SnowflakeGenerator" where
  "SnowflakeGenerator_ctor datacenterId workerId =
     (if MAX_DATACENTER_ID < datacenterId \<or> datacenterId < 0
      then Inl ''datacenterId must be between 0 and 31''
      else if MAX_WORKER_ID < workerId \<or> workerId < 0
      then Inl ''workerId must be between 0 and 31''
      else Inr \<lparr>sg_datacenterId = datacenterId, sg_workerId = workerId, sg_sequence = 0,
                sg_lastTimestamp = -1\<rparr>)"

text \<open>
  The loop that waits for the next millisecond, with the number of readings left of the five; the
  result \<open>None\<close> is the early return when the clock moved backwards.
\<close>

fun await_next :: "(nat \<Rightarrow> int) \<Rightarrow> int \<Rightarrow> nat \<Rightarrow> int \<Rightarrow> nat \<Rightarrow> int option \<times> nat" where
  "await_next clock lastTs k timestamp 0 = (Some timestamp, k)"
| "await_next clock lastTs k timestamp (Suc left) =
     (if timestamp \<le> lastTs then
        (let timestamp' = clock k
         in if timestamp' < lastTs then (None, k + 1)
            else await_next clock lastTs (k + 1) timestamp' left)
      else (Some timestamp, k))"

definition compose_id :: "int \<Rightarrow> SnowflakeGenerator \<Rightarrow> int" where
  "compose_id timestamp g =
     signed_take_bit 63
       (push_bit TIMESTAMP_SHIFT (timestamp - snow_EPOCH)
        OR push_bit DATACENTER_ID_SHIFT (sg_datacenterId g)
        OR push_bit WORKER_ID_SHIFT (sg_workerId g)
        OR sg_sequence g)"

text \<open>\<open>k\<close> is the number of the next clock reading.\<close>

definition nextId :: "(nat \<Rightarrow> int) \<Rightarrow> nat \<Rightarrow> SnowflakeGenerator \<Rightarrow> int \<times> SnowflakeGenerator \<times> nat" where
  "nextId clock k g =
     (let timestamp = clock k
      in if timestamp = sg_lastTimestamp g then
           (let g1 = g\<lparr>sg_sequence := (sg_sequence g + 1) AND MAX_SEQUENCE\<rparr>
            in if sg_sequence g1 = 0 then
                 (case await_next clock (sg_lastTimestamp g1) (k + 1) timestamp 5 of
                    (None, k') \<Rightarrow> (0, g1, k')
                  | (Some timestamp', k') \<Rightarrow>
                      if timestamp' \<le> sg_lastTimestamp g1 then (0, g1, k')
                      else (let g2 = g1\<lparr>sg_lastTimestamp := timestamp'\<rparr>
                            in (compose_id timestamp' g2, g2, k')))
               else (let g2 = g1\<lparr>sg_lastTimestamp := timestamp\<rparr> in (compose_id timestamp g2, g2, k + 1)))
         else
           (let g2 = g\<lparr>sg_sequence := 0, sg_lastTimestamp := timestamp\<rparr>
            in (compose_id timestamp g2, g2, k + 1)))"

definition nextIdStr :: "(nat \<Rightarrow> int) \<Rightarrow> nat \<Rightarrow> SnowflakeGenerator \<Rightarrow> string \<times> SnowflakeGenerator \<times> nat" where
  "nextIdStr clock k g = (let (i, g', k') = nextId clock k g in (dec_int i, g', k'))"

section \<open>\<open>IdUtil\<close>\<close>

text \<open>A \<open>char\<close> converted to \<open>size_t\<close>; \<open>char\<close> is signed on the x86 targets of the build.\<close>

definition size_of_char :: "char \<Rightarrow> size_t" where
  "size_of_char c = (if byte c < 128 then of_nat (byte c) else of_nat (byte c) - 256)"

definition hash31 :: "string \<Rightarrow> size_t" where
  "hash31 s = foldl (\<lambda>hash c. hash * 31 + size_of_char c) 0 s"

text \<open>
  The search for the address of a network interface, over the list that \<open>getifaddrs\<close> gives; the bytes of
  the address are \<open>unsigned char\<close>.
\<close>

record net_interface =
  nif_name :: string
  nif_packet :: bool                    \<comment> \<open>there is an address, of the family \<open>AF_PACKET\<close>\<close>
  nif_addr :: "nat list"
  nif_halen :: nat

fun find_mac :: "net_interface list \<Rightarrow> nat list option" where
  "find_mac [] = None"
| "find_mac (n # rest) =
     (if \<not> nif_packet n then find_mac rest
      else if nif_name n = ''lo'' then find_mac rest
      else if list_ex (\<lambda>b. b \<noteq> 0) (take 6 (nif_addr n)) \<and> nif_halen n = 6 then Some (take 6 (nif_addr n))
      else find_mac rest)"

lemma find_mac_found:
  "find_mac ns = Some mac \<Longrightarrow> \<exists>n\<in>set ns. nif_packet n \<and> nif_name n \<noteq> ''lo'' \<and> mac = take 6 (nif_addr n)
     \<and> list_ex (\<lambda>b. b \<noteq> 0) mac"
  by (induction ns) (auto split: if_splits)

text \<open>
  The same search as built for Windows: the adapters that \<open>GetAdaptersAddresses\<close> puts into a buffer of 16 KB,
  or of the size it asks for when it does not fit.  The argument \<open>api\<close> gives, for the size of a buffer, the
  result, the adapters and the size that \<open>bufLen\<close> has after the call.
\<close>

datatype adapters_result = NO_ERROR | ERROR_BUFFER_OVERFLOW | OTHER_ERROR

record ip_adapter =
  ad_loopback :: bool                   \<comment> \<open>\<open>IfType == IF_TYPE_SOFTWARE_LOOPBACK\<close>\<close>
  ad_length :: nat                      \<comment> \<open>\<open>PhysicalAddressLength\<close>\<close>
  ad_addr :: "nat list"

fun find_adapter :: "ip_adapter list \<Rightarrow> nat list option" where
  "find_adapter [] = None"
| "find_adapter (a # rest) =
     (if ad_loopback a then find_adapter rest
      else if ad_length a \<noteq> 6 then find_adapter rest
      else if list_all (\<lambda>b. b = 0) (take 6 (ad_addr a)) then find_adapter rest
      else Some (take 6 (ad_addr a)))"

definition windows_mac :: "(nat \<Rightarrow> adapters_result \<times> ip_adapter list \<times> nat) \<Rightarrow> nat list option" where
  "windows_mac api =
     (let (ret, buf, bufLen) = api (16 * 1024);
          (ret, buf) = (if ret = ERROR_BUFFER_OVERFLOW then (case api bufLen of (ret, buf, _) \<Rightarrow> (ret, buf)) else (ret, buf))
      in if ret = NO_ERROR then find_adapter buf else None)"

text \<open>
  Both searches find the same address when both systems list the same interfaces: those with a link
  address of six bytes, the loopback interface being the one called \<open>lo\<close>.
\<close>

definition as_adapter :: "net_interface \<Rightarrow> ip_adapter" where
  "as_adapter n = \<lparr>ad_loopback = (nif_name n = ''lo''), ad_length = nif_halen n, ad_addr = nif_addr n\<rparr>"

lemma find_adapter_mac: "find_adapter (map as_adapter (filter nif_packet ns)) = find_mac ns"
  by (induction ns) (auto simp: as_adapter_def list_ex_iff list_all_iff)

text \<open>\<open>None\<close> when no interface was found.\<close>

definition getHostMacHash :: "string \<Rightarrow> nat list option \<Rightarrow> int" where
  "getHostMacHash hostname mac =
     (let hash = hash31 (c_str hostname);
          hash' = (case mac of
                     None \<Rightarrow> hash
                   | Some macAddr \<Rightarrow> foldl (\<lambda>hash b. hash * 256 + of_nat b) hash macAddr)
      in sint hash')"

record SnowConfig =
  sc_customDatacenterId :: int
  sc_customWorkerId :: int

definition SnowConfig_initial :: SnowConfig where
  "SnowConfig_initial = \<lparr>sc_customDatacenterId = -1, sc_customWorkerId = -1\<rparr>"

definition initSnowflake :: "int \<Rightarrow> int \<Rightarrow> SnowConfig \<Rightarrow> SnowConfig" where
  "initSnowflake datacenterId workerId c =
     c\<lparr>sc_customDatacenterId := datacenterId, sc_customWorkerId := workerId\<rparr>"

text \<open>The two numbers of a thread's generator; \<open>%\<close> truncates towards zero.\<close>

definition snowflake_datacenterId :: "SnowConfig \<Rightarrow> string \<Rightarrow> nat list option \<Rightarrow> int" where
  "snowflake_datacenterId c hostname mac =
     (if 0 \<le> sc_customDatacenterId c then sc_customDatacenterId c smod 32
      else getHostMacHash hostname mac smod 32)"

definition snowflake_workerId :: "SnowConfig \<Rightarrow> string \<Rightarrow> int" where
  "snowflake_workerId c tidStr =
     (if 0 \<le> sc_customWorkerId c then sc_customWorkerId c smod 32 else sint (hash31 tidStr mod 32))"

text \<open>\<open>gen\<close> is the thread's own generator.\<close>

definition generateSnowflakeId ::
  "SnowConfig \<Rightarrow> string \<Rightarrow> nat list option \<Rightarrow> string \<Rightarrow> (nat \<Rightarrow> int) \<Rightarrow> nat \<Rightarrow> SnowflakeGenerator option \<Rightarrow>
   string + (int \<times> SnowflakeGenerator \<times> nat)" where
  "generateSnowflakeId c hostname mac tidStr clock k gen =
     (case gen of
        Some g \<Rightarrow> Inr (nextId clock k g)
      | None \<Rightarrow>
          (case SnowflakeGenerator_ctor (snowflake_datacenterId c hostname mac) (snowflake_workerId c tidStr) of
             Inl e \<Rightarrow> Inl e
           | Inr g \<Rightarrow> Inr (nextId clock k g)))"

definition generateSnowflakeIdStr ::
  "SnowConfig \<Rightarrow> string \<Rightarrow> nat list option \<Rightarrow> string \<Rightarrow> (nat \<Rightarrow> int) \<Rightarrow> nat \<Rightarrow> SnowflakeGenerator option \<Rightarrow>
   string + string" where
  "generateSnowflakeIdStr c hostname mac tidStr clock k gen =
     (case generateSnowflakeId c hostname mac tidStr clock k gen of
        Inl e \<Rightarrow> Inl e
      | Inr (i, g, k') \<Rightarrow> Inr (dec_int i))"

definition generateTimedV4 :: "int \<Rightarrow> string \<Rightarrow> string" where
  "generateTimedV4 us uuid = dec_int us @ ''-'' @ uuid"

definition isSafeId :: "string \<Rightarrow> bool" where
  "isSafeId s =
     (if s = [] \<or> 64 < length s then False
      else list_all (\<lambda>c. (97 \<le> byte c \<and> byte c \<le> 122) \<or> (65 \<le> byte c \<and> byte c \<le> 90)
                       \<or> (48 \<le> byte c \<and> byte c \<le> 57) \<or> c = CHR ''-'') s)"

section \<open>The fields of an id\<close>

lemma push_or_int:
  assumes "0 \<le> b" and "b < 2 ^ k"
  shows "push_bit k a OR b = 2 ^ k * a + (b::int)"
proof -
  have "take_bit k b = b" using assms by (simp add: take_bit_int_eq_self)
  then have "bit b n \<Longrightarrow> n < k" for n by (metis bit_take_bit_iff)
  then have "\<not> bit (push_bit k a) n \<or> \<not> bit b n" for n by (fastforce simp: bit_push_bit_iff)
  then have "push_bit k a AND b = 0" by (auto simp: bit_eq_iff bit_and_iff)
  then show ?thesis by (subst disjunctive_add_eq_or [symmetric]) (auto simp: push_bit_eq_mult)
qed

definition snow_ok :: "SnowflakeGenerator \<Rightarrow> bool" where
  "snow_ok g = (0 \<le> sg_datacenterId g \<and> sg_datacenterId g \<le> 31 \<and> 0 \<le> sg_workerId g
     \<and> sg_workerId g \<le> 31 \<and> 0 \<le> sg_sequence g \<and> sg_sequence g \<le> 4095)"

text \<open>The times whose difference to the epoch has 41 bits: until the year 2069.\<close>

definition in_era :: "int \<Rightarrow> bool" where
  "in_era t = (snow_EPOCH < t \<and> t < snow_EPOCH + 2 ^ 41)"

lemma compose_id_value:
  assumes "snow_ok g" and "in_era t"
  shows "compose_id t g = (t - snow_EPOCH) * 4194304 + sg_datacenterId g * 131072
    + sg_workerId g * 4096 + sg_sequence g"
proof -
  let ?d = "sg_datacenterId g" and ?w = "sg_workerId g" and ?s = "sg_sequence g"
  have b: "0 \<le> ?d" "?d \<le> 31" "0 \<le> ?w" "?w \<le> 31" "0 \<le> ?s" "?s \<le> 4095"
    using assms(1) by (auto simp: snow_ok_def)
  have t: "0 < t - snow_EPOCH" "t - snow_EPOCH < 2199023255552" using assms(2) by (auto simp: in_era_def)
  have "push_bit 12 ?w OR ?s = 4096 * ?w + ?s" using push_or_int [of ?s 12 ?w] b by simp
  moreover have "push_bit 17 ?d OR (4096 * ?w + ?s) = 131072 * ?d + (4096 * ?w + ?s)"
    using push_or_int [of "4096 * ?w + ?s" 17 ?d] b by simp
  moreover have "push_bit 22 (t - snow_EPOCH) OR (131072 * ?d + (4096 * ?w + ?s))
      = 4194304 * (t - snow_EPOCH) + (131072 * ?d + (4096 * ?w + ?s))"
    using push_or_int [of "131072 * ?d + (4096 * ?w + ?s)" 22 "t - snow_EPOCH"] b by simp
  moreover have "signed_take_bit 63 (4194304 * (t - snow_EPOCH) + (131072 * ?d + (4096 * ?w + ?s)))
      = 4194304 * (t - snow_EPOCH) + (131072 * ?d + (4096 * ?w + ?s))"
    using b t by (intro signed_take_bit_int_eq_self) simp_all
  ultimately show ?thesis
    by (simp add: compose_id_def TIMESTAMP_SHIFT_def DATACENTER_ID_SHIFT_def WORKER_ID_SHIFT_def or.assoc)
qed

section \<open>Order of the ids\<close>

text \<open>What a successful call does: the pair of time and sequence number grows.\<close>

definition advances :: "SnowflakeGenerator \<Rightarrow> SnowflakeGenerator \<Rightarrow> bool" where
  "advances g g' =
     (sg_datacenterId g' = sg_datacenterId g \<and> sg_workerId g' = sg_workerId g
      \<and> (sg_lastTimestamp g < sg_lastTimestamp g'
         \<or> (sg_lastTimestamp g' = sg_lastTimestamp g \<and> sg_sequence g < sg_sequence g')))"

lemma await_next_later:
  assumes "await_next clock lastTs k t n = (r, k')"
  shows "k \<le> k' \<and> (\<forall>t'. r = Some t' \<longrightarrow> t' = t \<or> (\<exists>i. k \<le> i \<and> i < k' \<and> t' = clock i))"
  using assms(1)
proof (induction clock lastTs k t n rule: await_next.induct)
  case (2 clock lastTs k t left)
  show ?case
  proof (cases "t \<le> lastTs \<and> \<not> clock k < lastTs")
    case True
    then have "await_next clock lastTs (k + 1) (clock k) left = (r, k')" using "2.prems" by (simp add: Let_def)
    then have "k + 1 \<le> k' \<and> (\<forall>t'. r = Some t' \<longrightarrow> t' = clock k \<or> (\<exists>i. k + 1 \<le> i \<and> i < k' \<and> t' = clock i))"
      using "2.IH" True by blast
    then show ?thesis by (metis Suc_eq_plus1 Suc_leD Suc_le_lessD le_refl)
  next
    case False
    then show ?thesis using "2.prems" by (auto simp: Let_def split: if_splits)
  qed
qed auto

lemma sequence_bounds: "0 \<le> (x AND MAX_SEQUENCE) \<and> (x AND MAX_SEQUENCE) \<le> 4095"
  using AND_upper2 [of 4095 x] by (simp add: MAX_SEQUENCE_def and_nonnegative_int_iff)

lemma sequence_next: "0 \<le> s \<Longrightarrow> s < 4095 \<Longrightarrow> (s + 1) AND MAX_SEQUENCE = s + 1"
proof -
  assume "0 \<le> s" "s < 4095"
  moreover have "(s + 1) AND 4095 = (s + 1) mod 4096"
    using take_bit_eq_mask [of 12 "s + 1"] by (simp add: mask_eq_exp_minus_1 take_bit_eq_mod)
  ultimately show ?thesis by (simp add: MAX_SEQUENCE_def)
qed

lemma sequence_wrap: "4095 + 1 AND MAX_SEQUENCE = 0"
  by (simp add: MAX_SEQUENCE_def)

lemma nextId_ok: "snow_ok g \<Longrightarrow> snow_ok (fst (snd (nextId clock k g)))"
  using sequence_bounds
  by (auto simp: nextId_def snow_ok_def Let_def split: prod.splits option.splits)

lemma nextId_advances:
  assumes "nextId clock k g = (i, g', k')" and "snow_ok g" and "sg_lastTimestamp g \<le> clock k"
  shows "k < k' \<and>
    (i = 0 \<or> (i = compose_id (sg_lastTimestamp g') g' \<and> advances g g'
        \<and> (\<exists>j. k \<le> j \<and> j < k' \<and> sg_lastTimestamp g' = clock j)))"
proof (cases "clock k = sg_lastTimestamp g")
  case False
  then show ?thesis using assms by (auto simp: nextId_def Let_def advances_def)
next
  case same: True
  let ?g1 = "g\<lparr>sg_sequence := (sg_sequence g + 1) AND MAX_SEQUENCE\<rparr>"
  show ?thesis
  proof (cases "sg_sequence ?g1 = 0")
    case False
    then have "sg_sequence g < 4095"
      using assms(2) sequence_wrap by (cases "sg_sequence g = 4095") (auto simp: snow_ok_def)
    then have "sg_sequence ?g1 = sg_sequence g + 1"
      using sequence_next assms(2) by (simp add: snow_ok_def)
    then show ?thesis using assms same False by (auto simp: nextId_def Let_def advances_def)
  next
    case True
    obtain r j where aw: "await_next clock (sg_lastTimestamp g) (k + 1) (clock k) 5 = (r, j)" by fastforce
    have later: "k + 1 \<le> j" "\<And>t'. r = Some t' \<Longrightarrow> t' = clock k \<or> (\<exists>i. k + 1 \<le> i \<and> i < j \<and> t' = clock i)"
      using await_next_later [OF aw] by auto
    show ?thesis
      using assms(1) True same aw later
      by (cases r) (auto simp: nextId_def Let_def advances_def split: if_splits, (metis Suc_leD)+)
  qed
qed

fun snow_run :: "(nat \<Rightarrow> int) \<Rightarrow> nat \<Rightarrow> SnowflakeGenerator \<Rightarrow> nat \<Rightarrow> int list \<times> SnowflakeGenerator \<times> nat" where
  "snow_run clock k g 0 = ([], g, k)"
| "snow_run clock k g (Suc n) =
     (let (i, g1, k1) = nextId clock k g; (is, g2, k2) = snow_run clock k1 g1 n in (i # is, g2, k2))"

lemma compose_id_less:
  assumes "advances g g'" and "snow_ok g" and "snow_ok g'"
    and "in_era (sg_lastTimestamp g)" and "in_era (sg_lastTimestamp g')"
  shows "compose_id (sg_lastTimestamp g) g < compose_id (sg_lastTimestamp g') g'"
proof -
  have v: "compose_id (sg_lastTimestamp g) g = (sg_lastTimestamp g - snow_EPOCH) * 4194304
      + sg_datacenterId g * 131072 + sg_workerId g * 4096 + sg_sequence g"
    "compose_id (sg_lastTimestamp g') g' = (sg_lastTimestamp g' - snow_EPOCH) * 4194304
      + sg_datacenterId g * 131072 + sg_workerId g * 4096 + sg_sequence g'"
    using compose_id_value assms by (simp_all add: advances_def)
  have s: "0 \<le> sg_sequence g'" "sg_sequence g \<le> 4095" using assms(2,3) by (auto simp: snow_ok_def)
  show ?thesis
  proof (cases "sg_lastTimestamp g < sg_lastTimestamp g'")
    case True
    then have "(sg_lastTimestamp g - snow_EPOCH) * 4194304 + 4194304 \<le> (sg_lastTimestamp g' - snow_EPOCH) * 4194304"
      by simp
    then show ?thesis using v s by linarith
  next
    case False
    then show ?thesis using v assms(1) by (auto simp: advances_def)
  qed
qed

lemma snow_run_sorted:
  assumes "snow_run clock k g n = (is, g', k')" and "snow_ok g"
    and "in_era (sg_lastTimestamp g)" and "sg_lastTimestamp g \<le> clock k"
    and "\<forall>i j. k \<le> i \<and> i \<le> j \<longrightarrow> clock i \<le> clock j"
    and "\<forall>j. in_era (clock j)" and "0 \<notin> set is"
  shows "sorted_wrt (<) (compose_id (sg_lastTimestamp g) g # is)"
  using assms
proof (induction n arbitrary: k g "is")
  case 0
  then show ?case by simp
next
  case (Suc n)
  obtain i g1 k1 where nx: "nextId clock k g = (i, g1, k1)" by (cases "nextId clock k g") auto
  obtain is1 where run: "snow_run clock k1 g1 n = (is1, g', k')" and "is": "is = i # is1"
    using Suc.prems(1) nx by (auto simp: Let_def split: prod.splits)
  have adv: "k < k1" "i = compose_id (sg_lastTimestamp g1) g1" "advances g g1"
    "\<exists>j. k \<le> j \<and> j < k1 \<and> sg_lastTimestamp g1 = clock j"
    using nextId_advances [OF nx Suc.prems(2,4)] Suc.prems(7) "is" by auto
  have ok: "snow_ok g1" using nextId_ok [OF Suc.prems(2), of clock k] nx by simp
  have era: "in_era (sg_lastTimestamp g1)" using adv(4) Suc.prems(6) by auto
  have "sg_lastTimestamp g1 \<le> clock k1" using adv(4) Suc.prems(5) by (metis less_imp_le)
  then have "sorted_wrt (<) (compose_id (sg_lastTimestamp g1) g1 # is1)"
    using Suc.IH [OF run ok era] Suc.prems(5,6,7) adv(1) "is" by auto
  then show ?case
    using compose_id_less [OF adv(3) Suc.prems(2) ok Suc.prems(3) era] adv(2) "is"
    by (auto intro: less_trans)
qed

lemma snow_run_fields:
  assumes "snow_run clock k g n = (is, g', k')" and "snow_ok g" and "sg_lastTimestamp g \<le> clock k"
    and "\<forall>i j. k \<le> i \<and> i \<le> j \<longrightarrow> clock i \<le> clock j"
    and "\<forall>j. in_era (clock j)" and "0 \<notin> set is"
  shows "\<forall>i\<in>set is. \<exists>t h. in_era t \<and> snow_ok h \<and> sg_datacenterId h = sg_datacenterId g
    \<and> sg_workerId h = sg_workerId g \<and> i = compose_id t h"
  using assms
proof (induction n arbitrary: k g "is")
  case 0
  then show ?case by simp
next
  case (Suc n)
  obtain i g1 k1 where nx: "nextId clock k g = (i, g1, k1)" by (cases "nextId clock k g") auto
  obtain is1 where run: "snow_run clock k1 g1 n = (is1, g', k')" and "is": "is = i # is1"
    using Suc.prems(1) nx by (auto simp: Let_def split: prod.splits)
  have adv: "k < k1" "i = compose_id (sg_lastTimestamp g1) g1" "advances g g1"
    "\<exists>j. k \<le> j \<and> j < k1 \<and> sg_lastTimestamp g1 = clock j"
    using nextId_advances [OF nx Suc.prems(2,3)] Suc.prems(6) "is" by auto
  have ok: "snow_ok g1" using nextId_ok [OF Suc.prems(2), of clock k] nx by simp
  have era: "in_era (sg_lastTimestamp g1)" using adv(4) Suc.prems(5) by auto
  have "sg_lastTimestamp g1 \<le> clock k1" using adv(4) Suc.prems(4) by (metis less_imp_le)
  then have "\<forall>i\<in>set is1. \<exists>t h. in_era t \<and> snow_ok h \<and> sg_datacenterId h = sg_datacenterId g1
    \<and> sg_workerId h = sg_workerId g1 \<and> i = compose_id t h"
    using Suc.IH [OF run ok] Suc.prems(4,5,6) adv(1) "is" by auto
  moreover have "sg_datacenterId g1 = sg_datacenterId g" "sg_workerId g1 = sg_workerId g"
    using adv(3) by (auto simp: advances_def)
  ultimately show ?case using adv(2) ok era "is" by auto
qed

lemma compose_id_fields:
  assumes "snow_ok g" and "in_era t"
  shows "drop_bit 17 (take_bit 22 (compose_id t g)) = sg_datacenterId g"
    and "drop_bit 12 (take_bit 17 (compose_id t g)) = sg_workerId g"
    and "take_bit 12 (compose_id t g) = sg_sequence g"
proof -
  let ?d = "sg_datacenterId g" and ?w = "sg_workerId g" and ?s = "sg_sequence g"
  have b: "0 \<le> ?d" "?d \<le> 31" "0 \<le> ?w" "?w \<le> 31" "0 \<le> ?s" "?s \<le> 4095"
    using assms(1) by (auto simp: snow_ok_def)
  note v = compose_id_value [OF assms]
  have "compose_id t g mod 4194304 = ?d * 131072 + (?w * 4096 + ?s)"
    unfolding v using b mod_mult_self3 [of "t - snow_EPOCH" 4194304 "?d * 131072 + (?w * 4096 + ?s)"]
    by (simp add: algebra_simps)
  then show "drop_bit 17 (take_bit 22 (compose_id t g)) = ?d"
    using b by (simp add: take_bit_eq_mod drop_bit_eq_div)
  have "compose_id t g mod 131072 = ?w * 4096 + ?s"
    unfolding v using b mod_mult_self3 [of "(t - snow_EPOCH) * 32 + ?d" 131072 "?w * 4096 + ?s"]
    by (simp add: algebra_simps)
  then show "drop_bit 12 (take_bit 17 (compose_id t g)) = ?w"
    using b by (simp add: take_bit_eq_mod drop_bit_eq_div)
  have "compose_id t g mod 4096 = ?s"
    unfolding v using b mod_mult_self3 [of "(t - snow_EPOCH) * 1024 + ?d * 32 + ?w" 4096 "?s"]
    by (simp add: algebra_simps)
  then show "take_bit 12 (compose_id t g) = ?s" by (simp add: take_bit_eq_mod)
qed

lemma ctor_ok: "SnowflakeGenerator_ctor d w = Inr g \<Longrightarrow>
    snow_ok g \<and> sg_lastTimestamp g = -1 \<and> sg_datacenterId g = d \<and> sg_workerId g = w"
  by (auto simp: SnowflakeGenerator_ctor_def snow_ok_def MAX_DATACENTER_ID_def MAX_WORKER_ID_def
      split: if_splits)

section \<open>A clock that stands still\<close>

abbreviation same_ms :: "SnowflakeGenerator \<Rightarrow> int \<Rightarrow> int \<Rightarrow> SnowflakeGenerator" where
  "same_ms g t s \<equiv> g\<lparr>sg_sequence := s, sg_lastTimestamp := t\<rparr>"

lemma nextId_same:
  "0 \<le> s \<Longrightarrow> s < 4095 \<Longrightarrow>
   nextId (\<lambda>_. t) k (same_ms g t s) = (compose_id t (same_ms g t (s + 1)), same_ms g t (s + 1), k + 1)"
  by (simp add: nextId_def Let_def sequence_next)

lemma nextId_overflow: "nextId (\<lambda>_. t) k (same_ms g t 4095) = (0, same_ms g t 0, k + 6)"
  using sequence_wrap by (simp add: nextId_def Let_def eval_nat_numeral)

lemma snow_run_append:
  "snow_run clock k g m = (xs, g1, k1) \<Longrightarrow> snow_run clock k1 g1 n = (ys, g2, k2) \<Longrightarrow>
   snow_run clock k g (m + n) = (xs @ ys, g2, k2)"
  by (induction m arbitrary: k g xs) (auto simp: Let_def split: prod.splits)

lemma snow_run_same:
  "0 \<le> s \<Longrightarrow> s + int n \<le> 4095 \<Longrightarrow>
   \<exists>is k'. snow_run (\<lambda>_. t) k (same_ms g t s) n = (is, same_ms g t (s + int n), k') \<and> length is = n
     \<and> (\<forall>j<n. is ! j = compose_id t (same_ms g t (s + 1 + int j)))"
proof (induction n arbitrary: s k)
  case 0
  then show ?case by simp
next
  case (Suc n)
  obtain is1 k' where run: "snow_run (\<lambda>_. t) (k + 1) (same_ms g t (s + 1)) n = (is1, same_ms g t (s + 1 + int n), k')"
    and is1: "length is1 = n" "\<forall>j<n. is1 ! j = compose_id t (same_ms g t (s + 1 + 1 + int j))"
    using Suc.IH [of "s + 1" "k + 1"] Suc.prems by auto
  have "snow_run (\<lambda>_. t) k (same_ms g t s) (Suc n)
      = (compose_id t (same_ms g t (s + 1)) # is1, same_ms g t (s + 1 + int n), k')"
    using nextId_same [of s t k g] Suc.prems run by simp
  moreover have "(compose_id t (same_ms g t (s + 1)) # is1) ! j = compose_id t (same_ms g t (s + 1 + int j))"
    if "j < Suc n" for j
    using is1 that by (cases j) (auto simp: add.assoc)
  ultimately show ?case using is1(1) by (auto simp: add.assoc)
qed

section \<open>Properties\<close>

text \<open>
  As long as the clock does not run backwards and no call gives up (returns 0), the ids of a
  generator grow strictly, so they are all different, and none of them is produced by a generator with
  another pair of datacenter and worker.
\<close>

theorem Snowflake_increasing:
  assumes "SnowflakeGenerator_ctor d w = Inr g"
    and "snow_run clock 0 g n = (is, g', k')"
    and "\<forall>i j. i \<le> j \<longrightarrow> clock i \<le> clock j" and "\<forall>j. in_era (clock j)"
    and "0 \<notin> set is"
  shows "sorted_wrt (<) is \<and> distinct is
    \<and> (\<forall>i\<in>set is. drop_bit 17 (take_bit 22 i) = d \<and> drop_bit 12 (take_bit 17 i) = w)"
proof (cases n)
  case 0
  then show ?thesis using assms(2) by simp
next
  case (Suc m)
  note g = ctor_ok [OF assms(1)]
  have first: "clock 0 \<noteq> -1" using spec [OF assms(4), of 0] by (auto simp: in_era_def snow_EPOCH_def)
  let ?g1 = "g\<lparr>sg_sequence := 0, sg_lastTimestamp := clock 0\<rparr>"
  have nx: "nextId clock 0 g = (compose_id (clock 0) ?g1, ?g1, 1)"
    using g first by (simp add: nextId_def Let_def)
  obtain is1 where run: "snow_run clock 1 ?g1 m = (is1, g', k')"
    and "is": "is = compose_id (clock 0) ?g1 # is1"
    using assms(2) nx Suc by (auto simp: Let_def split: prod.splits)
  have ok: "snow_ok ?g1" using g by (simp add: snow_ok_def)
  have sorted: "sorted_wrt (<) is"
    using snow_run_sorted [OF run ok] assms(3,4,5) "is" by simp
  have fields: "\<forall>i\<in>set is. \<exists>t h. in_era t \<and> snow_ok h \<and> sg_datacenterId h = d \<and> sg_workerId h = w
      \<and> i = compose_id t h"
  proof -
    have "\<forall>i\<in>set is1. \<exists>t h. in_era t \<and> snow_ok h \<and> sg_datacenterId h = d \<and> sg_workerId h = w
      \<and> i = compose_id t h"
      using snow_run_fields [OF run ok] assms(3,4,5) g "is" by simp
    moreover have "in_era (clock 0)" "sg_datacenterId ?g1 = d" "sg_workerId ?g1 = w" using assms(4) g by auto
    ultimately show ?thesis using ok "is" by (metis set_ConsD)
  qed
  have "drop_bit 17 (take_bit 22 (compose_id t h)) = sg_datacenterId h
      \<and> drop_bit 12 (take_bit 17 (compose_id t h)) = sg_workerId h"
    if "in_era t" "snow_ok h" for t h
    using compose_id_fields [OF that(2,1)] by simp
  then have "\<forall>i\<in>set is. drop_bit 17 (take_bit 22 i) = d \<and> drop_bit 12 (take_bit 17 i) = w"
    using fields by fastforce
  then show ?thesis using sorted strict_sorted_iff by blast
qed

lemma Snowflake_increasing_witness:
  "\<exists>g. SnowflakeGenerator_ctor 3 7 = Inr g \<and>
     sorted_wrt (<) (fst (snow_run (\<lambda>k. 1700000000000 + int (min (k div 2) 5)) 0 g 3))"
proof -
  let ?g = "\<lparr>sg_datacenterId = 3, sg_workerId = 7, sg_sequence = 0, sg_lastTimestamp = -1\<rparr>"
  let ?clock = "\<lambda>k. 1700000000000 + int (min (k div 2) 5)"
  have g: "SnowflakeGenerator_ctor 3 7 = Inr ?g"
    by (simp add: SnowflakeGenerator_ctor_def MAX_DATACENTER_ID_def MAX_WORKER_ID_def)
  define a where "a = compose_id 1700000000000 (?g\<lparr>sg_lastTimestamp := 1700000000000\<rparr>)"
  define b where "b = compose_id 1700000000000 (?g\<lparr>sg_sequence := 1, sg_lastTimestamp := 1700000000000\<rparr>)"
  define c where "c = compose_id 1700000000001 (?g\<lparr>sg_lastTimestamp := 1700000000001\<rparr>)"
  obtain h k where run: "snow_run ?clock 0 ?g 3 = ([a, b, c], h, k)"
    by (simp add: eval_nat_numeral nextId_def Let_def MAX_SEQUENCE_def a_def b_def c_def)
  have "0 \<notin> set [a, b, c]"
    by (simp add: a_def b_def c_def compose_id_value snow_ok_def in_era_def snow_EPOCH_def)
  moreover have "\<forall>i j. i \<le> j \<longrightarrow> ?clock i \<le> ?clock j" by (simp add: div_le_mono min.coboundedI1 min_le_iff_disj)
  moreover have "\<forall>j. in_era (?clock j)" by (simp add: in_era_def snow_EPOCH_def min_def)
  ultimately show ?thesis using Snowflake_increasing [OF g run] run g by simp
qed

text \<open>
  Ids can repeat in two ways.  When the sequence number overflows and the five readings of the
  clock still show the same millisecond, the call returns 0 but has already reset the sequence number,
  so the next call of that millisecond repeats the second id of the millisecond.  And when the clock
  steps back by one millisecond between two calls, the older time is taken with the sequence number 0
  again.
\<close>

theorem Snowflake_duplicates:
  assumes "SnowflakeGenerator_ctor d w = Inr g" and "in_era t"
  shows "(\<exists>is g' k'. snow_run (\<lambda>_. t) 0 g 4098 = (is, g', k') \<and> is ! 4096 = 0 \<and> is ! 4097 = is ! 1)
    \<and> (\<exists>i j g' k'. snow_run (\<lambda>k. if k = 1 then t + 1 else t) 0 g 3 = ([i, j, i], g', k'))"
proof -
  note g = ctor_ok [OF assms(1)]
  have t: "t \<noteq> -1" "t + 1 \<noteq> -1" using assms(2) by (auto simp: in_era_def snow_EPOCH_def)
  have first: "snow_run (\<lambda>_. t) 0 g 1 = ([compose_id t (same_ms g t 0)], same_ms g t 0, 1)"
    using g t by (simp add: nextId_def Let_def)
  obtain is1 k1 where run: "snow_run (\<lambda>_. t) 1 (same_ms g t 0) 4095 = (is1, same_ms g t 4095, k1)"
    and is1: "length is1 = 4095" "\<forall>j<4095. is1 ! j = compose_id t (same_ms g t (1 + int j))"
    using snow_run_same [of 0 4095 t 1 g] by auto
  have over: "snow_run (\<lambda>_. t) k1 (same_ms g t 4095) 2
      = ([0, compose_id t (same_ms g t 1)], same_ms g t 1, k1 + 7)"
    using nextId_overflow [of t k1 g] nextId_same [of 0 t "k1 + 6" g] by (simp add: numeral_2_eq_2)
  have "snow_run (\<lambda>_. t) 0 g (1 + (4095 + 2))
      = ([compose_id t (same_ms g t 0)] @ (is1 @ [0, compose_id t (same_ms g t 1)]), same_ms g t 1, k1 + 7)"
    by (rule snow_run_append [OF first snow_run_append [OF run over]])
  then have "\<exists>is g' k'. snow_run (\<lambda>_. t) 0 g 4098 = (is, g', k') \<and> is ! 4096 = 0 \<and> is ! 4097 = is ! 1"
    using is1 by (auto simp: nth_append nth_Cons')
  moreover have "\<exists>i j g' k'. snow_run (\<lambda>k. if k = 1 then t + 1 else t) 0 g 3 = ([i, j, i], g', k')"
    using g t by (simp add: eval_nat_numeral nextId_def Let_def)
  ultimately show ?thesis by blast
qed

lemma Snowflake_duplicates_witness:
  "\<exists>g i j g' k'. SnowflakeGenerator_ctor 0 0 = Inr g
     \<and> snow_run (\<lambda>k. if k = 1 then 1700000000000 + 1 else 1700000000000) 0 g 3 = ([i, j, i], g', k')"
proof -
  have "in_era 1700000000000" by (simp add: in_era_def snow_EPOCH_def)
  moreover obtain g where "SnowflakeGenerator_ctor 0 0 = Inr g"
    by (simp add: SnowflakeGenerator_ctor_def MAX_DATACENTER_ID_def MAX_WORKER_ID_def)
  ultimately show ?thesis using Snowflake_duplicates [of 0 0 g 1700000000000] by blast
qed

text \<open>The worker number of a thread is always in range, the datacenter number only where no hash is negative.\<close>

lemma smod32_range: "0 \<le> x \<Longrightarrow> 0 \<le> x smod 32 \<and> x smod 32 \<le> 31" for x :: int
  using smod_int_compares(1,2) [of x 32] by simp

lemma smod32_negative:
  fixes x :: int
  assumes "x < 0"
  shows "x smod 32 < 0 \<longleftrightarrow> x mod 32 \<noteq> 0" and "x smod 32 \<le> 31"
proof -
  have "0 \<le> (- x) mod 32" "(- x) mod 32 = 0 \<longleftrightarrow> x mod 32 = 0"
    by (simp_all add: mod_eq_0_iff_dvd)
  then show "x smod 32 < 0 \<longleftrightarrow> x mod 32 \<noteq> 0" "x smod 32 \<le> 31"
    using assms smod_int_compares(4) [of x 32] by (auto simp: smod_int_alt_def sgn_if)
qed

lemma hash_worker_range: "0 \<le> sint (hash31 s mod 32) \<and> sint (hash31 s mod 32) \<le> 31"
proof -
  have "uint (hash31 s mod 32) = uint (hash31 s) mod 32" by (simp add: uint_mod)
  then have u: "0 \<le> uint (hash31 s mod 32)" "uint (hash31 s mod 32) < 32" by simp_all
  moreover have "signed_take_bit 63 v = v" if "0 \<le> v" "v < 32" for v :: int
    using that by (intro signed_take_bit_int_eq_self) simp_all
  ultimately have "signed_take_bit 63 (uint (hash31 s mod 32)) = uint (hash31 s mod 32)" by blast
  then show ?thesis using u by (simp add: sint_uint del: signed_take_bit_nonnegative_iff)
qed

lemma workerId_range: "0 \<le> snowflake_workerId c tidStr \<and> snowflake_workerId c tidStr \<le> 31"
  using smod32_range hash_worker_range by (simp add: snowflake_workerId_def)

lemma datacenterId_range:
  "(MAX_DATACENTER_ID < snowflake_datacenterId c hostname mac \<or> snowflake_datacenterId c hostname mac < 0)
   \<longleftrightarrow> sc_customDatacenterId c < 0 \<and> getHostMacHash hostname mac < 0 \<and> getHostMacHash hostname mac mod 32 \<noteq> 0"
  using smod32_range [of "sc_customDatacenterId c"] smod32_range [of "getHostMacHash hostname mac"]
    smod32_negative [of "getHostMacHash hostname mac"]
  by (cases "0 \<le> getHostMacHash hostname mac") (auto simp: snowflake_datacenterId_def MAX_DATACENTER_ID_def)

text \<open>
  \<open>generateSnowflakeId\<close> throws exactly if the thread has no generator yet, no datacenter was
  configured, and the hash of the host name and MAC address is negative as a 64-bit number and not a
  multiple of 32, because \<open>%\<close> keeps the sign; there are such hosts.
\<close>

theorem generateSnowflakeId_throws:
  "((\<exists>e. generateSnowflakeId c hostname mac tidStr clock k gen = Inl e) \<longleftrightarrow>
      gen = None \<and> sc_customDatacenterId c < 0 \<and> getHostMacHash hostname mac < 0
      \<and> getHostMacHash hostname mac mod 32 \<noteq> 0)
   \<and> generateSnowflakeId SnowConfig_initial ''server1'' (Some [0x02, 0x42, 0xac, 0x11, 0x00, 0x03])
       ''7f'' (\<lambda>_. t) 0 None = Inl ''datacenterId must be between 0 and 31''"
proof -
  have throws: "(\<exists>e. generateSnowflakeId c hostname mac tidStr clock k gen = Inl e) \<longleftrightarrow>
      gen = None \<and> sc_customDatacenterId c < 0 \<and> getHostMacHash hostname mac < 0
      \<and> getHostMacHash hostname mac mod 32 \<noteq> 0"
    using datacenterId_range [of c hostname mac] workerId_range [of c tidStr]
    by (auto simp: generateSnowflakeId_def SnowflakeGenerator_ctor_def MAX_WORKER_ID_def split: option.splits)
  have "getHostMacHash ''server1'' (Some [0x02, 0x42, 0xac, 0x11, 0x00, 0x03]) = -5094131643131559933"
    by (simp add: getHostMacHash_def hash31_def c_str_def byte_def size_of_char_def)
  then have "generateSnowflakeId SnowConfig_initial ''server1'' (Some [0x02, 0x42, 0xac, 0x11, 0x00, 0x03])
       ''7f'' (\<lambda>_. t) 0 None = Inl ''datacenterId must be between 0 and 31''"
    by (simp add: generateSnowflakeId_def snowflake_datacenterId_def SnowConfig_initial_def
        SnowflakeGenerator_ctor_def smod_int_alt_def MAX_DATACENTER_ID_def)
  then show ?thesis using throws by blast
qed

end
