(* ===== verification/IdThreads.thy ===== *)
theory IdThreads imports Ids begin

text \<open>
  \<open>IdUtil::generateSnowflakeId\<close> (src/IdUtil.cpp) called by several threads.  The configuration is shared and
  guarded by a mutex; every thread has a generator of its own, made at its first call from the
  configuration of that moment.  A run is a sequence of calls in the order in which they are finished; the
  readings of the clock are a function for each thread, so that the readings of calls that overlap may fall
  in any order.
\<close>

section \<open>Threads\<close>

record id_env =
  ie_hostname :: string
  ie_mac :: "nat list option"
  ie_tid :: "nat \<Rightarrow> string"               \<comment> \<open>the text of the thread's id\<close>
  ie_clock :: "nat \<Rightarrow> nat \<Rightarrow> int"         \<comment> \<open>what thread \<open>t\<close> reads at its \<open>k\<close>-th reading\<close>

record id_threads =
  it_config :: SnowConfig
  it_generator :: "nat \<Rightarrow> SnowflakeGenerator option"   \<comment> \<open>\<open>s_snowflakeGenerator\<close>, one for each thread\<close>
  it_reads :: "nat \<Rightarrow> nat"

definition id_start :: "SnowConfig \<Rightarrow> id_threads" where
  "id_start c = \<lparr>it_config = c, it_generator = (\<lambda>_. None), it_reads = (\<lambda>_. 0)\<rparr>"

datatype id_event = Init int int | Generate nat

text \<open>A call that throws in the constructor leaves the thread without a generator and gives no id.\<close>

fun id_step :: "id_env \<Rightarrow> id_event \<Rightarrow> id_threads \<Rightarrow> (nat \<times> int) list \<times> id_threads" where
  "id_step E (Init d w) s = ([], s\<lparr>it_config := initSnowflake d w (it_config s)\<rparr>)"
| "id_step E (Generate t) s =
     (case generateSnowflakeId (it_config s) (ie_hostname E) (ie_mac E) (ie_tid E t) (ie_clock E t)
             (it_reads s t) (it_generator s t) of
        Inl e \<Rightarrow> ([], s)
      | Inr (i, g, k) \<Rightarrow>
          ([(t, i)], s\<lparr>it_generator := (it_generator s)(t \<mapsto> g), it_reads := (it_reads s)(t := k)\<rparr>))"

fun id_run :: "id_env \<Rightarrow> id_event list \<Rightarrow> id_threads \<Rightarrow> (nat \<times> int) list \<times> id_threads" where
  "id_run E [] s = ([], s)"
| "id_run E (e # es) s =
     (let (out1, s1) = id_step E e s; (out2, s2) = id_run E es s1 in (out1 @ out2, s2))"

section \<open>The ids of a thread\<close>

definition clocks_ok :: "id_env \<Rightarrow> bool" where
  "clocks_ok E = (\<forall>t i j. i \<le> j \<longrightarrow> ie_clock E t i \<le> ie_clock E t j \<and> in_era (ie_clock E t i))"

definition generator_ok :: "id_env \<Rightarrow> nat \<Rightarrow> nat \<Rightarrow> SnowflakeGenerator \<Rightarrow> bool" where
  "generator_ok E t k g = (snow_ok g \<and> in_era (sg_lastTimestamp g) \<and> sg_lastTimestamp g \<le> ie_clock E t k)"

definition has_fields :: "int \<Rightarrow> SnowflakeGenerator \<Rightarrow> bool" where
  "has_fields i g = (drop_bit 17 (take_bit 22 i) = sg_datacenterId g \<and> drop_bit 12 (take_bit 17 i) = sg_workerId g)"

text \<open>The last id of a thread is the greatest, and all of them carry its numbers.\<close>

definition last_id :: "SnowflakeGenerator \<Rightarrow> int" where
  "last_id g = compose_id (sg_lastTimestamp g) g"

definition id_inv :: "id_env \<Rightarrow> (nat \<times> int) list \<Rightarrow> id_threads \<Rightarrow> bool" where
  "id_inv E out s =
     ((\<forall>t g. it_generator s t = Some g \<longrightarrow> generator_ok E t (it_reads s t) g)
      \<and> (\<forall>(t, i)\<in>set out. \<exists>g. it_generator s t = Some g \<and> i \<le> last_id g \<and> has_fields i g)
      \<and> sorted_wrt (\<lambda>(t, i) (u, j). t = u \<longrightarrow> i < j) out)"

lemma id_inv_start: "id_inv E [] (id_start c)"
  by (simp add: id_inv_def id_start_def)

lemma last_id_fields: "generator_ok E t k g \<Longrightarrow> has_fields (last_id g) g"
  using compose_id_fields [of g "sg_lastTimestamp g"] by (simp add: generator_ok_def has_fields_def last_id_def)

text \<open>A call of a thread that has a generator.\<close>

lemma nextId_thread:
  assumes "clocks_ok E" and "generator_ok E t k g" and "nextId (ie_clock E t) k g = (i, g', k')" and "i \<noteq> 0"
  shows "generator_ok E t k' g' \<and> i = last_id g' \<and> last_id g < i
    \<and> sg_datacenterId g' = sg_datacenterId g \<and> sg_workerId g' = sg_workerId g"
proof -
  have adv: "k < k'" "i = last_id g'" "advances g g'" "\<exists>j<k'. sg_lastTimestamp g' = ie_clock E t j"
    using nextId_advances [OF assms(3)] assms(2,4) by (auto simp: generator_ok_def last_id_def)
  have "snow_ok g'" using nextId_ok [of g "ie_clock E t" k] assms(2,3) by (simp add: generator_ok_def)
  then have ok: "generator_ok E t k' g'"
    using adv(4) assms(1) unfolding generator_ok_def clocks_ok_def by (metis less_imp_le)
  then have "last_id g < i"
    using compose_id_less [OF adv(3)] assms(2) adv(2) by (simp add: generator_ok_def last_id_def)
  then show ?thesis using ok adv(2,3) by (simp add: advances_def)
qed

text \<open>The first call of a thread.\<close>

lemma nextId_fresh:
  assumes "SnowflakeGenerator_ctor d w = Inr g" and "in_era (clock k)"
  shows "nextId clock k g = (compose_id (clock k) (same_ms g (clock k) 0), same_ms g (clock k) 0, k + 1)"
proof -
  have "clock k \<noteq> -1" using assms(2) by (auto simp: in_era_def snow_EPOCH_def)
  then show ?thesis using ctor_ok [OF assms(1)] by (simp add: nextId_def Let_def)
qed

lemma generate_thread:
  assumes "clocks_ok E" and "\<And>g. gen = Some g \<Longrightarrow> generator_ok E t k g"
    and "generateSnowflakeId c host mac tidStr (ie_clock E t) k gen = Inr (i, g', k')" and "i \<noteq> 0"
  shows "generator_ok E t k' g' \<and> i = last_id g'
    \<and> (\<forall>g. gen = Some g \<longrightarrow> last_id g < i \<and> sg_datacenterId g' = sg_datacenterId g \<and> sg_workerId g' = sg_workerId g)"
proof (cases gen)
  case (Some g)
  then show ?thesis
    using nextId_thread [OF assms(1) assms(2) [OF Some]] assms(3,4) by (simp add: generateSnowflakeId_def)
next
  case None
  then obtain g where g: "SnowflakeGenerator_ctor (snowflake_datacenterId c host mac) (snowflake_workerId c tidStr) = Inr g"
    "nextId (ie_clock E t) k g = (i, g', k')"
    using assms(3) by (auto simp: generateSnowflakeId_def split: sum.splits)
  have "in_era (ie_clock E t k)" "ie_clock E t k \<le> ie_clock E t (k + 1)"
    using assms(1) by (auto simp: clocks_ok_def)
  then show ?thesis
    using g None ctor_ok [OF g(1)] nextId_fresh [OF g(1), of "ie_clock E t" k]
    by (auto simp: generator_ok_def last_id_def snow_ok_def)
qed

section \<open>Runs\<close>

lemma id_inv_add:
  assumes "id_inv E out s" and "it_generator s' = (it_generator s)(t \<mapsto> g')" and "it_reads s' = (it_reads s)(t := k')"
    and "generator_ok E t k' g'" and "i = last_id g'"
    and newer: "\<And>g. it_generator s t = Some g \<Longrightarrow>
      last_id g < i \<and> sg_datacenterId g' = sg_datacenterId g \<and> sg_workerId g' = sg_workerId g"
  shows "id_inv E (out @ [(t, i)]) s'"
proof -
  have older: "j < i \<and> has_fields j g'" if "(t, j) \<in> set out" for j
  proof -
    obtain g where "it_generator s t = Some g" "j \<le> last_id g" "has_fields j g"
      using assms(1) \<open>(t, j) \<in> set out\<close> by (auto simp: id_inv_def)
    then show ?thesis using newer by (fastforce simp: has_fields_def)
  qed
  have "\<exists>g. it_generator s' u = Some g \<and> j \<le> last_id g \<and> has_fields j g" if "(u, j) \<in> set out" for u j
    using assms(1,2,5) that by (cases "u = t") (auto simp: id_inv_def dest!: older intro: less_imp_le)
  moreover have "sorted_wrt (\<lambda>(t, i) (u, j). t = u \<longrightarrow> i < j) (out @ [(t, i)])"
    using assms(1) older by (auto simp: id_inv_def sorted_wrt_append)
  moreover have "has_fields i g'" using last_id_fields [OF assms(4)] assms(5) by simp
  ultimately show ?thesis using assms(1-5) by (auto simp: id_inv_def)
qed

lemma id_inv_step:
  assumes "id_inv E out s" and "clocks_ok E" and "id_step E e s = (new, s')" and "0 \<notin> snd ` set new"
  shows "id_inv E (out @ new) s'"
proof (cases e)
  case (Init d w)
  then show ?thesis using assms(1,3) by (auto simp: id_inv_def)
next
  case (Generate t)
  show ?thesis
  proof (cases "generateSnowflakeId (it_config s) (ie_hostname E) (ie_mac E) (ie_tid E t) (ie_clock E t)
             (it_reads s t) (it_generator s t)")
    case (Inl err)
    then show ?thesis using Generate assms(1,3) by simp
  next
    case (Inr r)
    obtain i g k where r: "r = (i, g, k)" by (cases r)
    have new: "new = [(t, i)]"
      "s' = s\<lparr>it_generator := (it_generator s)(t \<mapsto> g), it_reads := (it_reads s)(t := k)\<rparr>"
      using assms(3) Generate Inr r by simp_all
    have "generator_ok E t k g \<and> i = last_id g \<and> (\<forall>h. it_generator s t = Some h \<longrightarrow>
        last_id h < i \<and> sg_datacenterId g = sg_datacenterId h \<and> sg_workerId g = sg_workerId h)"
      using assms(1,4) new(1) Inr r by (intro generate_thread [OF assms(2)]) (auto simp: id_inv_def)
    then show ?thesis
      unfolding new(1) by (intro id_inv_add [OF assms(1), of s' t g k]) (auto simp: new(2))
  qed
qed

lemma id_inv_run:
  "id_inv E out s \<Longrightarrow> clocks_ok E \<Longrightarrow> id_run E es s = (new, s') \<Longrightarrow> 0 \<notin> snd ` set new \<Longrightarrow>
   id_inv E (out @ new) s'"
proof (induction es arbitrary: out s new)
  case Nil
  then show ?case by simp
next
  case (Cons e es)
  obtain new1 s1 new2 where st: "id_step E e s = (new1, s1)" "id_run E es s1 = (new2, s')" "new = new1 @ new2"
    using Cons.prems(3) by (auto simp: Let_def split: prod.splits)
  then have "id_inv E (out @ new1) s1" using id_inv_step [OF Cons.prems(1,2)] Cons.prems(4) by auto
  from Cons.IH [OF this Cons.prems(2) st(2)] show ?case using st(3) Cons.prems(4) by auto
qed

text \<open>First calls at one time: the id depends on nothing but the worker number.\<close>

lemma first_calls:
  assumes "distinct ts" and "\<forall>t\<in>set ts. it_generator s t = None \<and> ie_clock E t (it_reads s t) = T" and "in_era T"
    and "snowflake_datacenterId (it_config s) (ie_hostname E) (ie_mac E) \<in> {0..31}"
  shows "\<exists>out s'. id_run E (map Generate ts) s = (out, s') \<and> map fst out = ts
    \<and> (\<forall>(t, i)\<in>set out. i = compose_id T \<lparr>sg_datacenterId = snowflake_datacenterId (it_config s) (ie_hostname E) (ie_mac E),
         sg_workerId = snowflake_workerId (it_config s) (ie_tid E t), sg_sequence = 0, sg_lastTimestamp = T\<rparr>)"
  using assms
proof (induction ts arbitrary: s)
  case Nil
  then show ?case by simp
next
  case (Cons t ts)
  let ?d = "snowflake_datacenterId (it_config s) (ie_hostname E) (ie_mac E)"
    and ?w = "snowflake_workerId (it_config s) (ie_tid E t)"
  let ?g = "\<lambda>T. \<lparr>sg_datacenterId = ?d, sg_workerId = ?w, sg_sequence = 0, sg_lastTimestamp = T\<rparr>"
  let ?s = "s\<lparr>it_generator := (it_generator s)(t \<mapsto> ?g T), it_reads := (it_reads s)(t := it_reads s t + 1)\<rparr>"
  have ctor: "SnowflakeGenerator_ctor ?d ?w = Inr (?g (-1))"
    using Cons.prems(4) workerId_range [of "it_config s" "ie_tid E t"]
    by (simp add: SnowflakeGenerator_ctor_def MAX_DATACENTER_ID_def MAX_WORKER_ID_def)
  have st: "id_step E (Generate t) s = ([(t, compose_id T (?g T))], ?s)"
    using ctor nextId_fresh [OF ctor, of "ie_clock E t" "it_reads s t"] Cons.prems(2,3)
    by (simp add: generateSnowflakeId_def)
  have "distinct ts" "\<forall>u\<in>set ts. it_generator ?s u = None \<and> ie_clock E u (it_reads ?s u) = T"
    "snowflake_datacenterId (it_config ?s) (ie_hostname E) (ie_mac E) \<in> {0..31}"
    using Cons.prems(1,2,4) by auto
  note Cons.IH [OF this(1,2) Cons.prems(3) this(3)]
  then obtain out s' where "id_run E (map Generate ts) ?s = (out, s')" "map fst out = ts"
    "\<forall>(u, i)\<in>set out. i = compose_id T \<lparr>sg_datacenterId = ?d,
         sg_workerId = snowflake_workerId (it_config s) (ie_tid E u), sg_sequence = 0, sg_lastTimestamp = T\<rparr>"
    by auto
  then show ?case using st by simp
qed

section \<open>Properties\<close>

text \<open>
  C29: With clocks that do not run backwards and no call that gives up (returns 0), the ids of one thread
  grow strictly, and two threads get the same id only if their generators carry the same pair of
  datacenter and worker number, however the calls and reconfigurations interleave.
\<close>

theorem Snowflake_threads_unique:
  assumes "id_run E es (id_start c) = (out, s)" and "clocks_ok E" and "0 \<notin> snd ` set out"
    and "j < k" and "k < length out" and "out ! j = (t, i)" and "out ! k = (u, i')"
  shows "(t = u \<longrightarrow> i < i')
    \<and> (i = i' \<longrightarrow> (\<exists>g h. it_generator s t = Some g \<and> it_generator s u = Some h
         \<and> sg_datacenterId g = sg_datacenterId h \<and> sg_workerId g = sg_workerId h))"
proof -
  have inv: "id_inv E out s" using id_inv_run [OF id_inv_start assms(2,1,3)] by simp
  then have "t = u \<longrightarrow> i < i'"
    using assms(4-7) sorted_wrt_nth_less [of "\<lambda>(t, i) (u, j). t = u \<longrightarrow> i < j" out j k]
    by (auto simp: id_inv_def)
  moreover have "\<exists>g. it_generator s v = Some g \<and> has_fields n g" if "(v, n) \<in> set out" for v n
    using inv that by (auto simp: id_inv_def)
  moreover have "(t, i) \<in> set out" "(u, i') \<in> set out" using assms(4-7) nth_mem [of j out] nth_mem [of k out] by auto
  ultimately obtain g h where "t = u \<longrightarrow> i < i'" "it_generator s t = Some g" "has_fields i g"
    "it_generator s u = Some h" "has_fields i' h"
    by blast
  then show ?thesis by (auto simp: has_fields_def)
qed

definition demo_ids :: id_env where
  "demo_ids = \<lparr>ie_hostname = ''web1'', ie_mac = None, ie_tid = (\<lambda>t. dec_int (int t)), ie_clock = (\<lambda>t k. 1700000000000)\<rparr>"

lemma Snowflake_threads_unique_witness:
  "\<exists>s i. id_run demo_ids [Init 1 2, Generate 0, Generate 5] (id_start SnowConfig_initial) = ([(0, i), (5, i)], s)
     \<and> (\<exists>g h. it_generator s 0 = Some g \<and> it_generator s 5 = Some h \<and> sg_workerId g = sg_workerId h)"
proof -
  let ?g = "\<lparr>sg_datacenterId = 1, sg_workerId = 2, sg_sequence = 0, sg_lastTimestamp = 1700000000000\<rparr>"
  define i where "i = compose_id 1700000000000 ?g"
  have "1 smod 32 = (1::int)" "2 smod 32 = (2::int)" by (simp_all add: smod_int_alt_def)
  then obtain s where run: "id_run demo_ids [Init 1 2, Generate 0, Generate 5] (id_start SnowConfig_initial)
      = ([(0, i), (5, i)], s)"
    by (simp add: i_def demo_ids_def id_start_def SnowConfig_initial_def initSnowflake_def generateSnowflakeId_def
        snowflake_datacenterId_def snowflake_workerId_def SnowflakeGenerator_ctor_def MAX_DATACENTER_ID_def
        MAX_WORKER_ID_def nextId_def Let_def)
  have "in_era 1700000000000" by (simp add: in_era_def snow_EPOCH_def)
  then have "clocks_ok demo_ids" "i \<noteq> 0"
    by (simp_all add: clocks_ok_def demo_ids_def i_def compose_id_value snow_ok_def snow_EPOCH_def)
  then show ?thesis
    using Snowflake_threads_unique [OF run, of 0 1 0 i 5 i] run by auto
qed

text \<open>
  C30: But the ids of a process do repeat: as soon as more than 32 threads, or two threads after
  \<open>initSnowflake\<close> has set a worker number, make their first call within the same millisecond of the 41 bits of time that an
  id holds, two of them get the same id.  This is for calls that give ids at all: a datacenter number has been set, or the host hash is not
  negative or a multiple of 32.  In all other cases each first call throws (\<open>generateSnowflakeId_throws\<close>).
\<close>

theorem Snowflake_threads_collide:
  assumes "distinct ts" and "\<forall>t\<in>set ts. ie_clock E t 0 = T" and "in_era T"
    and "0 \<le> sc_customDatacenterId c \<or> 0 \<le> getHostMacHash (ie_hostname E) (ie_mac E)
      \<or> getHostMacHash (ie_hostname E) (ie_mac E) mod 32 = 0"
    and "32 < length ts \<or> (0 \<le> sc_customWorkerId c \<and> 1 < length ts)"
  shows "\<exists>out s j k. id_run E (map Generate ts) (id_start c) = (out, s) \<and> j < k \<and> k < length out
    \<and> fst (out ! j) \<noteq> fst (out ! k) \<and> snd (out ! j) = snd (out ! k)"
proof -
  let ?w = "\<lambda>t. snowflake_workerId c (ie_tid E t)"
  have "\<not> inj_on ?w (set ts)"
  proof
    assume "inj_on ?w (set ts)"
    note small = card_inj_on_le [OF this]
    show False
    proof (cases "0 \<le> sc_customWorkerId c")
      case True
      then have "?w ` set ts \<subseteq> {sc_customWorkerId c smod 32}" by (auto simp: snowflake_workerId_def)
      from small [OF this] show False using distinct_card [OF assms(1)] assms(5) by simp
    next
      case False
      have "?w ` set ts \<subseteq> {0..31}" using workerId_range by auto
      from small [OF this] show False using distinct_card [OF assms(1)] assms(5) False by simp
    qed
  qed
  then obtain j k where jk: "j < k" "k < length ts" "?w (ts ! j) = ?w (ts ! k)"
    by (auto simp: inj_on_def in_set_conv_nth) (metis nat_neq_iff)
  have "snowflake_datacenterId c (ie_hostname E) (ie_mac E) \<in> {0..31}"
    using datacenterId_range [of c "ie_hostname E" "ie_mac E"] assms(4) by (auto simp: MAX_DATACENTER_ID_def)
  then obtain out s where run: "id_run E (map Generate ts) (id_start c) = (out, s)" "map fst out = ts"
    "\<forall>(t, i)\<in>set out. i = compose_id T \<lparr>sg_datacenterId = snowflake_datacenterId c (ie_hostname E) (ie_mac E),
         sg_workerId = ?w t, sg_sequence = 0, sg_lastTimestamp = T\<rparr>"
    using first_calls [OF assms(1), of "id_start c" E T] assms(2,3) by (auto simp: id_start_def)
  have len: "length out = length ts" using run(2) by (metis length_map)
  have fsts: "fst (out ! n) = ts ! n" if "n < length ts" for n using run(2) that by (metis len nth_map)
  then have "snd (out ! j) = snd (out ! k)"
    using run(3) jk len nth_mem [of j out] nth_mem [of k out] by (fastforce simp: case_prod_beta)
  moreover have "fst (out ! j) \<noteq> fst (out ! k)"
    using jk fsts assms(1) by (simp add: nth_eq_iff_index_eq)
  ultimately show ?thesis using run(1) jk len by (intro exI [of _ out] exI [of _ s] exI [of _ j] exI [of _ k]) simp
qed

lemma Snowflake_threads_collide_witness:
  "\<exists>out s j k. id_run demo_ids (map Generate [0, 5]) (id_start (initSnowflake 1 2 SnowConfig_initial)) = (out, s)
     \<and> j < k \<and> k < length out \<and> fst (out ! j) \<noteq> fst (out ! k) \<and> snd (out ! j) = snd (out ! k)"
  by (rule Snowflake_threads_collide [where T = 1700000000000])
    (simp_all add: demo_ids_def in_era_def snow_EPOCH_def initSnowflake_def)

end
