(* ===== verification/HttpText.thy ===== *)
theory HttpText imports StdMap begin

text \<open>
  The text that the client transports read and write: \<open>parseUrl\<close> of src/HttpTransport.cpp,
  src/HttpsTransport.cpp, src/WebSocketTransport.cpp and src/TcpTransport.cpp, and \<open>parseHeaders\<close> and
  \<open>buildHeadersString\<close> of the first two.  The four copies of \<open>parseUrl\<close> differ in the default scheme
  and in the schemes whose default port is 443; the two copies of the header functions are equal.
\<close>

section \<open>URLs\<close>

record parsed_url =
  pu_scheme :: string
  pu_host :: string
  pu_port :: int
  pu_path :: string

text \<open>Host, port (0 without one) and start of the path, from the position after the scheme.\<close>

definition parse_authority :: "string \<Rightarrow> nat \<Rightarrow> (string \<times> int \<times> nat option) option" where
  "parse_authority urlStr hostStart =
     (let pathStart = find_char (CHR ''/'') hostStart urlStr;
          portStart = find_char (CHR '':'') hostStart urlStr;
          pathEnd = (case pathStart of Some p \<Rightarrow> p | None \<Rightarrow> length urlStr);
          hostEnd_port =
            (case portStart of
               None \<Rightarrow> Some (pathEnd, 0)
             | Some q \<Rightarrow>
                 if pathStart = None \<or> q < pathEnd
                 then map_option (\<lambda>port. (q, port)) (stoi (substr (q + 1) (pathEnd - q - 1) urlStr))
                 else Some (pathEnd, 0))
      in case hostEnd_port of
           None \<Rightarrow> None
         | Some (hostEnd, port) \<Rightarrow>
             (let host = trim (substr hostStart (hostEnd - hostStart) urlStr)
              in if host = [] then None else Some (host, port, pathStart)))"

definition parse_url :: "string \<Rightarrow> string list \<Rightarrow> string \<Rightarrow> parsed_url option" where
  "parse_url defaultScheme secure url =
     (let urlStr = trim url
      in if urlStr = [] then None
         else
           (let (scheme, hostStart) =
                  (case find_sub ''://'' urlStr of
                     None \<Rightarrow> (defaultScheme, 0)
                   | Some schemeEnd \<Rightarrow> (to_lower (substr 0 schemeEnd urlStr), schemeEnd + 3))
            in case parse_authority urlStr hostStart of
                 None \<Rightarrow> None
               | Some (host, port, pathStart) \<Rightarrow>
                   Some \<lparr>pu_scheme = scheme, pu_host = host,
                         pu_port = (if port = 0 then (if scheme \<in> set secure then 443 else 80) else port),
                         pu_path = (case pathStart of Some p \<Rightarrow> drop p urlStr | None \<Rightarrow> ''/'')\<rparr>))"

definition HttpTransport_parseUrl :: "string \<Rightarrow> parsed_url option" where
  "HttpTransport_parseUrl url = parse_url ''http'' [''https''] url"

definition HttpsTransport_parseUrl :: "string \<Rightarrow> parsed_url option" where
  "HttpsTransport_parseUrl url = parse_url ''https'' [''https''] url"

definition WebSocketTransport_parseUrl :: "string \<Rightarrow> parsed_url option" where
  "WebSocketTransport_parseUrl url = parse_url ''ws'' [''wss'', ''https''] url"

definition TcpTransport_parseUrl :: "string \<Rightarrow> (string \<times> int) option" where
  "TcpTransport_parseUrl url =
     (let urlStr = trim url
      in if urlStr = [] then None
         else
           (let hostStart = (case find_sub ''://'' urlStr of None \<Rightarrow> 0 | Some schemeEnd \<Rightarrow> schemeEnd + 3)
            in case parse_authority urlStr hostStart of
                 None \<Rightarrow> None
               | Some (host, port, pathStart) \<Rightarrow> Some (host, if port = 0 then 80 else port)))"

section \<open>Header lines\<close>

definition is_eol :: "char \<Rightarrow> bool" where
  "is_eol c = (c = CHR 0x0D \<or> c = CHR 0x0A)"

text \<open>
  \<open>boost::split\<close> at any of the two characters, adjacent separators as one; the empty tokens that it
  yields at the ends are skipped by the loop that follows.
\<close>

function header_lines :: "string \<Rightarrow> string list" where
  "header_lines s =
     (let t = dropWhile is_eol s
      in if t = [] then [] else takeWhile (\<lambda>c. \<not> is_eol c) t # header_lines (dropWhile (\<lambda>c. \<not> is_eol c) t))"
  by auto
termination
proof (relation "measure length")
  fix s x :: string
  assume x: "x = dropWhile is_eol s" and "x \<noteq> []"
  from \<open>x \<noteq> []\<close> obtain c r where c: "x = c # r" by (auto simp: neq_Nil_conv)
  then have "\<not> is_eol c" using hd_dropWhile [of is_eol s] x by auto
  then have "length (dropWhile (\<lambda>c. \<not> is_eol c) x) \<le> length r"
    using c by (simp add: length_dropWhile_le)
  moreover have "length x \<le> length s" by (simp add: x length_dropWhile_le)
  ultimately show "(dropWhile (\<lambda>c. \<not> is_eol c) x, s) \<in> measure length" using c by simp
qed simp

declare header_lines.simps [simp del]

definition header_line :: "string \<Rightarrow> string std_map \<Rightarrow> string std_map" where
  "header_line line headers =
     (case find_char (CHR '':'') 0 line of
        None \<Rightarrow> headers
      | Some colonPos \<Rightarrow>
          (let key = trim (take colonPos line); value = trim (drop (colonPos + 1) line)
           in if key \<noteq> [] \<and> value \<noteq> [] then map_put (to_lower key) value headers else headers))"

definition parseHeaders :: "string \<Rightarrow> string std_map \<Rightarrow> string std_map" where
  "parseHeaders headerStr headers =
     (if headerStr = [] then headers
      else foldl (\<lambda>m line. header_line line m) headers (header_lines headerStr))"

definition crlf :: string where "crlf = [CHR 0x0D, CHR 0x0A]"

definition buildHeadersString :: "string std_map \<Rightarrow> string" where
  "buildHeadersString headers = concat (map (\<lambda>(k, v). k @ '': '' @ v @ crlf) headers)"

section \<open>Reading back header lines\<close>

text \<open>\<open>HttpsTransport\<close> has copies of the two, statement by statement.\<close>

definition HttpsTransport_parseHeaders :: "string \<Rightarrow> string std_map \<Rightarrow> string std_map" where
  "HttpsTransport_parseHeaders headerStr headers = parseHeaders headerStr headers"

definition HttpsTransport_buildHeadersString :: "string std_map \<Rightarrow> string" where
  "HttpsTransport_buildHeadersString headers = buildHeadersString headers"

definition trimmed :: "string \<Rightarrow> bool" where
  "trimmed s = (s \<noteq> [] \<and> \<not> is_space (hd s) \<and> \<not> is_space (last s))"

definition header_ok :: "string \<times> string \<Rightarrow> bool" where
  "header_ok p =
     (trimmed (fst p) \<and> CHR '':'' \<notin> set (fst p) \<and> list_all (\<lambda>c. \<not> is_eol c) (fst p)
      \<and> to_lower (fst p) = fst p \<and> trimmed (snd p) \<and> list_all (\<lambda>c. \<not> is_eol c) (snd p))"

lemma trim_trimmed [simp]: "trimmed s \<Longrightarrow> trim s = s"
  by (simp add: trimmed_def trim_id)

lemma trim_blank_front: "is_space c \<Longrightarrow> trim (c # s) = trim s"
  by (simp add: trim_def ltrim_def)

lemma header_lines_eol: "is_eol c \<Longrightarrow> header_lines (c # s) = header_lines s"
  by (subst header_lines.simps, subst (2) header_lines.simps) (simp add: Let_def)

lemma header_lines_Nil [simp]: "header_lines [] = []"
  by (simp add: header_lines.simps)

lemma header_lines_cons:
  assumes "l \<noteq> []" and "list_all (\<lambda>c. \<not> is_eol c) l" and "is_eol e"
  shows "header_lines (l @ e # rest) = l # header_lines (e # rest)"
proof -
  obtain c r where l: "l = c # r" using assms(1) by (cases l) auto
  have d: "dropWhile is_eol (l @ e # rest) = l @ e # rest" using assms(2) l by simp
  have t: "takeWhile (\<lambda>c. \<not> is_eol c) (l @ e # rest) = l"
    "dropWhile (\<lambda>c. \<not> is_eol c) (l @ e # rest) = e # rest"
    using assms(2,3) by (simp_all add: list_all_iff takeWhile_append2 dropWhile_append2)
  have "l @ e # rest \<noteq> []" by simp
  then show ?thesis
    by (subst header_lines.simps) (simp only: d t Let_def if_False simp_thms)
qed

lemma header_lines_build:
  "\<forall>p\<in>set m. header_ok p \<Longrightarrow>
   header_lines (buildHeadersString m) = map (\<lambda>(k, v). k @ '': '' @ v) m"
proof (induction m)
  case (Cons p m)
  obtain k v where p: "p = (k, v)" by (cases p)
  have ok: "list_all (\<lambda>c. \<not> is_eol c) (k @ '': '' @ v)"
    using Cons.prems p by (auto simp: header_ok_def is_eol_def)
  have "buildHeadersString (p # m) = (k @ '': '' @ v) @ CHR 0x0D # CHR 0x0A # buildHeadersString m"
    by (simp add: buildHeadersString_def p crlf_def)
  then have "header_lines (buildHeadersString (p # m))
      = (k @ '': '' @ v) # header_lines (CHR 0x0D # CHR 0x0A # buildHeadersString m)"
    using header_lines_cons [OF _ ok, of "CHR 0x0D"] by (simp add: is_eol_def)
  then show ?case
    using Cons p by (simp add: header_lines_eol is_eol_def)
qed (simp add: buildHeadersString_def)

lemma header_line_ok:
  "header_ok (k, v) \<Longrightarrow> header_line (k @ CHR '':'' # CHR '' '' # v) m = map_put k v m"
  using find_char_hit0 [of "CHR '':''" k "CHR '' '' # v"] trim_blank_front [of "CHR '' ''" v]
  by (auto simp: header_line_def header_ok_def trimmed_def is_space_def byte_def trim_id Let_def)

lemma build_empty: "buildHeadersString m = [] \<longleftrightarrow> m = []"
  by (cases m) (auto simp: buildHeadersString_def crlf_def)

lemma build_parse:
  assumes "sorted_map m" and "\<forall>p\<in>set m. header_ok p"
  shows "parseHeaders (buildHeadersString m) [] = m"
proof -
  have "foldl (\<lambda>h line. header_line line h) h (map (\<lambda>(k, v). k @ '': '' @ v) ps)
      = foldl (\<lambda>m (k, v). map_put k v m) h ps" if "\<forall>p\<in>set ps. header_ok p" for h ps
    using that
  proof (induction ps arbitrary: h)
    case (Cons p ps)
    then show ?case by (cases p) (simp add: header_line_ok)
  qed simp
  then show ?thesis
    using assms header_lines_build [OF assms(2)] map_put_sorted [of "[]" m] build_empty [of m]
    by (auto simp: parseHeaders_def)
qed

section \<open>Reading back URLs\<close>

lemma find_char_skip:
  "c \<notin> set xs \<Longrightarrow> find_char c (length pre) (pre @ xs @ ys)
    = map_option (\<lambda>i. length pre + (length xs + i)) (find_idx (\<lambda>x. x = c) ys)"
proof -
  assume "c \<notin> set xs"
  then have "find_idx (\<lambda>x. x = c) (xs @ ys) = map_option (\<lambda>i. length xs + i) (find_idx (\<lambda>x. x = c) ys)"
    by (intro find_idx_skip) auto
  then show ?thesis by (simp add: find_char_def find_from_def option.map_comp comp_def)
qed

definition url_path :: "string \<Rightarrow> bool" where
  "url_path path = (path = [] \<or> hd path = CHR ''/'')"

lemma authority_plain:
  assumes "trimmed host" and "CHR '':'' \<notin> set host" and "CHR ''/'' \<notin> set host" and "url_path path"
  shows "parse_authority (pre @ host @ path) (length pre)
    = Some (host, 0, if path = [] then None else Some (length pre + length host))"
proof (cases path)
  case Nil
  then show ?thesis
    using assms find_char_skip [of _ host pre "[]"]
    by (auto simp: parse_authority_def substr_def Let_def trimmed_def trim_id)
next
  case (Cons c r)
  then have c: "c = CHR ''/''" using assms(4) by (simp add: url_path_def)
  have slash: "find_char (CHR ''/'') (length pre) (pre @ host @ path) = Some (length pre + length host)"
    using find_char_skip [OF assms(3), of pre path] Cons c by simp
  show ?thesis
  proof (cases "find_char (CHR '':'') (length pre) (pre @ host @ path)")
    case None
    then show ?thesis
      using assms slash Cons by (simp add: parse_authority_def substr_def Let_def trimmed_def trim_id)
  next
    case (Some q)
    then have "length pre + length host \<le> q"
      using find_char_skip [OF assms(2), of pre path] by auto
    then show ?thesis
      using assms slash Some Cons by (simp add: parse_authority_def substr_def Let_def trimmed_def trim_id)
  qed
qed

lemma authority_port:
  assumes "trimmed host" and "CHR '':'' \<notin> set host" and "CHR ''/'' \<notin> set host" and "url_path path"
    and "n < 2 ^ 31"
  shows "parse_authority (pre @ host @ CHR '':'' # dec_nat n @ path) (length pre)
    = Some (host, int n, if path = [] then None
        else Some (length pre + length host + 1 + length (dec_nat n)))"
proof -
  have digits: "CHR ''/'' \<notin> set (dec_nat n)"
    using dec_nat_digits [of "CHR ''/''" n] by (auto simp: is_digit_def byte_def)
  have colon: "find_char (CHR '':'') (length pre) (pre @ host @ CHR '':'' # dec_nat n @ path)
      = Some (length pre + length host)"
    using find_char_skip [OF assms(2), of pre "CHR '':'' # dec_nat n @ path"] by simp
  have slash: "find_char (CHR ''/'') (length pre) (pre @ host @ CHR '':'' # dec_nat n @ path)
      = (if path = [] then None else Some (length pre + length host + 1 + length (dec_nat n)))"
  proof -
    have "CHR ''/'' \<notin> set (host @ CHR '':'' # dec_nat n)" using assms(3) digits by auto
    from find_char_skip [OF this, of pre path] show ?thesis
      using assms(4) by (cases path) (auto simp: url_path_def)
  qed
  show ?thesis
    using assms colon slash stoi_dec_nat [of n]
    by (cases path) (auto simp: parse_authority_def substr_def Let_def trimmed_def trim_id)
qed

section \<open>Properties\<close>

text \<open>
  C31: \<open>parseHeaders\<close> reads back exactly the map that \<open>buildHeadersString\<close> wrote, for names in lower case
  without colon and values without line breaks, both without outer white space.
\<close>

theorem headers_round_trip:
  assumes "sorted_map m" and "\<forall>p\<in>set m. header_ok p"
  shows "parseHeaders (buildHeadersString m) [] = m"
  using assms by (rule build_parse)

lemma headers_round_trip_witness:
  "parseHeaders (buildHeadersString [(''accept'', ''*/*''), (''x-id'', ''a b'')]) []
     = [(''accept'', ''*/*''), (''x-id'', ''a b'')]"
  by (rule headers_round_trip)
    (simp_all add: sorted_map_def header_ok_def trimmed_def is_space_def is_eol_def byte_def
      to_lower_def lower_char_def is_upper_def)

text \<open>
  A URL with a lower-case scheme, a host without colon and slash, an optional port and an optional
  path is taken apart into these parts, in every transport; a missing port becomes the default of the
  scheme and a missing path becomes \<open>/\<close>.
\<close>

theorem parse_url_parts:
  assumes "to_lower scheme = scheme" and "CHR '':'' \<notin> set scheme" and "trimmed host"
    and "CHR '':'' \<notin> set host" and "CHR ''/'' \<notin> set host"
    and "port = [] \<or> (port = CHR '':'' # dec_nat n \<and> 0 < n \<and> n < 2 ^ 31)" and "url_path path"
    and "trimmed (scheme @ ''://'' @ host @ port @ path)"
  shows "parse_url dflt secure (scheme @ ''://'' @ host @ port @ path) =
    Some \<lparr>pu_scheme = scheme, pu_host = host,
      pu_port = (if port \<noteq> [] then int n else if scheme \<in> set secure then 443 else 80),
      pu_path = (if path = [] then ''/'' else path)\<rparr>"
proof -
  let ?pre = "scheme @ ''://''"
  define u where "u = scheme @ ''://'' @ host @ port @ path"
  define k where "k = length ?pre + length host + length port"
  have "find_sub ''://'' u = Some (length scheme)"
    using find_sub_skip [OF assms(2), of "''//''" "''://'' @ host @ port @ path"] by (simp add: u_def)
  moreover have "trim u = u" "u \<noteq> []" using assms(8) by (simp_all add: u_def)
  moreover have "substr 0 (length scheme) u = scheme" by (simp add: substr_def u_def)
  moreover have "drop k u = path"
    using append_eq_conv_conj [of "?pre @ host @ port" path u] by (simp add: u_def k_def)
  moreover have "parse_authority u (length scheme + 3) =
      Some (host, if port = [] then 0 else int n, if path = [] then None else Some k)"
  proof -
    have len: "length scheme + 3 = length ?pre" by simp
    show ?thesis
    proof (cases "port = []")
      case True
      then show ?thesis unfolding len k_def u_def
        using authority_plain [OF assms(3,4,5,7), of ?pre] by simp
    next
      case False
      then show ?thesis unfolding len k_def u_def
        using authority_port [OF assms(3,4,5,7), of n ?pre] assms(6) by simp
    qed
  qed
  ultimately have "parse_url dflt secure u =
    Some \<lparr>pu_scheme = scheme, pu_host = host,
      pu_port = (if port \<noteq> [] then int n else if scheme \<in> set secure then 443 else 80),
      pu_path = (if path = [] then ''/'' else path)\<rparr>"
    using assms(1,6) by (auto simp: parse_url_def Let_def)
  then show ?thesis unfolding u_def .
qed

lemma parse_url_parts_witness:
  "HttpTransport_parseUrl (''http://example.org:'' @ dec_nat 8080 @ ''/a:b'')
     = Some \<lparr>pu_scheme = ''http'', pu_host = ''example.org'', pu_port = 8080, pu_path = ''/a:b''\<rparr>
   \<and> WebSocketTransport_parseUrl ''wss://h''
     = Some \<lparr>pu_scheme = ''wss'', pu_host = ''h'', pu_port = 443, pu_path = ''/''\<rparr>"
  using parse_url_parts [of "''http''" "''example.org''" "CHR '':'' # dec_nat 8080" 8080 "''/a:b''" "''http''"
      "[''https'']"]
    parse_url_parts [of "''wss''" "''h''" "[]" 1 "[]" "''ws''" "[''wss'', ''https'']"]
  by (simp add: HttpTransport_parseUrl_def WebSocketTransport_parseUrl_def trimmed_def is_space_def
      byte_def to_lower_def lower_char_def is_upper_def url_path_def)

end
