(* ===== verification/Transport.thy ===== *)
theory Transport imports HttpText begin

text \<open>
  The client side: the types of include/intertwine/fw/TransportTypes.hpp and the contract of
  \<open>ITransport\<close> (include/intertwine/fw/ITransport.hpp), which every transport of the following theories
  is shown to keep.
\<close>

section \<open>Requests and responses\<close>

record Request =
  rq_url :: string
  rq_method :: string
  rq_headers :: string
  rq_body :: string
  rq_timeout :: int
  rq_connect_timeout :: int
  rq_read_timeout :: int
  rq_write_timeout :: int
  rq_close_timeout :: int
  rq_keepalive_timeout :: int

definition Request_ctor :: Request where
  "Request_ctor =
     \<lparr>rq_url = [], rq_method = [], rq_headers = [], rq_body = [], rq_timeout = -1,
      rq_connect_timeout = -1, rq_read_timeout = -1, rq_write_timeout = -1, rq_close_timeout = -1,
      rq_keepalive_timeout = -1\<rparr>"

record Response =
  rs_statusCode :: int
  rs_headers :: string
  rs_body :: string
  rs_errorMessage :: string

definition Response_ctor :: Response where
  "Response_ctor = \<lparr>rs_statusCode = 0, rs_headers = [], rs_body = [], rs_errorMessage = []\<rparr>"

definition isSuccess :: "Response \<Rightarrow> bool" where
  "isSuccess r = (200 \<le> rs_statusCode r \<and> rs_statusCode r < 300)"

record SslConfig =
  ssl_caCertPath :: string
  ssl_clientCertPath :: string
  ssl_clientKeyPath :: string
  ssl_clientKeyPassword :: string
  ssl_verifyPeer :: bool
  ssl_verifyHost :: bool
  ssl_sslVersion :: string
  ssl_sessionReuse :: bool

definition SslConfig_ctor :: SslConfig where
  "SslConfig_ctor =
     \<lparr>ssl_caCertPath = [], ssl_clientCertPath = [], ssl_clientKeyPath = [], ssl_clientKeyPassword = [],
      ssl_verifyPeer = True, ssl_verifyHost = True, ssl_sslVersion = ''TLS1.2'', ssl_sessionReuse = True\<rparr>"

text \<open>How every transport reports a failure: status \<open>-1\<close>, a message, and the result \<open>-1\<close>.\<close>

definition fail_with :: "string \<Rightarrow> Response \<Rightarrow> Response" where
  "fail_with message resp = resp\<lparr>rs_statusCode := -1, rs_errorMessage := message\<rparr>"

lemma fail_with_simps [simp]:
  "rs_statusCode (fail_with m r) = -1" "rs_errorMessage (fail_with m r) = m"
  "rs_body (fail_with m r) = rs_body r" "rs_headers (fail_with m r) = rs_headers r"
  by (simp_all add: fail_with_def)

text \<open>A call of the library that gives a number, or throws.\<close>

datatype lib_result = Gives int | Throws string | ThrowsUnknown

text \<open>How \<open>sendRequest\<close> of the socket transports reports an exception: its two \<open>catch\<close> blocks.\<close>

fun caught :: "lib_result \<Rightarrow> Response \<Rightarrow> Response" where
  "caught (Throws what) resp = fail_with (''Exception: '' @ what) resp"
| "caught _ resp = fail_with ''Unknown exception'' resp"

lemma caught_status [simp]: "rs_statusCode (caught e resp) = -1"
  by (cases e) simp_all

section \<open>The contract of a transport\<close>

text \<open>
  \<open>'e\<close> is what the outside world does during a call.  A call that never returns is \<open>None\<close>.
\<close>

datatype 'e transport_call = TSend 'e Request | TReceive 'e | TDisconnect

locale transport =
  fixes send :: "'e \<Rightarrow> Request \<Rightarrow> Response \<Rightarrow> 's \<Rightarrow> (int \<times> Response \<times> 's) option"
    and receive :: "'e \<Rightarrow> Response \<Rightarrow> 's \<Rightarrow> (int \<times> Response \<times> 's) option"
    and disconnect :: "'s \<Rightarrow> 's"
    and connected :: "'s \<Rightarrow> bool"
  assumes send_result: "send e q r s = Some (ret, r', s') \<Longrightarrow>
      ret = 0 \<or> (ret = -1 \<and> rs_statusCode r' = -1)"
    and receive_result: "receive e r s = Some (ret, r', s') \<Longrightarrow>
      ret = 0 \<or> (ret = -1 \<and> rs_statusCode r' = -1)"
    and receive_closed: "\<not> connected s \<Longrightarrow> \<exists>r' s'. receive e r s = Some (-1, r', s')"
    and disconnect_closed: "\<not> connected (disconnect s)"
begin

text \<open>A session: the results of the calls that were made, each into a fresh response.\<close>

fun session :: "'s \<Rightarrow> 'e transport_call list \<Rightarrow> ((int \<times> Response) list \<times> 's) option" where
  "session s [] = Some ([], s)"
| "session s (TSend e q # cs) =
     (case send e q Response_ctor s of
        None \<Rightarrow> None
      | Some (ret, r, s1) \<Rightarrow> map_option (\<lambda>(rs, s2). ((ret, r) # rs, s2)) (session s1 cs))"
| "session s (TReceive e # cs) =
     (case receive e Response_ctor s of
        None \<Rightarrow> None
      | Some (ret, r, s1) \<Rightarrow> map_option (\<lambda>(rs, s2). ((ret, r) # rs, s2)) (session s1 cs))"
| "session s (TDisconnect # cs) = session (disconnect s) cs"

text \<open>A caller can tell failure from the response alone: it never looks like a success.\<close>

lemma session_failures:
  "session s cs = Some (rs, s') \<Longrightarrow> (ret, r) \<in> set rs \<Longrightarrow> ret \<noteq> 0 \<Longrightarrow> ret = -1 \<and> \<not> isSuccess r"
proof (induction s cs arbitrary: rs rule: session.induct)
  case (2 s e q cs)
  then show ?case using send_result by (fastforce simp: isSuccess_def split: option.splits)
next
  case (3 s e cs)
  then show ?case using receive_result by (fastforce simp: isSuccess_def split: option.splits)
qed auto

lemma receive_after_disconnect: "\<exists>r s'. session s [TDisconnect, TReceive e] = Some ([(-1, r)], s')"
proof -
  obtain r' s' where "receive e Response_ctor (disconnect s) = Some (-1, r', s')"
    using receive_closed [OF disconnect_closed] by blast
  then show ?thesis by simp
qed

end

end
