(* ===== verification/HttpClients.thy ===== *)
theory HttpClients imports Transport "HOL-Library.Signed_Division" begin

text \<open>
  \<open>HttpTransport\<close> (src/HttpTransport.cpp) and \<open>HttpsTransport\<close> (src/HttpsTransport.cpp).  Both hold a
  client of libhv, which is not part of the repository: its \<open>send\<close> is an argument, and so is
  \<open>http_method_enum\<close>.  The two \<open>sendRequest\<close> functions are the same code but for the schemes they
  accept; the common part is \<open>http_exchange\<close>, on the fields that both classes have.
\<close>

section \<open>What the client library is given and gives back\<close>

datatype hv_method =
    HTTP_GET | HTTP_POST | HTTP_PUT | HTTP_DELETE | HTTP_HEAD | HTTP_OPTIONS | HTTP_ENUM int

record hv_request =
  hq_url :: string
  hq_method :: hv_method
  hq_headers :: "string std_map"
  hq_body :: string
  hq_timeout :: "16 word"
  hq_connect_timeout :: "16 word"

text \<open>The headers in the order of their iteration, and the look-up of the library's map.\<close>

record hv_response =
  hr_status_code :: int
  hr_headers :: "(string \<times> string) list"
  hr_find :: "string \<Rightarrow> string option"
  hr_body :: string

datatype send_outcome = Returned int hv_response | Threw string | ThrewUnknown

type_synonym hv_send = "hv_request \<Rightarrow> send_outcome"

section \<open>State\<close>

text \<open>\<open>m_client\<close> is there or is null.\<close>

record HttpTransport =
  ht_client :: bool
  ht_timeout :: int
  ht_connectTimeout :: int
  ht_readTimeout :: int
  ht_writeTimeout :: int
  ht_closeTimeout :: int
  ht_keepaliveTimeout :: int
  ht_connected :: bool

text \<open>\<open>created\<close> tells whether the client could be constructed.\<close>

definition HttpTransport_ctor :: "bool \<Rightarrow> HttpTransport" where
  "HttpTransport_ctor created =
     \<lparr>ht_client = created, ht_timeout = 30000, ht_connectTimeout = 3000, ht_readTimeout = 30000,
      ht_writeTimeout = 30000, ht_closeTimeout = 5000, ht_keepaliveTimeout = 60000,
      ht_connected = False\<rparr>"

record ssl_opt =
  so_verify_peer :: int
  so_ca_path :: "string option"
  so_ca_file :: "string option"
  so_crt_file :: "string option"
  so_key_file :: "string option"

datatype tls_version = TLS1_VERSION | TLS1_1_VERSION | TLS1_2_VERSION | TLS1_3_VERSION

text \<open>\<open>hs_sslCtx\<close> is the context that the client was last given.\<close>

record HttpsTransport = HttpTransport +
  hs_sslConfig :: SslConfig
  hs_sslCtx :: "(ssl_opt \<times> tls_version option) option"

section \<open>Requests\<close>

definition http_method :: "(string \<Rightarrow> int) \<Rightarrow> string \<Rightarrow> hv_method" where
  "http_method http_method_enum method =
     (if method = [] then HTTP_GET
      else
        (let methodUpper = to_upper method
         in if methodUpper = ''GET'' then HTTP_GET
            else if methodUpper = ''POST'' then HTTP_POST
            else if methodUpper = ''PUT'' then HTTP_PUT
            else if methodUpper = ''DELETE'' then HTTP_DELETE
            else if methodUpper = ''HEAD'' then HTTP_HEAD
            else if methodUpper = ''OPTIONS'' then HTTP_OPTIONS
            else HTTP_ENUM (http_method_enum (c_str method))))"

text \<open>Milliseconds to the seconds of the library; the division truncates, the conversion wraps.\<close>

definition to_seconds :: "int \<Rightarrow> 16 word" where
  "to_seconds ms = word_of_int (min (ms sdiv 1000) 65535)"

definition http_request :: "(string \<Rightarrow> int) \<Rightarrow> Request \<Rightarrow> 'a HttpTransport_scheme \<Rightarrow> hv_request" where
  "http_request enum req t =
     \<lparr>hq_url = rq_url req, hq_method = http_method enum (rq_method req),
      hq_headers = parseHeaders (rq_headers req) [], hq_body = rq_body req,
      hq_timeout = to_seconds (if 0 \<le> rq_timeout req then rq_timeout req else ht_timeout t),
      hq_connect_timeout =
        to_seconds (if 0 \<le> rq_connect_timeout req then rq_connect_timeout req else ht_connectTimeout t)\<rparr>"

definition http_response :: "hv_response \<Rightarrow> Response \<Rightarrow> Response" where
  "http_response hv resp =
     (let resp1 = resp\<lparr>rs_statusCode := hr_status_code hv, rs_body := hr_body hv,
                       rs_headers := buildHeadersString (hr_headers hv)\<rparr>
      in if 400 \<le> hr_status_code hv then
           (let reason = (case hr_find hv ''reason'' of
                            Some s \<Rightarrow> s
                          | None \<Rightarrow> (case hr_find hv ''Reason-Phrase'' of
                                        Some s \<Rightarrow> s | None \<Rightarrow> ''Request failed''))
            in resp1\<lparr>rs_errorMessage := ''HTTP '' @ dec_int (hr_status_code hv) @ '': '' @ reason\<rparr>)
         else resp1)"

definition http_exchange ::
  "(string \<Rightarrow> int) \<Rightarrow> hv_send \<Rightarrow> Request \<Rightarrow> Response \<Rightarrow> 'a HttpTransport_scheme \<Rightarrow>
   int \<times> Response \<times> 'a HttpTransport_scheme" where
  "http_exchange enum send req resp t =
     (case send (http_request enum req t) of
        Threw what \<Rightarrow> (-1, fail_with (''Exception: '' @ what) resp, t\<lparr>ht_connected := False\<rparr>)
      | ThrewUnknown \<Rightarrow> (-1, fail_with ''Unknown exception'' resp, t\<lparr>ht_connected := False\<rparr>)
      | Returned ret hv \<Rightarrow>
          if ret \<noteq> 0
          then (-1, fail_with (''Request failed with code: '' @ dec_int ret @ '', URL: '' @ rq_url req) resp,
                t\<lparr>ht_connected := False\<rparr>)
          else (0, http_response hv resp, t\<lparr>ht_connected := True\<rparr>))"

definition HttpTransport_sendRequest ::
  "(string \<Rightarrow> int) \<Rightarrow> hv_send \<Rightarrow> Request \<Rightarrow> Response \<Rightarrow> HttpTransport \<Rightarrow> int \<times> Response \<times> HttpTransport" where
  "HttpTransport_sendRequest enum send req resp t =
     (if \<not> ht_client t then (-1, fail_with ''HttpClient not initialized'' resp, t)
      else
        (case HttpTransport_parseUrl (rq_url req) of
           None \<Rightarrow> (-1, fail_with (''Invalid URL format: '' @ rq_url req) resp, t)
         | Some u \<Rightarrow>
             if pu_scheme u \<noteq> ''http''
             then (-1, fail_with ''Only HTTP scheme is supported (use HttpsTransport for HTTPS)'' resp, t)
             else http_exchange enum send req resp t))"

definition HttpsTransport_sendRequest ::
  "(string \<Rightarrow> int) \<Rightarrow> hv_send \<Rightarrow> Request \<Rightarrow> Response \<Rightarrow> HttpsTransport \<Rightarrow> int \<times> Response \<times> HttpsTransport" where
  "HttpsTransport_sendRequest enum send req resp t =
     (if \<not> ht_client t then (-1, fail_with ''HttpClient not initialized'' resp, t)
      else
        (case HttpsTransport_parseUrl (rq_url req) of
           None \<Rightarrow> (-1, fail_with (''Invalid URL format: '' @ rq_url req) resp, t)
         | Some u \<Rightarrow>
             if pu_scheme u \<noteq> ''http'' \<and> pu_scheme u \<noteq> ''https''
             then (-1, fail_with ''Only HTTP and HTTPS schemes are supported'' resp, t)
             else http_exchange enum send req resp t))"

section \<open>The other operations\<close>

definition http_receiveResponse ::
  "Response \<Rightarrow> 'a HttpTransport_scheme \<Rightarrow> int \<times> Response \<times> 'a HttpTransport_scheme" where
  "http_receiveResponse resp t =
     (if ht_connected t then (0, resp, t) else (-1, fail_with ''No active connection'' resp, t))"

definition http_isConnected :: "'a HttpTransport_scheme \<Rightarrow> bool" where
  "http_isConnected t = (ht_connected t \<and> ht_client t)"

definition http_connect :: "'a HttpTransport_scheme \<Rightarrow> bool" where
  "http_connect t = (ht_connected t \<and> ht_client t)"

definition http_disconnect :: "'a HttpTransport_scheme \<Rightarrow> 'a HttpTransport_scheme" where
  "http_disconnect t = t\<lparr>ht_client := False, ht_connected := False\<rparr>"

definition http_setTimeout :: "int \<Rightarrow> 'a HttpTransport_scheme \<Rightarrow> 'a HttpTransport_scheme" where
  "http_setTimeout ms t = t\<lparr>ht_timeout := ms\<rparr>"

definition http_setConnectTimeout :: "int \<Rightarrow> 'a HttpTransport_scheme \<Rightarrow> 'a HttpTransport_scheme" where
  "http_setConnectTimeout ms t = t\<lparr>ht_connectTimeout := ms\<rparr>"

definition http_setReadTimeout :: "int \<Rightarrow> 'a HttpTransport_scheme \<Rightarrow> 'a HttpTransport_scheme" where
  "http_setReadTimeout ms t = t\<lparr>ht_readTimeout := ms\<rparr>"

definition http_setWriteTimeout :: "int \<Rightarrow> 'a HttpTransport_scheme \<Rightarrow> 'a HttpTransport_scheme" where
  "http_setWriteTimeout ms t = t\<lparr>ht_writeTimeout := ms\<rparr>"

definition http_setCloseTimeout :: "int \<Rightarrow> 'a HttpTransport_scheme \<Rightarrow> 'a HttpTransport_scheme" where
  "http_setCloseTimeout ms t = t\<lparr>ht_closeTimeout := ms\<rparr>"

definition http_setKeepaliveTimeout :: "int \<Rightarrow> 'a HttpTransport_scheme \<Rightarrow> 'a HttpTransport_scheme" where
  "http_setKeepaliveTimeout ms t = t\<lparr>ht_keepaliveTimeout := ms\<rparr>"

section \<open>The TLS context\<close>

text \<open>What the TLS functions return, as built \<open>WITH_OPENSSL\<close> on OpenSSL 1.1 or later.\<close>

record ssl_env =
  se_hssl_ctx_new :: bool
  se_set_min_max :: bool
  se_setSslCtx :: int
  se_newSslCtx :: int

definition ssl_options :: "SslConfig \<Rightarrow> ssl_opt" where
  "ssl_options cfg =
     (let ca = ssl_caCertPath cfg; isDir = (ca \<noteq> [] \<and> last ca = CHR ''/'')
      in \<lparr>so_verify_peer = (if ssl_verifyPeer cfg then 1 else 0),
          so_ca_path = (if ca \<noteq> [] \<and> isDir then Some (c_str ca) else None),
          so_ca_file = (if ca \<noteq> [] \<and> \<not> isDir then Some (c_str ca) else None),
          so_crt_file = (if ssl_clientCertPath cfg \<noteq> [] then Some (c_str (ssl_clientCertPath cfg)) else None),
          so_key_file = (if ssl_clientKeyPath cfg \<noteq> [] then Some (c_str (ssl_clientKeyPath cfg)) else None)\<rparr>)"

definition ssl_version :: "string \<Rightarrow> tls_version option" where
  "ssl_version sslVersion =
     (let versionUpper = to_upper sslVersion
      in if versionUpper = ''TLS1.0'' \<or> versionUpper = ''TLS1_0'' then Some TLS1_VERSION
         else if versionUpper = ''TLS1.1'' \<or> versionUpper = ''TLS1_1'' then Some TLS1_1_VERSION
         else if versionUpper = ''TLS1.2'' \<or> versionUpper = ''TLS1_2'' then Some TLS1_2_VERSION
         else if versionUpper = ''TLS1.3'' \<or> versionUpper = ''TLS1_3'' then Some TLS1_3_VERSION
         else None)"

definition configureSsl :: "ssl_env \<Rightarrow> HttpsTransport \<Rightarrow> HttpsTransport" where
  "configureSsl env t =
     (if \<not> ht_client t then t
      else
        (let cfg = hs_sslConfig t; opt = ssl_options cfg;
             viaNew = (if se_newSslCtx env \<noteq> 0 then t else t\<lparr>hs_sslCtx := Some (opt, None)\<rparr>)
         in if ssl_sslVersion cfg \<noteq> [] then
              (if se_hssl_ctx_new env then
                 (let version = (case ssl_version (ssl_sslVersion cfg) of
                                   None \<Rightarrow> None
                                 | Some v \<Rightarrow> if se_set_min_max env then Some v else None)
                  in if se_setSslCtx env \<noteq> 0 then t else t\<lparr>hs_sslCtx := Some (opt, version)\<rparr>)
               else viaNew)
            else viaNew))"

text \<open>As built with another TLS library: the version is never set.\<close>

definition configureSsl_other :: "ssl_env \<Rightarrow> HttpsTransport \<Rightarrow> HttpsTransport" where
  "configureSsl_other env t =
     (if \<not> ht_client t then t
      else if se_newSslCtx env \<noteq> 0 then t
      else t\<lparr>hs_sslCtx := Some (ssl_options (hs_sslConfig t), None)\<rparr>)"

definition HttpsTransport_ctor :: "bool \<Rightarrow> ssl_env \<Rightarrow> SslConfig \<Rightarrow> HttpsTransport" where
  "HttpsTransport_ctor created env sslConfig =
     configureSsl env
       \<lparr>ht_client = created, ht_timeout = 30000, ht_connectTimeout = 3000, ht_readTimeout = 30000,
        ht_writeTimeout = 30000, ht_closeTimeout = 5000, ht_keepaliveTimeout = 60000,
        ht_connected = False, hs_sslConfig = sslConfig, hs_sslCtx = None\<rparr>"

text \<open>The default constructor: a default \<open>SslConfig\<close>, with four of its fields set again.\<close>

definition default_ssl :: SslConfig where
  "default_ssl = SslConfig_ctor\<lparr>ssl_verifyPeer := True, ssl_verifyHost := True, ssl_sslVersion := ''TLS1.2'',
     ssl_sessionReuse := True\<rparr>"

definition HttpsTransport_default :: "bool \<Rightarrow> ssl_env \<Rightarrow> HttpsTransport" where
  "HttpsTransport_default created env = HttpsTransport_ctor created env default_ssl"

definition setSslConfig :: "ssl_env \<Rightarrow> SslConfig \<Rightarrow> HttpsTransport \<Rightarrow> HttpsTransport" where
  "setSslConfig env config t = configureSsl env (t\<lparr>hs_sslConfig := config\<rparr>)"

section \<open>The rest of \<open>HttpsTransport\<close> and \<open>HttpTransport\<close>\<close>

text \<open>
  The remaining methods are written twice in the code, once for each class, with the same bodies; those
  above are the ones of the class named there, these are their counterparts.
\<close>

definition HttpsTransport_receiveResponse :: "Response \<Rightarrow> HttpsTransport \<Rightarrow> int \<times> Response \<times> HttpsTransport" where
  "HttpsTransport_receiveResponse resp t =
     (if ht_connected t then (0, resp, t) else (-1, fail_with ''No active connection'' resp, t))"

definition HttpsTransport_connect :: "HttpsTransport \<Rightarrow> bool" where
  "HttpsTransport_connect t = (ht_connected t \<and> ht_client t)"

definition HttpsTransport_disconnect :: "HttpsTransport \<Rightarrow> HttpsTransport" where
  "HttpsTransport_disconnect t = t\<lparr>ht_client := False, ht_connected := False\<rparr>"

definition HttpsTransport_isConnected :: "HttpsTransport \<Rightarrow> bool" where
  "HttpsTransport_isConnected t = (ht_connected t \<and> ht_client t)"

definition HttpTransport_setTimeout :: "int \<Rightarrow> HttpTransport \<Rightarrow> HttpTransport" where
  "HttpTransport_setTimeout ms t = t\<lparr>ht_timeout := ms\<rparr>"

definition HttpTransport_setConnectTimeout :: "int \<Rightarrow> HttpTransport \<Rightarrow> HttpTransport" where
  "HttpTransport_setConnectTimeout ms t = t\<lparr>ht_connectTimeout := ms\<rparr>"

definition HttpTransport_setReadTimeout :: "int \<Rightarrow> HttpTransport \<Rightarrow> HttpTransport" where
  "HttpTransport_setReadTimeout ms t = t\<lparr>ht_readTimeout := ms\<rparr>"

definition HttpTransport_setWriteTimeout :: "int \<Rightarrow> HttpTransport \<Rightarrow> HttpTransport" where
  "HttpTransport_setWriteTimeout ms t = t\<lparr>ht_writeTimeout := ms\<rparr>"

definition HttpTransport_setCloseTimeout :: "int \<Rightarrow> HttpTransport \<Rightarrow> HttpTransport" where
  "HttpTransport_setCloseTimeout ms t = t\<lparr>ht_closeTimeout := ms\<rparr>"

definition HttpTransport_setKeepaliveTimeout :: "int \<Rightarrow> HttpTransport \<Rightarrow> HttpTransport" where
  "HttpTransport_setKeepaliveTimeout ms t = t\<lparr>ht_keepaliveTimeout := ms\<rparr>"

text \<open>So the two classes share the facts about these methods.\<close>

lemma https_as_http [simp]:
  "HttpsTransport_receiveResponse = http_receiveResponse" "HttpsTransport_connect = http_connect"
  "HttpsTransport_disconnect = http_disconnect" "HttpsTransport_isConnected = http_isConnected"
  by (simp_all add: fun_eq_iff HttpsTransport_receiveResponse_def HttpsTransport_connect_def
      HttpsTransport_disconnect_def HttpsTransport_isConnected_def http_receiveResponse_def http_connect_def
      http_disconnect_def http_isConnected_def)

lemmas http_setters = HttpTransport_setTimeout_def HttpTransport_setConnectTimeout_def
  HttpTransport_setReadTimeout_def HttpTransport_setWriteTimeout_def HttpTransport_setCloseTimeout_def
  HttpTransport_setKeepaliveTimeout_def

section \<open>The contract\<close>

type_synonym hv_env = "(string \<Rightarrow> int) \<times> hv_send"

lemma exchange_result:
  "http_exchange enum send req resp t = (ret, r', t') \<Longrightarrow> ret = 0 \<or> (ret = -1 \<and> rs_statusCode r' = -1)"
  by (auto simp: http_exchange_def split: send_outcome.splits if_splits)

interpretation http: transport
  "\<lambda>(enum, send) q r t. Some (HttpTransport_sendRequest enum send q r t)"
  "\<lambda>(e :: hv_env) r (t :: HttpTransport). Some (http_receiveResponse r t)"
  http_disconnect ht_connected
  by unfold_locales
    (auto simp: HttpTransport_sendRequest_def http_receiveResponse_def http_disconnect_def
      dest: exchange_result split: if_splits option.splits)

interpretation https: transport
  "\<lambda>(enum, send) q r t. Some (HttpsTransport_sendRequest enum send q r t)"
  "\<lambda>(e :: hv_env) r (t :: HttpsTransport). Some (HttpsTransport_receiveResponse r t)"
  HttpsTransport_disconnect ht_connected
  by unfold_locales
    (auto simp: HttpsTransport_sendRequest_def http_receiveResponse_def http_disconnect_def
      dest: exchange_result split: if_splits option.splits)

lemma to_seconds_nonneg: "0 \<le> ms \<Longrightarrow> uint (to_seconds ms) = min (ms div 1000) 65535"
proof -
  assume "0 \<le> ms"
  then have "ms sdiv 1000 = ms div 1000" "0 \<le> ms div 1000"
    by (simp_all add: signed_divide_int_def sgn_if pos_imp_zdiv_nonneg_iff)
  then show ?thesis
    by (simp add: to_seconds_def uint_word_of_int take_bit_int_eq_self min_def)
qed

section \<open>Properties\<close>

text \<open>
  If \<open>sendRequest\<close> returns 0, the URL was an HTTP URL and the library was given exactly the caller's
  URL, body and headers, with the time limit in whole seconds (so a limit below one second becomes 0);
  the response carries the status and body of the library's answer, and its header text parses back to
  the answer's headers.
\<close>

theorem HttpTransport_send_ok:
  assumes "HttpTransport_sendRequest enum send req resp t = (0, resp', t')"
    and "0 \<le> rq_timeout req"
  shows "\<exists>q hv u. HttpTransport_parseUrl (rq_url req) = Some u \<and> pu_scheme u = ''http''
    \<and> send q = Returned 0 hv
    \<and> hq_url q = rq_url req \<and> hq_body q = rq_body req \<and> hq_headers q = parseHeaders (rq_headers req) []
    \<and> uint (hq_timeout q) = min (rq_timeout req div 1000) 65535
    \<and> rs_statusCode resp' = hr_status_code hv \<and> rs_body resp' = hr_body hv
    \<and> (\<not> (sorted_map (hr_headers hv) \<and> list_all header_ok (hr_headers hv))
       \<or> parseHeaders (rs_headers resp') [] = hr_headers hv)
    \<and> http_isConnected t'"
proof -
  obtain u where u: "ht_client t" "HttpTransport_parseUrl (rq_url req) = Some u" "pu_scheme u = ''http''"
    and ex: "http_exchange enum send req resp t = (0, resp', t')"
    using assms(1) by (auto simp: HttpTransport_sendRequest_def split: if_splits option.splits)
  then obtain hv where hv: "send (http_request enum req t) = Returned 0 hv"
    "resp' = http_response hv resp" "t' = t\<lparr>ht_connected := True\<rparr>"
    by (auto simp: http_exchange_def split: send_outcome.splits if_splits)
  have "parseHeaders (rs_headers resp') [] = hr_headers hv"
    if "sorted_map (hr_headers hv) \<and> list_all header_ok (hr_headers hv)"
    using build_parse that by (simp add: hv(2) http_response_def Let_def list_all_iff)
  then show ?thesis
    using u hv assms(2) to_seconds_nonneg
    by (intro exI [of _ "http_request enum req t"] exI [of _ hv] exI [of _ u])
      (auto simp: http_request_def http_response_def http_isConnected_def Let_def)
qed

lemma HttpTransport_send_ok_witness:
  "\<exists>resp' t'. HttpTransport_sendRequest (\<lambda>_. 0)
      (\<lambda>q. Returned 0 \<lparr>hr_status_code = 200, hr_headers = [], hr_find = (\<lambda>_. None), hr_body = ''ok''\<rparr>)
      (Request_ctor\<lparr>rq_url := ''h'', rq_timeout := 1500\<rparr>) Response_ctor (HttpTransport_ctor True)
      = (0, resp', t') \<and> http_isConnected t'"
proof -
  let ?send = "\<lambda>q. Returned 0 \<lparr>hr_status_code = 200, hr_headers = [], hr_find = (\<lambda>_. None), hr_body = ''ok''\<rparr>"
  let ?req = "Request_ctor\<lparr>rq_url := ''h'', rq_timeout := 1500\<rparr>"
  have "HttpTransport_parseUrl ''h'' = Some \<lparr>pu_scheme = ''http'', pu_host = ''h'', pu_port = 80, pu_path = ''/''\<rparr>"
    by (simp add: HttpTransport_parseUrl_def parse_url_def parse_authority_def find_char_def find_from_def
        trim_id is_space_def byte_def substr_def Let_def)
  then obtain r t' where run: "HttpTransport_sendRequest (\<lambda>_. 0) ?send ?req Response_ctor (HttpTransport_ctor True) = (0, r, t')"
    by (simp add: HttpTransport_sendRequest_def HttpTransport_ctor_def http_exchange_def Request_ctor_def)
  have "0 \<le> rq_timeout ?req" by simp
  from HttpTransport_send_ok [OF run this] run show ?thesis by blast
qed

lemma http_dead_session:
  "\<not> ht_client t \<Longrightarrow> \<not> ht_connected t \<Longrightarrow>
   \<exists>rs t'. http.session t cs = Some (rs, t') \<and> list_all (\<lambda>(ret, r). ret = -1 \<and> rs_statusCode r = -1) rs"
proof (induction cs arbitrary: t)
  case (Cons c cs)
  obtain rs t' where IH: "http.session t cs = Some (rs, t')"
    "list_all (\<lambda>(ret, r). ret = -1 \<and> rs_statusCode r = -1) rs"
    using Cons.IH [OF Cons.prems] by blast
  have idle: "http_disconnect t = t" using Cons.prems by (simp add: http_disconnect_def)
  have sendr: "HttpTransport_sendRequest enum send q r t = (-1, fail_with ''HttpClient not initialized'' r, t)"
    for enum send q r using Cons.prems by (simp add: HttpTransport_sendRequest_def)
  have recv: "http_receiveResponse r t = (-1, fail_with ''No active connection'' r, t)" for r
    using Cons.prems by (simp add: http_receiveResponse_def)
  show ?case
    using IH by (cases c) (auto simp: sendr recv idle)
qed simp

text \<open>
  \<open>disconnect\<close> is final: nothing recreates the client, so in every later sequence of calls each
  \<open>sendRequest\<close> and each \<open>receiveResponse\<close> returns and reports the failure.
\<close>

theorem HttpTransport_disconnect_final:
  "\<exists>rs t'. http.session (http_disconnect t) cs = Some (rs, t')
     \<and> list_all (\<lambda>(ret, r). ret = -1 \<and> rs_statusCode r = -1) rs"
  by (rule http_dead_session) (simp_all add: http_disconnect_def)

text \<open>
  The settings that change nothing: the read, write, close and keep-alive times of both HTTP transports and of
  their requests have no effect on what is sent or returned; neither has the password of the client's key,
  \<open>verifyHost\<close> or \<open>sessionReuse\<close> on the TLS context of an \<open>HttpsTransport\<close>.
\<close>

definition other_times :: "int \<Rightarrow> int \<Rightarrow> int \<Rightarrow> int \<Rightarrow> 'a HttpTransport_scheme \<Rightarrow> 'a HttpTransport_scheme" where
  "other_times r w c k t = http_setReadTimeout r (http_setWriteTimeout w (http_setCloseTimeout c (http_setKeepaliveTimeout k t)))"

lemmas other_times_defs = other_times_def http_setReadTimeout_def http_setWriteTimeout_def
  http_setCloseTimeout_def http_setKeepaliveTimeout_def

lemma other_times_client [simp]: "ht_client (other_times r w c k t) = ht_client t"
  by (simp add: other_times_defs)

lemma exchange_other_times:
  "http_exchange enum send
     (req\<lparr>rq_read_timeout := r, rq_write_timeout := w, rq_close_timeout := c, rq_keepalive_timeout := k\<rparr>) resp
     (other_times r' w' c' k' t)
   = map_prod id (map_prod id (other_times r' w' c' k')) (http_exchange enum send req resp t)"
proof -
  have "http_request enum
      (req\<lparr>rq_read_timeout := r, rq_write_timeout := w, rq_close_timeout := c, rq_keepalive_timeout := k\<rparr>)
      (other_times r' w' c' k' t) = http_request enum req t"
    by (simp add: http_request_def other_times_defs)
  then show ?thesis by (simp add: http_exchange_def other_times_defs split: send_outcome.split)
qed

theorem Http_settings_ignored:
  "HttpTransport_sendRequest enum send
     (req\<lparr>rq_read_timeout := r, rq_write_timeout := w, rq_close_timeout := c, rq_keepalive_timeout := k\<rparr>) resp
     (other_times r' w' c' k' t)
   = map_prod id (map_prod id (other_times r' w' c' k')) (HttpTransport_sendRequest enum send req resp t)
   \<and> HttpsTransport_sendRequest enum send
     (req\<lparr>rq_read_timeout := r, rq_write_timeout := w, rq_close_timeout := c, rq_keepalive_timeout := k\<rparr>) resp
     (other_times r' w' c' k' h)
   = map_prod id (map_prod id (other_times r' w' c' k')) (HttpsTransport_sendRequest enum send req resp h)
   \<and> hs_sslCtx (setSslConfig env (cfg\<lparr>ssl_clientKeyPassword := pw, ssl_verifyHost := vh, ssl_sessionReuse := sr\<rparr>) h)
     = hs_sslCtx (setSslConfig env cfg h)"
proof -
  have "ssl_options (cfg\<lparr>ssl_clientKeyPassword := pw, ssl_verifyHost := vh, ssl_sessionReuse := sr\<rparr>) = ssl_options cfg"
    by (simp add: ssl_options_def)
  then have "hs_sslCtx (setSslConfig env (cfg\<lparr>ssl_clientKeyPassword := pw, ssl_verifyHost := vh, ssl_sessionReuse := sr\<rparr>) h)
     = hs_sslCtx (setSslConfig env cfg h)"
    by (simp add: setSslConfig_def configureSsl_def Let_def)
  then show ?thesis
    by (auto simp: HttpTransport_sendRequest_def HttpsTransport_sendRequest_def exchange_other_times
        split: option.splits)
qed

end
