(* ===== verification/TcpClient.thy ===== *)
theory TcpClient imports Transport begin

text \<open>
  \<open>TcpTransport\<close> (src/TcpTransport.cpp).  The TCP client of libhv is not part of the repository: what it
  returns is given by the record \<open>tcp_env\<close>, one for each call, and its callbacks are events that happen
  at the points where the calling thread waits.  A frame is four bytes with the length of the whole
  frame in network order, then the body.
\<close>

section \<open>Frames\<close>

text \<open>\<open>htonl\<close> of a 32-bit value, as the four bytes in memory.\<close>

definition be32 :: "32 word \<Rightarrow> string" where
  "be32 w = map (\<lambda>k. char_of (unat (drop_bit k w) mod 256)) [24, 16, 8, 0]"

definition tcp_frame :: "string \<Rightarrow> string" where
  "tcp_frame body = be32 (of_nat (length body) + 4) @ body"

definition max_body :: nat where
  "max_body = 0xFFFFFFFB"

text \<open>What the library is told about frames; its other ways to delimit a package are not used.\<close>

datatype unpack_mode = UNPACK_MODE_NONE | UNPACK_BY_LENGTH_FIELD

record unpack_setting =
  us_mode :: unpack_mode
  us_body_offset :: nat
  us_length_field_offset :: nat
  us_length_field_bytes :: nat
  us_length_adjustment :: int
  us_big_endian :: bool
  us_package_max_length :: nat

definition initUnpackSetting :: unpack_setting where
  "initUnpackSetting =
     \<lparr>us_mode = UNPACK_BY_LENGTH_FIELD, us_body_offset = 0, us_length_field_offset = 0, us_length_field_bytes = 4,
      us_length_adjustment = 0, us_big_endian = True, us_package_max_length = 64 * 1024\<rparr>"

section \<open>State and events\<close>

text \<open>The timeouts of the channel: read, write, close, keep-alive.\<close>

record TcpTransport =
  tt_client :: bool
  tt_connectTimeout :: int
  tt_readTimeout :: int
  tt_writeTimeout :: int
  tt_closeTimeout :: int
  tt_keepaliveTimeout :: int
  tt_connected :: bool
  tt_connectFailed :: bool
  tt_currentHost :: string
  tt_currentPort :: int
  tt_packetQueue :: "string list"
  tt_channelTimeouts :: "(int \<times> int \<times> int \<times> int) option"
  tt_wire :: "string list"            \<comment> \<open>what \<open>m_client->send\<close> was given, in order\<close>

definition TcpTransport_ctor :: "bool \<Rightarrow> TcpTransport" where
  "TcpTransport_ctor created =
     \<lparr>tt_client = created, tt_connectTimeout = 3000, tt_readTimeout = 30000, tt_writeTimeout = 30000,
      tt_closeTimeout = 5000, tt_keepaliveTimeout = 60000, tt_connected = False,
      tt_connectFailed = False, tt_currentHost = [], tt_currentPort = 0, tt_packetQueue = [],
      tt_channelTimeouts = None, tt_wire = []\<rparr>"

text \<open>\<open>onConnection\<close> with a connected or a closed channel, and \<open>onMessage\<close>.\<close>

datatype tcp_event = ChannelUp | ChannelDown | PacketIn string

fun tcp_callback :: "tcp_event \<Rightarrow> TcpTransport \<Rightarrow> TcpTransport" where
  "tcp_callback ChannelUp t =
     t\<lparr>tt_connected := True,
       tt_channelTimeouts := Some (tt_readTimeout t, tt_writeTimeout t, tt_closeTimeout t, tt_keepaliveTimeout t)\<rparr>"
| "tcp_callback ChannelDown t = t\<lparr>tt_connected := False, tt_connectFailed := True\<rparr>"
| "tcp_callback (PacketIn packet) t = t\<lparr>tt_packetQueue := tt_packetQueue t @ [packet]\<rparr>"

definition tcp_callbacks :: "tcp_event list \<Rightarrow> TcpTransport \<Rightarrow> TcpTransport" where
  "tcp_callbacks evs t = foldl (\<lambda>t ev. tcp_callback ev t) t evs"

text \<open>
  One turn of the loop that waits for the connection: the events of the 100 ms, the time since the
  start, and what \<open>isConnected()\<close> of the client answers.
\<close>

record tcp_tick =
  tk_events :: "tcp_event list"
  tk_elapsed :: int
  tk_isConnected :: bool

record tcp_env =
  te_newClient :: "string option"        \<comment> \<open>the exception of the constructor\<close>
  te_connfd :: int
  te_startEvents :: "tcp_event list"
  te_ticks :: "tcp_tick list"
  te_settledEvents :: "tcp_event list"   \<comment> \<open>between the end of the wait and the check after it\<close>
  te_send :: lib_result
  te_sendEvents :: "tcp_event list"
  te_channel :: bool
  te_recvEvents :: "tcp_event list"
  te_recvTimeout :: bool

section \<open>Operations\<close>

definition tcp_disconnectInternal :: "TcpTransport \<Rightarrow> TcpTransport" where
  "tcp_disconnectInternal t =
     (let t1 = (if tt_client t then t\<lparr>tt_connected := False\<rparr> else t)
      in t1\<lparr>tt_currentHost := [], tt_currentPort := 0, tt_packetQueue := []\<rparr>)"

definition tcp_disconnect :: "TcpTransport \<Rightarrow> TcpTransport" where
  "tcp_disconnect t =
     t\<lparr>tt_client := False, tt_connected := False, tt_connectFailed := True, tt_currentHost := [],
       tt_currentPort := 0, tt_packetQueue := []\<rparr>"

definition receiveResponseWithTimeout ::
  "tcp_env \<Rightarrow> int \<Rightarrow> Response \<Rightarrow> TcpTransport \<Rightarrow> int \<times> Response \<times> TcpTransport" where
  "receiveResponseWithTimeout env timeout resp t =
     (if \<not> tt_connected t then (-1, fail_with ''Not connected, cannot receive response'' resp, t)
      else if timeout \<le> 0 then (-1, fail_with ''Invalid timeout value'' resp, t)
      else
        (let waits = (tt_packetQueue t = []);
             t1 = (if waits then tcp_callbacks (te_recvEvents env) t else t)
         in if waits \<and> te_recvTimeout env
            then (-1, fail_with ''Timeout waiting for response'' resp, t1)
            else
              (case tt_packetQueue t1 of
                 [] \<Rightarrow> (-1, fail_with ''No packet available'' resp, t1)
               | packet # rest \<Rightarrow>
                   (let t2 = t1\<lparr>tt_packetQueue := rest\<rparr>
                    in if length packet < 4 then (-1, fail_with ''Invalid packet size'' resp, t2)
                       else (0, resp\<lparr>rs_statusCode := 200, rs_body := drop 4 packet\<rparr>, t2)))))"

definition tcp_receiveResponse :: "tcp_env \<Rightarrow> Response \<Rightarrow> TcpTransport \<Rightarrow> int \<times> Response \<times> TcpTransport" where
  "tcp_receiveResponse env resp t = receiveResponseWithTimeout env (tt_readTimeout t) resp t"

definition host_port :: "string \<Rightarrow> int \<Rightarrow> string" where
  "host_port host port = host @ '':'' @ dec_int port"

text \<open>
  The waiting loop.  \<open>None\<close>: still waiting when the ticks are used up; \<open>Inl\<close>: the call returns here;
  \<open>Inr\<close>: the loop is left.
\<close>

fun tcp_wait ::
  "Request \<Rightarrow> string \<Rightarrow> int \<Rightarrow> Response \<Rightarrow> tcp_tick list \<Rightarrow> TcpTransport \<Rightarrow>
   (Response \<times> TcpTransport + TcpTransport) option" where
  "tcp_wait req host port resp ticks t =
     (if tt_connected t then Some (Inr t)
      else if tt_connectFailed t
      then Some (Inl (fail_with (''Connection refused/failed to '' @ host_port host port) resp, t))
      else
        (case ticks of
           [] \<Rightarrow> None
         | tick # rest \<Rightarrow>
             (let t1 = tcp_callbacks (tk_events tick) t;
                  connectTimeout =
                    (if 0 \<le> rq_connect_timeout req then rq_connect_timeout req else tt_connectTimeout t1)
              in if 0 < connectTimeout \<and> connectTimeout \<le> tk_elapsed tick
                 then Some (Inl (fail_with (''Connection timeout to '' @ host_port host port) resp,
                                 tcp_disconnectInternal t1))
                 else if tt_client t1 \<and> tk_isConnected tick then Some (Inr (t1\<lparr>tt_connected := True\<rparr>))
                 else tcp_wait req host port resp rest t1)))"

declare tcp_wait.simps [simp del]

text \<open>The part of \<open>sendRequest\<close> after the connection stands.\<close>

definition tcp_transmit :: "tcp_env \<Rightarrow> Request \<Rightarrow> Response \<Rightarrow> TcpTransport \<Rightarrow> int \<times> Response \<times> TcpTransport" where
  "tcp_transmit env req resp t =
     (if max_body < length (rq_body req) then (-1, fail_with ''Body too large for TCP frame'' resp, t)
      else if \<not> tt_client t then (-1, fail_with ''Client destroyed during send'' resp, t)
      else
        (let t1 = tcp_callbacks (te_sendEvents env) (t\<lparr>tt_wire := tt_wire t @ [tcp_frame (rq_body req)]\<rparr>)
         in case te_send env of
              Gives sent \<Rightarrow>
            if sent < 0 then (-1, fail_with ''Failed to send data'' resp, t1\<lparr>tt_connected := False\<rparr>)
            else if \<not> tt_connected t1
            then (-1, fail_with ''Connection lost before receiving response'' resp, t1)
            else if \<not> te_channel env then receiveResponseWithTimeout env (tt_readTimeout t1) resp t1
            else
              (let over = (\<lambda>asked old. if 0 \<le> asked then asked else old);
                   t2 = t1\<lparr>tt_channelTimeouts :=
                           map_option (\<lambda>(r, w, c, k). (over (rq_read_timeout req) r, over (rq_write_timeout req) w,
                              over (rq_close_timeout req) c, over (rq_keepalive_timeout req) k))
                             (tt_channelTimeouts t1)\<rparr>
               in receiveResponseWithTimeout env
                    (if 0 \<le> rq_read_timeout req then rq_read_timeout req else tt_readTimeout t2) resp t2)
            | e \<Rightarrow> (-1, caught e resp, t1\<lparr>tt_connected := False\<rparr>)))"

text \<open>The check after the wait, and what follows: the connection may have gone down again in between.\<close>

definition tcp_settled ::
  "tcp_env \<Rightarrow> Request \<Rightarrow> string \<Rightarrow> int \<Rightarrow> Response \<Rightarrow> TcpTransport \<Rightarrow> int \<times> Response \<times> TcpTransport" where
  "tcp_settled env req host port resp t =
     (let t1 = tcp_callbacks (te_settledEvents env) t
      in if \<not> tt_connected t1 then (-1, fail_with (''Connection failed to '' @ host_port host port) resp, t1)
         else tcp_transmit env req resp t1)"

definition tcp_reconnect ::
  "tcp_env \<Rightarrow> string \<Rightarrow> int \<Rightarrow> Response \<Rightarrow> TcpTransport \<Rightarrow> Response \<times> TcpTransport + TcpTransport" where
  "tcp_reconnect env host port resp t =
     (let t1 = (tcp_disconnectInternal t)\<lparr>tt_connectFailed := False\<rparr>
      in if te_connfd env < 0
         then Inl (fail_with (''Failed to create socket for '' @ host_port host port) resp, t1)
         else Inr (t1\<lparr>tt_currentHost := host, tt_currentPort := port\<rparr>))"

definition TcpTransport_sendRequest ::
  "tcp_env \<Rightarrow> Request \<Rightarrow> Response \<Rightarrow> TcpTransport \<Rightarrow> (int \<times> Response \<times> TcpTransport) option" where
  "TcpTransport_sendRequest env req resp t =
     (case TcpTransport_parseUrl (rq_url req) of
        None \<Rightarrow> Some (-1, fail_with (''Invalid URL format: '' @ rq_url req) resp, t)
      | Some (host, port) \<Rightarrow>
          (let needRecreate = \<not> tt_client t;
               needReconnect = (needRecreate \<or> \<not> tt_connected t \<or> tt_currentHost t \<noteq> host \<or> tt_currentPort t \<noteq> port)
           in if needRecreate \<and> te_newClient env \<noteq> None
              then Some (-1, fail_with (''Failed to recreate TcpClient: '' @ the (te_newClient env)) resp, t)
              else
                (let t1 = (if needRecreate then t\<lparr>tt_client := True, tt_connected := False\<rparr> else t)
                 in case (if needReconnect then tcp_reconnect env host port resp t1 else Inr t1) of
                      Inl (r, t2) \<Rightarrow> Some (-1, r, t2)
                    | Inr t2 \<Rightarrow>
                        (case tcp_wait req host port resp (te_ticks env) (tcp_callbacks (te_startEvents env) t2) of
                           None \<Rightarrow> None
                         | Some (Inl (r, t3)) \<Rightarrow> Some (-1, r, t3)
                         | Some (Inr t3) \<Rightarrow> Some (tcp_settled env req host port resp t3)))))"

definition tcp_connect :: "TcpTransport \<Rightarrow> bool" where
  "tcp_connect t = True"

definition tcp_isConnected :: "bool \<Rightarrow> TcpTransport \<Rightarrow> bool" where
  "tcp_isConnected clientConnected t = (tt_connected t \<and> tt_client t \<and> clientConnected)"

definition tcp_setConnectTimeout :: "int \<Rightarrow> TcpTransport \<Rightarrow> TcpTransport" where
  "tcp_setConnectTimeout ms t = t\<lparr>tt_connectTimeout := ms\<rparr>"

definition tcp_setReadTimeout :: "int \<Rightarrow> TcpTransport \<Rightarrow> TcpTransport" where
  "tcp_setReadTimeout ms t = t\<lparr>tt_readTimeout := ms\<rparr>"

definition tcp_setWriteTimeout :: "int \<Rightarrow> TcpTransport \<Rightarrow> TcpTransport" where
  "tcp_setWriteTimeout ms t = t\<lparr>tt_writeTimeout := ms\<rparr>"

definition tcp_setCloseTimeout :: "int \<Rightarrow> TcpTransport \<Rightarrow> TcpTransport" where
  "tcp_setCloseTimeout ms t = t\<lparr>tt_closeTimeout := ms\<rparr>"

definition tcp_setKeepaliveTimeout :: "int \<Rightarrow> TcpTransport \<Rightarrow> TcpTransport" where
  "tcp_setKeepaliveTimeout ms t = t\<lparr>tt_keepaliveTimeout := ms\<rparr>"

section \<open>The length field\<close>

definition be_value :: "string \<Rightarrow> nat" where
  "be_value s = foldl (\<lambda>n c. 256 * n + byte c) 0 s"

lemma be32_length [simp]: "length (be32 w) = 4"
  by (simp add: be32_def)

lemma be32_value: "be_value (be32 w) = unat w"
proof -
  have "byte (char_of (unat (drop_bit k w) mod 256)) = unat w div 2 ^ k mod 256" for k
  proof -
    have "unat (drop_bit k w) = unat w div 2 ^ k"
      by (subst unat_drop_bit_eq) (simp only: drop_bit_eq_div)
    then show ?thesis by (simp only: byte_char_of) simp
  qed
  then have v: "be_value (be32 w) = 256 * (256 * (256 * (unat w div 2 ^ 24 mod 256) + unat w div 2 ^ 16 mod 256)
      + unat w div 2 ^ 8 mod 256) + unat w mod 256"
    by (simp add: be_value_def be32_def byte_char_of)
  have "unat w < 4294967296" using unsigned_less [of w, where ?'a = nat] by simp
  moreover have "n = 256 * (256 * (256 * (n div 16777216 mod 256) + n div 65536 mod 256) + n div 256 mod 256) + n mod 256"
    if "n < 4294967296" for n :: nat
  proof -
    have a: "n = 256 * (n div 256) + n mod 256" "n div 256 = 256 * (n div 65536) + n div 256 mod 256"
      "n div 65536 = 256 * (n div 16777216) + n div 65536 mod 256"
      using div_mult2_eq [of n 256 256] div_mult2_eq [of n 65536 256]
      by (simp_all add: div_mult_mod_eq [of _ 256, symmetric])
    have "n div 16777216 mod 256 = n div 16777216" using that by (intro mod_less) (simp add: less_mult_imp_div_less)
    then show ?thesis using a by presburger
  qed
  ultimately show ?thesis using v by simp
qed

lemma frame_value:
  assumes "length body \<le> max_body"
  shows "be_value (take 4 (tcp_frame body @ rest)) = length (tcp_frame body)"
proof -
  have "unat (of_nat (length body) + 4 :: 32 word) = length body + 4"
    using assms by (simp add: max_body_def unat_of_nat take_bit_nat_eq_self unat_word_ariths)
  then show ?thesis by (simp add: tcp_frame_def be32_value)
qed

section \<open>The contract\<close>

lemma receive_results:
  "receiveResponseWithTimeout env to resp t = (ret, r, t') \<Longrightarrow>
   ret = 0 \<or> (ret = -1 \<and> rs_statusCode r = -1)"
  by (auto simp: receiveResponseWithTimeout_def Let_def split: if_splits list.splits)

lemma transmit_results:
  "tcp_transmit env req resp t = (ret, r, t') \<Longrightarrow> ret = 0 \<or> (ret = -1 \<and> rs_statusCode r = -1)"
  by (auto simp: tcp_transmit_def Let_def dest: receive_results split: if_splits lib_result.splits)

lemma settled_results:
  "tcp_settled env req host port resp t = (ret, r, t') \<Longrightarrow> ret = 0 \<or> (ret = -1 \<and> rs_statusCode r = -1)"
  by (auto simp: tcp_settled_def Let_def dest: transmit_results split: if_splits)

lemma wait_results:
  "tcp_wait req host port resp ticks t = Some (Inl (r, t')) \<Longrightarrow> rs_statusCode r = -1"
proof (induction ticks arbitrary: t)
  case Nil
  then show ?case by (subst (asm) tcp_wait.simps) (auto split: if_splits)
next
  case (Cons tick ticks)
  then show ?case by (subst (asm) tcp_wait.simps) (auto simp: Let_def split: if_splits)
qed

lemma reconnect_results:
  "tcp_reconnect env host port resp t = Inl (r, t') \<Longrightarrow> rs_statusCode r = -1"
  by (auto simp: tcp_reconnect_def Let_def split: if_splits)

lemma tcp_send_results:
  "TcpTransport_sendRequest env req resp t = Some (ret, r, t') \<Longrightarrow>
   ret = 0 \<or> (ret = -1 \<and> rs_statusCode r = -1)"
  by (auto simp: TcpTransport_sendRequest_def Let_def
      dest: settled_results wait_results reconnect_results
      split: option.splits if_splits sum.splits prod.splits)

interpretation tcp: transport TcpTransport_sendRequest
  "\<lambda>env r t. Some (tcp_receiveResponse env r t)" tcp_disconnect tt_connected
proof unfold_locales
  show "TcpTransport_sendRequest e q r s = Some (ret, r', s') \<Longrightarrow> ret = 0 \<or> ret = -1 \<and> rs_statusCode r' = -1"
    for e q r s ret r' s' by (rule tcp_send_results)
  show "Some (tcp_receiveResponse e r s) = Some (ret, r', s') \<Longrightarrow> ret = 0 \<or> ret = -1 \<and> rs_statusCode r' = -1"
    for e r s ret r' s' by (auto simp: tcp_receiveResponse_def dest: receive_results)
qed (auto simp: tcp_receiveResponse_def tcp_disconnect_def receiveResponseWithTimeout_def)

section \<open>Packages\<close>

text \<open>
  What libhv documents for \<open>UNPACK_BY_LENGTH_FIELD\<close>: the length of a package is the offset of its body plus
  the value of the length field plus the adjustment, the field being read in the given byte order, and a
  package longer than the maximum is refused.
\<close>

definition package_length :: "unpack_setting \<Rightarrow> string \<Rightarrow> int" where
  "package_length us s =
     (let field = take (us_length_field_bytes us) (drop (us_length_field_offset us) s)
      in int (us_body_offset us) + int (be_value (if us_big_endian us then field else rev field)) + us_length_adjustment us)"

definition is_package :: "unpack_setting \<Rightarrow> string \<Rightarrow> bool" where
  "is_package us p \<longleftrightarrow> us_mode us = UNPACK_BY_LENGTH_FIELD
     \<and> us_length_field_offset us + us_length_field_bytes us \<le> length p \<and> us_body_offset us \<le> length p
     \<and> int (length p) = package_length us p \<and> length p \<le> us_package_max_length us"

lemma frame_length [simp]: "length (tcp_frame body) = 4 + length body"
  by (simp add: tcp_frame_def)

lemma frame_package:
  assumes "length body \<le> max_body"
  shows "is_package initUnpackSetting (tcp_frame body) \<longleftrightarrow> length body + 4 \<le> 64 * 1024"
  using frame_value [OF assms, of "[]"]
  by (auto simp: is_package_def package_length_def initUnpackSetting_def Let_def)

text \<open>Receiving a number of times, each time into a new response.\<close>

fun tcp_answers :: "tcp_env \<Rightarrow> int \<Rightarrow> nat \<Rightarrow> TcpTransport \<Rightarrow> (int \<times> int \<times> string) list \<times> TcpTransport" where
  "tcp_answers env limit 0 t = ([], t)"
| "tcp_answers env limit (Suc n) t =
     (case receiveResponseWithTimeout env limit Response_ctor t of
        (ret, r, t1) \<Rightarrow>
          (case tcp_answers env limit n t1 of (as, t2) \<Rightarrow> ((ret, rs_statusCode r, rs_body r) # as, t2)))"

lemma tcp_answers_frames:
  assumes "tt_connected t" and "0 < limit"
  shows "tcp_answers env limit (length bodies) (t\<lparr>tt_packetQueue := map tcp_frame bodies @ after\<rparr>)
    = (map (\<lambda>b. (0, 200, b)) bodies, t\<lparr>tt_packetQueue := after\<rparr>)"
proof (induction bodies)
  case (Cons b bodies)
  have "drop 4 (tcp_frame b) = b" by (simp add: tcp_frame_def)
  then have "receiveResponseWithTimeout env limit Response_ctor (t\<lparr>tt_packetQueue := tcp_frame b # map tcp_frame bodies @ after\<rparr>)
      = (0, Response_ctor\<lparr>rs_statusCode := 200, rs_body := b\<rparr>, t\<lparr>tt_packetQueue := map tcp_frame bodies @ after\<rparr>)"
    using assms by (simp add: receiveResponseWithTimeout_def Let_def)
  then show ?case using Cons.IH by simp
qed simp

lemma tcp_callbacks_packets:
  "tcp_callbacks (map PacketIn ps) t = t\<lparr>tt_packetQueue := tt_packetQueue t @ ps\<rparr>"
  by (induction ps arbitrary: t) (simp_all add: tcp_callbacks_def)

section \<open>Properties\<close>


text \<open>A splitter that keeps the contract.\<close>

function cut_packages :: "unpack_setting \<Rightarrow> string \<Rightarrow> string list" where
  "cut_packages us s =
     (let p = take (nat (package_length us s)) s
      in if p \<noteq> [] \<and> is_package us p then p # cut_packages us (drop (length p) s) else [])"
  by pat_completeness auto

termination by (relation "measure (\<lambda>(us, s). length s)") auto

declare cut_packages.simps [simp del]

lemma cut_packages_package:
  assumes "is_package us p" and "p \<noteq> []"
  shows "cut_packages us (p @ rest) = p # cut_packages us rest"
proof -
  have "package_length us (p @ rest) = int (length p)"
    using assms(1) by (auto simp: is_package_def package_length_def Let_def)
  then show ?thesis using assms by (simp add: cut_packages.simps [of us "p @ rest"])
qed

definition still_env :: tcp_env where
  "still_env = \<lparr>te_newClient = None, te_connfd = 0, te_startEvents = [], te_ticks = [], te_settledEvents = [],
     te_send = Gives 0, te_sendEvents = [], te_channel = True, te_recvEvents = [], te_recvTimeout = False\<rparr>"


definition quiet_tick :: "int \<Rightarrow> tcp_tick" where
  "quiet_tick elapsed = \<lparr>tk_events = [], tk_elapsed = elapsed, tk_isConnected = False\<rparr>"

lemma quiet_tick_simps [simp]:
  "tk_events (quiet_tick e) = []" "tk_elapsed (quiet_tick e) = e" "\<not> tk_isConnected (quiet_tick e)"
  by (simp_all add: quiet_tick_def)

lemma tcp_callbacks_Nil [simp]: "tcp_callbacks [] t = t"
  by (simp add: tcp_callbacks_def)

lemma tcp_wait_quiet:
  "\<not> tt_connected t \<Longrightarrow> \<not> tt_connectFailed t \<Longrightarrow>
   tcp_wait (req\<lparr>rq_connect_timeout := 0\<rparr>) host port resp (map quiet_tick es) t = None"
proof (induction es)
  case Nil
  then show ?case by (subst tcp_wait.simps) simp
next
  case (Cons e es)
  then show ?case by (subst tcp_wait.simps) (simp add: Let_def)
qed

lemma tcp_callbacks_connectTimeout [simp]:
  "tt_connectTimeout (tcp_callbacks evs t) = tt_connectTimeout t"
proof (induction evs arbitrary: t)
  case (Cons ev evs)
  have "tt_connectTimeout (tcp_callback ev t) = tt_connectTimeout t" by (cases ev) simp_all
  then show ?case using Cons [of "tcp_callback ev t"] by (simp add: tcp_callbacks_def)
qed simp

definition connect_limit :: "Request \<Rightarrow> TcpTransport \<Rightarrow> int" where
  "connect_limit req t = (if 0 \<le> rq_connect_timeout req then rq_connect_timeout req else tt_connectTimeout t)"

lemma tcp_wait_ends:
  "0 < connect_limit req t \<Longrightarrow> tick \<in> set ticks \<Longrightarrow> connect_limit req t \<le> tk_elapsed tick \<Longrightarrow>
   tcp_wait req host port resp ticks t \<noteq> None"
proof (induction ticks arbitrary: t)
  case (Cons k ticks)
  have lim: "connect_limit req (tcp_callbacks (tk_events k) t) = connect_limit req t"
    by (simp add: connect_limit_def)
  show ?case
  proof (cases "connect_limit req t \<le> tk_elapsed k")
    case True
    then show ?thesis using Cons.prems(1) lim
      by (subst tcp_wait.simps) (auto simp: connect_limit_def Let_def)
  next
    case False
    then have "tick \<in> set ticks" using Cons.prems(2,3) by auto
    then have "tcp_wait req host port resp ticks (tcp_callbacks (tk_events k) t) \<noteq> None"
      using Cons.IH [of "tcp_callbacks (tk_events k) t"] Cons.prems(1,3) lim by simp
    then show ?thesis by (subst tcp_wait.simps) (auto simp: Let_def)
  qed
qed simp

text \<open>
  C34: With a positive time limit the wait for the connection ends at the latest at the turn whose
  elapsed time reaches the limit; with the limit 0 in the request it goes on for as long as nothing
  happens, whatever the limit of the transport is.
\<close>

theorem tcp_wait_limit:
  assumes "0 < connect_limit req t" and "tick \<in> set ticks" and "connect_limit req t \<le> tk_elapsed tick"
  shows "tcp_wait req host port resp ticks t \<noteq> None
    \<and> tcp_wait (req\<lparr>rq_connect_timeout := 0\<rparr>) host port resp (map quiet_tick es)
        (t\<lparr>tt_connected := False, tt_connectFailed := False\<rparr>) = None"
  using tcp_wait_ends [OF assms] tcp_wait_quiet by simp

lemma tcp_wait_limit_witness:
  "tcp_wait Request_ctor ''h'' 80 Response_ctor [quiet_tick 100, quiet_tick 3000] (TcpTransport_ctor True)
     \<noteq> None"
  using tcp_wait_limit [of Request_ctor "TcpTransport_ctor True" "quiet_tick 3000"
      "[quiet_tick 100, quiet_tick 3000]" "''h''" 80 Response_ctor "[]"]
  by (simp add: connect_limit_def Request_ctor_def TcpTransport_ctor_def)

definition env_timeout :: tcp_env where
  "env_timeout = \<lparr>te_newClient = None, te_connfd = 3, te_startEvents = [ChannelUp], te_ticks = [], te_settledEvents = [],
     te_send = Gives 5,
     te_sendEvents = [], te_channel = True, te_recvEvents = [], te_recvTimeout = True\<rparr>"

definition env_late :: "string \<Rightarrow> tcp_env" where
  "env_late reply = env_timeout\<lparr>te_startEvents := [PacketIn (tcp_frame reply)]\<rparr>"

text \<open>
  A response that arrives after its request has timed out stays in the queue, because a request on a
  standing connection does not clear it: the next request is answered with the reply to the previous
  one.
\<close>

theorem tcp_late_reply:
  "(\<exists>t1 t2 r1 r2.
     TcpTransport_sendRequest env_timeout (Request_ctor\<lparr>rq_url := ''h:9'', rq_body := a\<rparr>) Response_ctor
       (TcpTransport_ctor True) = Some (-1, r1, t1)
     \<and> TcpTransport_sendRequest (env_late reply) (Request_ctor\<lparr>rq_url := ''h:9'', rq_body := b\<rparr>) Response_ctor
         t1 = Some (0, r2, t2)
     \<and> rs_body r2 = reply \<and> tt_wire t2 = [tcp_frame a, tcp_frame b])
   \<or> max_body < length a \<or> max_body < length b"
proof (cases "max_body < length a \<or> max_body < length b")
  case False
  have url: "TcpTransport_parseUrl ''h:9'' = Some (''h'', 9)"
    by (simp add: TcpTransport_parseUrl_def parse_authority_def find_char_def find_from_def trim_id
        is_space_def byte_def substr_def Let_def stoi_def strtol_def ltrim_def is_digit_def digits_val_def
        digit_val_def in_range_def)
  let ?t1 = "(TcpTransport_ctor True)\<lparr>tt_connected := True, tt_currentHost := ''h'', tt_currentPort := 9,
    tt_channelTimeouts := Some (30000, 30000, 5000, 60000), tt_wire := [tcp_frame a]\<rparr>"
  have c: "length (tcp_frame reply) \<ge> 4" "drop 4 (tcp_frame reply) = reply" by (simp_all add: tcp_frame_def)
  have one: "TcpTransport_sendRequest env_timeout (Request_ctor\<lparr>rq_url := ''h:9'', rq_body := a\<rparr>) Response_ctor
      (TcpTransport_ctor True) = Some (-1, fail_with ''Timeout waiting for response'' Response_ctor, ?t1)"
    using False
    by (simp add: TcpTransport_sendRequest_def url Request_ctor_def TcpTransport_ctor_def tcp_reconnect_def
        tcp_disconnectInternal_def env_timeout_def tcp_wait.simps tcp_callbacks_def tcp_settled_def tcp_transmit_def
        receiveResponseWithTimeout_def Let_def)
  have two: "TcpTransport_sendRequest (env_late reply) (Request_ctor\<lparr>rq_url := ''h:9'', rq_body := b\<rparr>) Response_ctor ?t1
      = Some (0, Response_ctor\<lparr>rs_statusCode := 200, rs_body := reply\<rparr>, ?t1\<lparr>tt_wire := [tcp_frame a, tcp_frame b]\<rparr>)"
    using False c
    by (simp add: TcpTransport_sendRequest_def url Request_ctor_def TcpTransport_ctor_def env_late_def
        env_timeout_def tcp_wait.simps tcp_callbacks_def tcp_settled_def tcp_transmit_def
        receiveResponseWithTimeout_def Let_def)
  show ?thesis using one two by (intro disjI1 exI conjI) (assumption | simp)+
qed simp

end
