(* ===== verification/WebSocketClient.thy ===== *)
theory WebSocketClient imports Transport begin

text \<open>
  \<open>WebSocketTransport\<close> (src/WebSocketTransport.cpp).  The WebSocket client of libhv is not part of the
  repository: what it returns is given by the record \<open>ws_env\<close>, one for each call, and its callbacks are
  events that happen at the points where the calling thread waits.  Every call of the client's \<open>open\<close>
  starts a connection, numbered by \<open>ws_conn\<close>; a queued message is kept with the number of the connection
  that it came over, which the code cannot see.  \<open>configureSsl\<close> calls nothing on the client; what it logs is
  \<open>ws_log\<close>.
\<close>

section \<open>State and events\<close>

record WebSocketTransport =
  ws_client :: bool
  ws_sslConfig :: SslConfig
  ws_connectTimeout :: int
  ws_readTimeout :: int
  ws_writeTimeout :: int
  ws_closeTimeout :: int
  ws_keepaliveTimeout :: int
  ws_connected :: bool
  ws_connectFailed :: bool
  ws_currentUrl :: string
  ws_conn :: nat
  ws_messageQueue :: "(nat \<times> string) list"
  ws_channelTimeouts :: "(int \<times> int \<times> int \<times> int) option"
  ws_wire :: "string list"            \<comment> \<open>what \<open>m_client->send\<close> was given, in order\<close>
  ws_log :: "(string \<times> string) list"

text \<open>The lines that \<open>configureSsl\<close> logs, with their level.\<close>

definition ssl_log_lines :: "SslConfig \<Rightarrow> (string \<times> string) list" where
  "ssl_log_lines cfg =
     (if ssl_verifyHost cfg
      then [(''WARN'', ''WebSocketTransport: verifyHost is set to true, but libhv WebSocketClient does not support explicit hostname verification configuration.'')]
      else [])
     @ (if ssl_sslVersion cfg \<noteq> [] \<and> ssl_sslVersion cfg \<noteq> ''TLS1.2''
        then [(''WARN'', ''WebSocketTransport: sslVersion is set to '' @ [CHR 0x27] @ ssl_sslVersion cfg @ [CHR 0x27]
                @ '', but libhv WebSocketClient does not support explicit SSL/TLS version configuration.'')]
        else [])
     @ (if \<not> ssl_sessionReuse cfg
        then [(''WARN'', ''WebSocketTransport: sessionReuse is set to false, but libhv WebSocketClient does not support explicit session reuse configuration.'')]
        else [])
     @ (if ssl_caCertPath cfg \<noteq> [] then [(''DEBUG'', ''WebSocket CA certificate: '' @ ssl_caCertPath cfg)] else [])
     @ (if ssl_clientCertPath cfg \<noteq> []
        then [(''DEBUG'', ''WebSocket client certificate: '' @ ssl_clientCertPath cfg)] else [])
     @ (if ssl_clientKeyPath cfg \<noteq> [] then [(''DEBUG'', ''WebSocket client key: '' @ ssl_clientKeyPath cfg)] else [])
     @ [(''INFO'', ''WebSocket SSL configuration applied'')]"

definition ws_configureSsl :: "WebSocketTransport \<Rightarrow> WebSocketTransport" where
  "ws_configureSsl t =
     (if \<not> ws_client t then t else t\<lparr>ws_log := ws_log t @ ssl_log_lines (ws_sslConfig t)\<rparr>)"

definition WebSocketTransport_ctor :: "bool \<Rightarrow> SslConfig \<Rightarrow> WebSocketTransport" where
  "WebSocketTransport_ctor created sslConfig =
     ws_configureSsl
     \<lparr>ws_client = created, ws_sslConfig = sslConfig, ws_connectTimeout = 3000, ws_readTimeout = 30000,
      ws_writeTimeout = 30000, ws_closeTimeout = 5000, ws_keepaliveTimeout = 60000,
      ws_connected = False, ws_connectFailed = False, ws_currentUrl = [], ws_conn = 0, ws_messageQueue = [],
      ws_channelTimeouts = None, ws_wire = [], ws_log = []\<rparr>"

text \<open>The default constructor: a default \<open>SslConfig\<close>, with four of its fields set again.\<close>

definition WebSocketTransport_default :: "bool \<Rightarrow> WebSocketTransport" where
  "WebSocketTransport_default created =
     WebSocketTransport_ctor created
       (SslConfig_ctor\<lparr>ssl_verifyPeer := True, ssl_verifyHost := True, ssl_sslVersion := ''TLS1.2'', ssl_sessionReuse := True\<rparr>)"

text \<open>The callbacks of \<open>setupClientCallbacks\<close>; \<open>onopen\<close> with or without a channel, \<open>onmessage\<close> with
  the number of the connection.\<close>

datatype ws_event = WsOpen bool | WsClose | WsMessage nat string

fun ws_callback :: "ws_event \<Rightarrow> WebSocketTransport \<Rightarrow> WebSocketTransport" where
  "ws_callback (WsOpen channel) t =
     (let t1 = t\<lparr>ws_connected := True\<rparr>
      in if ws_client t1 \<and> channel
         then t1\<lparr>ws_channelTimeouts :=
                   Some (ws_readTimeout t, ws_writeTimeout t, ws_closeTimeout t, ws_keepaliveTimeout t)\<rparr>
         else t1)"
| "ws_callback WsClose t = t\<lparr>ws_connected := False, ws_connectFailed := True\<rparr>"
| "ws_callback (WsMessage conn msg) t = t\<lparr>ws_messageQueue := ws_messageQueue t @ [(conn, msg)]\<rparr>"

definition ws_callbacks :: "ws_event list \<Rightarrow> WebSocketTransport \<Rightarrow> WebSocketTransport" where
  "ws_callbacks evs t = foldl (\<lambda>t ev. ws_callback ev t) t evs"

record ws_tick =
  wk_events :: "ws_event list"
  wk_elapsed :: int
  wk_isConnected :: bool

record ws_env =
  we_newClient :: "string option"        \<comment> \<open>the exception of the constructor\<close>
  we_open :: int
  we_openEvents :: "ws_event list"
  we_ticks :: "ws_tick list"
  we_settledEvents :: "ws_event list"    \<comment> \<open>between the end of the wait and the check after it\<close>
  we_send :: lib_result
  we_sendEvents :: "ws_event list"
  we_recvEvents :: "ws_event list"
  we_recvTimeout :: bool

section \<open>Operations\<close>

definition ws_receiveResponse ::
  "ws_env \<Rightarrow> Response \<Rightarrow> WebSocketTransport \<Rightarrow> int \<times> Response \<times> WebSocketTransport" where
  "ws_receiveResponse env resp t =
     (if \<not> ws_connected t then (-1, fail_with ''No active WebSocket connection'' resp, t)
      else
        (let waits = (ws_messageQueue t = []);
             t1 = (if waits then ws_callbacks (we_recvEvents env) t else t)
         in if waits \<and> we_recvTimeout env
            then (-1, fail_with ''Timeout waiting for WebSocket message'' resp, t1)
            else
              (case ws_messageQueue t1 of
                 [] \<Rightarrow> (-1, fail_with ''No message available'' resp, t1)
               | (conn, msg) # rest \<Rightarrow>
                   (0, resp\<lparr>rs_statusCode := 200, rs_body := msg\<rparr>, t1\<lparr>ws_messageQueue := rest\<rparr>))))"

text \<open>
  The waiting loop.  \<open>None\<close>: still waiting when the ticks are used up; \<open>Inl\<close>: the call returns here;
  \<open>Inr\<close>: the loop is left.
\<close>

fun ws_wait ::
  "Request \<Rightarrow> Response \<Rightarrow> int \<Rightarrow> ws_tick list \<Rightarrow> WebSocketTransport \<Rightarrow>
   (Response \<times> WebSocketTransport + WebSocketTransport) option" where
  "ws_wait req resp connectTimeout ticks t =
     (if ws_connected t then Some (Inr t)
      else
        (case ticks of
           [] \<Rightarrow> None
         | tick # rest \<Rightarrow>
             (let t1 = ws_callbacks (wk_events tick) t
              in if ws_connectFailed t1
                 then Some (Inl (fail_with (''Connection refused/closed to '' @ rq_url req) resp, t1))
                 else if 0 < connectTimeout \<and> connectTimeout \<le> wk_elapsed tick
                 then Some (Inl (fail_with (''Connection timeout to '' @ rq_url req) resp, t1))
                 else if ws_client t1 \<and> wk_isConnected tick then Some (Inr (t1\<lparr>ws_connected := True\<rparr>))
                 else ws_wait req resp connectTimeout rest t1)))"

declare ws_wait.simps [simp del]

definition ws_transmit ::
  "ws_env \<Rightarrow> Request \<Rightarrow> Response \<Rightarrow> WebSocketTransport \<Rightarrow> int \<times> Response \<times> WebSocketTransport" where
  "ws_transmit env req resp t =
     (if rq_body req = [] then ws_receiveResponse env resp t
      else if \<not> ws_client t then (-1, fail_with ''Client destroyed during send'' resp, t)
      else
        (let t1 = ws_callbacks (we_sendEvents env) (t\<lparr>ws_wire := ws_wire t @ [rq_body req]\<rparr>)
         in case we_send env of
              Gives ret \<Rightarrow>
                if ret < 0
                then (-1, fail_with (''Send failed, error code: '' @ dec_int ret) resp, t1\<lparr>ws_connected := False\<rparr>)
                else ws_receiveResponse env resp t1
            | e \<Rightarrow> (-1, caught e resp, t1\<lparr>ws_connected := False\<rparr>)))"

text \<open>The check after the wait, and what follows: the connection may have gone down again in between.\<close>

definition ws_settled ::
  "ws_env \<Rightarrow> Request \<Rightarrow> Response \<Rightarrow> WebSocketTransport \<Rightarrow> int \<times> Response \<times> WebSocketTransport" where
  "ws_settled env req resp t =
     (let t1 = ws_callbacks (we_settledEvents env) t
      in if \<not> ws_connected t1 then (-1, fail_with (''Connection failed to '' @ rq_url req) resp, t1)
         else ws_transmit env req resp t1)"

definition ws_reconnect ::
  "ws_env \<Rightarrow> Request \<Rightarrow> Response \<Rightarrow> WebSocketTransport \<Rightarrow> Response \<times> WebSocketTransport + WebSocketTransport" where
  "ws_reconnect env req resp t =
     (let t1 = t\<lparr>ws_messageQueue := [], ws_currentUrl := rq_url req, ws_connectFailed := False, ws_conn := Suc (ws_conn t)\<rparr>
      in if we_open env \<noteq> 0
         then Inl (fail_with (''Failed to connect WebSocket: '' @ dec_int (we_open env) @ '', URL: '' @ rq_url req) resp, t1)
         else Inr (ws_callbacks (we_openEvents env) t1))"

definition WebSocketTransport_sendRequest ::
  "ws_env \<Rightarrow> Request \<Rightarrow> Response \<Rightarrow> WebSocketTransport \<Rightarrow> (int \<times> Response \<times> WebSocketTransport) option" where
  "WebSocketTransport_sendRequest env req resp t =
     (case WebSocketTransport_parseUrl (rq_url req) of
        None \<Rightarrow> Some (-1, fail_with (''Invalid URL format: '' @ rq_url req) resp, t)
      | Some u \<Rightarrow>
          if pu_scheme u \<noteq> ''ws'' \<and> pu_scheme u \<noteq> ''wss''
          then Some (-1, fail_with ''Only ws:// and wss:// schemes are supported'' resp, t)
          else if \<not> ws_client t \<and> we_newClient env \<noteq> None
          then Some (-1, fail_with (''Failed to recreate WebSocketClient: '' @ the (we_newClient env)) resp, t)
          else
            (let t1 = (if \<not> ws_client t
                       then ws_configureSsl
                         (t\<lparr>ws_client := True, ws_connected := False, ws_connectFailed := False, ws_currentUrl := []\<rparr>)
                       else t)
             in case (if \<not> ws_connected t1 \<or> ws_currentUrl t1 \<noteq> rq_url req
                      then ws_reconnect env req resp t1 else Inr t1) of
                  Inl (r, t2) \<Rightarrow> Some (-1, r, t2)
                | Inr t2 \<Rightarrow>
                    (case ws_wait req resp
                            (if 0 \<le> rq_connect_timeout req then rq_connect_timeout req else ws_connectTimeout t2)
                            (we_ticks env) t2 of
                       None \<Rightarrow> None
                     | Some (Inl (r, t3)) \<Rightarrow> Some (-1, r, t3)
                     | Some (Inr t3) \<Rightarrow> Some (ws_settled env req resp t3))))"

definition ws_disconnect :: "WebSocketTransport \<Rightarrow> WebSocketTransport" where
  "ws_disconnect t =
     t\<lparr>ws_client := False, ws_connected := False, ws_connectFailed := True, ws_currentUrl := [],
       ws_messageQueue := []\<rparr>"

definition ws_connect :: "WebSocketTransport \<Rightarrow> bool" where
  "ws_connect t = (ws_connected t \<and> ws_client t)"

definition ws_isConnected :: "bool \<Rightarrow> WebSocketTransport \<Rightarrow> bool" where
  "ws_isConnected clientConnected t = (ws_connected t \<and> ws_client t \<and> clientConnected)"

definition ws_setConnectTimeout :: "int \<Rightarrow> WebSocketTransport \<Rightarrow> WebSocketTransport" where
  "ws_setConnectTimeout ms t = t\<lparr>ws_connectTimeout := ms\<rparr>"

definition ws_setReadTimeout :: "int \<Rightarrow> WebSocketTransport \<Rightarrow> WebSocketTransport" where
  "ws_setReadTimeout ms t = t\<lparr>ws_readTimeout := ms\<rparr>"

definition ws_setWriteTimeout :: "int \<Rightarrow> WebSocketTransport \<Rightarrow> WebSocketTransport" where
  "ws_setWriteTimeout ms t = t\<lparr>ws_writeTimeout := ms\<rparr>"

definition ws_setCloseTimeout :: "int \<Rightarrow> WebSocketTransport \<Rightarrow> WebSocketTransport" where
  "ws_setCloseTimeout ms t = t\<lparr>ws_closeTimeout := ms\<rparr>"

definition ws_setKeepaliveTimeout :: "int \<Rightarrow> WebSocketTransport \<Rightarrow> WebSocketTransport" where
  "ws_setKeepaliveTimeout ms t = t\<lparr>ws_keepaliveTimeout := ms\<rparr>"

definition ws_setSslConfig :: "SslConfig \<Rightarrow> WebSocketTransport \<Rightarrow> WebSocketTransport" where
  "ws_setSslConfig config t = ws_configureSsl (t\<lparr>ws_sslConfig := config\<rparr>)"

lemma ws_configureSsl_fields [simp]:
  "ws_client (ws_configureSsl t) = ws_client t" "ws_connected (ws_configureSsl t) = ws_connected t"
  "ws_currentUrl (ws_configureSsl t) = ws_currentUrl t" "ws_messageQueue (ws_configureSsl t) = ws_messageQueue t"
  "ws_conn (ws_configureSsl t) = ws_conn t" "ws_connectFailed (ws_configureSsl t) = ws_connectFailed t"
  by (simp_all add: ws_configureSsl_def)

section \<open>The contract\<close>

lemma ws_receive_results:
  "ws_receiveResponse env resp t = (ret, r, t') \<Longrightarrow> ret = 0 \<or> (ret = -1 \<and> rs_statusCode r = -1)"
  by (auto simp: ws_receiveResponse_def Let_def split: if_splits list.splits)

lemma ws_transmit_results:
  "ws_transmit env req resp t = (ret, r, t') \<Longrightarrow> ret = 0 \<or> (ret = -1 \<and> rs_statusCode r = -1)"
  by (auto simp: ws_transmit_def Let_def dest: ws_receive_results split: if_splits lib_result.splits)

lemma ws_settled_results:
  "ws_settled env req resp t = (ret, r, t') \<Longrightarrow> ret = 0 \<or> (ret = -1 \<and> rs_statusCode r = -1)"
  by (auto simp: ws_settled_def Let_def dest: ws_transmit_results split: if_splits)

lemma ws_wait_results:
  "ws_wait req resp lim ticks t = Some (Inl (r, t')) \<Longrightarrow> rs_statusCode r = -1"
proof (induction ticks arbitrary: t)
  case Nil
  then show ?case by (subst (asm) ws_wait.simps) (auto split: if_splits)
next
  case (Cons tick ticks)
  then show ?case by (subst (asm) ws_wait.simps) (auto simp: Let_def split: if_splits)
qed

lemma ws_send_results:
  "WebSocketTransport_sendRequest env req resp t = Some (ret, r, t') \<Longrightarrow>
   ret = 0 \<or> (ret = -1 \<and> rs_statusCode r = -1)"
  by (auto simp: WebSocketTransport_sendRequest_def ws_reconnect_def Let_def
      dest: ws_settled_results ws_wait_results
      split: option.splits if_splits sum.splits prod.splits)

interpretation ws: transport WebSocketTransport_sendRequest
  "\<lambda>env r t. Some (ws_receiveResponse env r t)" ws_disconnect ws_connected
proof unfold_locales
  show "WebSocketTransport_sendRequest e q r s = Some (ret, r', s') \<Longrightarrow> ret = 0 \<or> ret = -1 \<and> rs_statusCode r' = -1"
    for e q r s ret r' s' by (rule ws_send_results)
  show "Some (ws_receiveResponse e r s) = Some (ret, r', s') \<Longrightarrow> ret = 0 \<or> ret = -1 \<and> rs_statusCode r' = -1"
    for e r s ret r' s' by (auto dest: ws_receive_results)
qed (auto simp: ws_disconnect_def ws_receiveResponse_def)

section \<open>Where a message comes from\<close>

fun ws_messages :: "ws_event list \<Rightarrow> (nat \<times> string) list" where
  "ws_messages [] = []"
| "ws_messages (WsMessage conn m # es) = (conn, m) # ws_messages es"
| "ws_messages (e # es) = ws_messages es"

lemma ws_messages_append [simp]: "ws_messages (xs @ ys) = ws_messages xs @ ws_messages ys"
  by (induction xs rule: ws_messages.induct) auto

lemma ws_callbacks_queue: "ws_messageQueue (ws_callbacks evs t) = ws_messageQueue t @ ws_messages evs"
proof (induction evs arbitrary: t)
  case (Cons ev evs)
  then show ?case by (cases ev) (auto simp: ws_callbacks_def Let_def)
qed (simp add: ws_callbacks_def)

text \<open>All messages of a call, in the order of the events.\<close>

definition ws_arrivals :: "ws_env \<Rightarrow> (nat \<times> string) list" where
  "ws_arrivals env =
     ws_messages (we_openEvents env @ concat (map wk_events (we_ticks env)) @ we_settledEvents env @ we_sendEvents env @ we_recvEvents env)"

lemma ws_wait_queue:
  "ws_wait req resp lim ticks t = Some (Inr t') \<Longrightarrow>
   \<exists>n. ws_messageQueue t' = ws_messageQueue t @ ws_messages (concat (map wk_events (take n ticks)))"
proof (induction ticks arbitrary: t)
  case Nil
  then have "t' = t" by (subst (asm) ws_wait.simps) (auto split: if_splits)
  then show ?case by simp
next
  case (Cons k ticks)
  let ?t1 = "ws_callbacks (wk_events k) t"
  have "t' = t \<or> t' = ?t1\<lparr>ws_connected := True\<rparr> \<or> ws_wait req resp lim ticks ?t1 = Some (Inr t')"
    using Cons.prems [unfolded ws_wait.simps [of req resp lim "k # ticks" t]]
    by (simp add: Let_def split: if_splits)
  then consider "t' = t" | "t' = ?t1\<lparr>ws_connected := True\<rparr>" | "ws_wait req resp lim ticks ?t1 = Some (Inr t')"
    by blast
  then show ?case
  proof cases
    case 1
    then show ?thesis by (intro exI [of _ 0]) simp
  next
    case 2
    then show ?thesis by (intro exI [of _ 1]) (simp add: ws_callbacks_queue)
  next
    case 3
    obtain n where "ws_messageQueue t' = ws_messageQueue ?t1 @ ws_messages (concat (map wk_events (take n ticks)))"
      using Cons.IH [OF 3] by blast
    then show ?thesis by (intro exI [of _ "Suc n"]) (simp add: ws_callbacks_queue)
  qed
qed

lemma ws_receive_body:
  "ws_receiveResponse env resp t = (0, r, t') \<Longrightarrow>
   rs_statusCode r = 200 \<and> rs_body r \<in> snd ` set (ws_messageQueue t @ ws_messages (we_recvEvents env))"
  by (auto simp: ws_receiveResponse_def Let_def ws_callbacks_queue split: if_splits list.splits)

lemma ws_transmit_body:
  assumes "ws_transmit env req resp t = (0, r, t')"
  shows "rs_statusCode r = 200
    \<and> rs_body r \<in> snd ` set (ws_messageQueue t @ ws_messages (we_sendEvents env @ we_recvEvents env))"
proof (cases "rq_body req = []")
  case True
  then show ?thesis using assms ws_receive_body by (fastforce simp: ws_transmit_def)
next
  case False
  then have "ws_receiveResponse env resp (ws_callbacks (we_sendEvents env) (t\<lparr>ws_wire := ws_wire t @ [rq_body req]\<rparr>))
      = (0, r, t')"
    using assms by (auto simp: ws_transmit_def Let_def split: if_splits lib_result.splits)
  from ws_receive_body [OF this] show ?thesis by (simp add: ws_callbacks_queue)
qed

lemma ws_settled_body:
  assumes "ws_settled env req resp t = (0, r, t')"
  shows "rs_statusCode r = 200
    \<and> rs_body r \<in> snd ` set (ws_messageQueue t @ ws_messages (we_settledEvents env @ we_sendEvents env @ we_recvEvents env))"
  using assms ws_transmit_body [of env req resp "ws_callbacks (we_settledEvents env) t" r t']
  by (auto simp: ws_settled_def Let_def ws_callbacks_queue split: if_splits)

lemma ws_callbacks_conn [simp]: "ws_conn (ws_callbacks evs t) = ws_conn t"
proof (induction evs arbitrary: t)
  case (Cons ev evs)
  then show ?case by (cases ev) (auto simp: ws_callbacks_def Let_def)
qed (simp add: ws_callbacks_def)

lemma ws_wait_conn: "ws_wait req resp lim ticks t = Some (Inr t') \<Longrightarrow> ws_conn t' = ws_conn t"
proof (induction ticks arbitrary: t)
  case Nil
  then show ?case by (subst (asm) ws_wait.simps) (auto split: if_splits)
next
  case (Cons k ticks)
  have "t' = t \<or> t' = (ws_callbacks (wk_events k) t)\<lparr>ws_connected := True\<rparr>
      \<or> ws_wait req resp lim ticks (ws_callbacks (wk_events k) t) = Some (Inr t')"
    using Cons.prems [unfolded ws_wait.simps [of req resp lim "k # ticks" t]]
    by (simp add: Let_def split: if_splits)
  then show ?case using Cons.IH [of "ws_callbacks (wk_events k) t"] by auto
qed

lemma ws_receive_conn: "ws_receiveResponse env resp t = (ret, r, t') \<Longrightarrow> ws_conn t' = ws_conn t"
  by (auto simp: ws_receiveResponse_def Let_def split: if_splits list.splits)

lemma ws_settled_conn: "ws_settled env req resp t = (ret, r, t') \<Longrightarrow> ws_conn t' = ws_conn t"
  by (auto simp: ws_settled_def ws_transmit_def Let_def dest!: ws_receive_conn split: if_splits lib_result.splits)

section \<open>Properties\<close>

text \<open>
  C35: When a request needs a new connection, because there is none or because the URL changed, nothing
  that was queued before the call answers it: the body is that of a message that arrived during this call,
  after one more connection was opened.  It is a message of that connection if the earlier ones are silent
  during the call.
\<close>

theorem ws_answer_is_fresh:
  assumes "WebSocketTransport_sendRequest env req resp t = Some (0, r, t')"
    and "\<not> ws_client t \<or> \<not> ws_connected t \<or> ws_currentUrl t \<noteq> rq_url req"
  shows "rs_statusCode r = 200 \<and> ws_conn t' = Suc (ws_conn t)
    \<and> (\<exists>conn. (conn, rs_body r) \<in> set (ws_arrivals env)
        \<and> ((\<forall>(k, m) \<in> set (ws_arrivals env). k = Suc (ws_conn t)) \<longrightarrow> conn = ws_conn t'))"
proof -
  let ?t1 = "if \<not> ws_client t
    then ws_configureSsl (t\<lparr>ws_client := True, ws_connected := False, ws_connectFailed := False, ws_currentUrl := []\<rparr>) else t"
  have need: "\<not> ws_connected ?t1 \<or> ws_currentUrl ?t1 \<noteq> rq_url req" and conn: "ws_conn ?t1 = ws_conn t"
    using assms(2) by auto
  obtain t2 t3 lim where t2: "ws_reconnect env req resp ?t1 = Inr t2"
    and t3: "ws_wait req resp lim (we_ticks env) t2 = Some (Inr t3)"
    and tr: "ws_settled env req resp t3 = (0, r, t')"
    using assms(1) need
    by (auto simp: WebSocketTransport_sendRequest_def Let_def
        split: option.splits if_splits sum.splits prod.splits)
  have "ws_messageQueue t2 = ws_messages (we_openEvents env)" and t2c: "ws_conn t2 = Suc (ws_conn t)"
    using t2 conn by (auto simp: ws_reconnect_def Let_def ws_callbacks_queue split: if_splits)
  moreover obtain n where "ws_messageQueue t3 = ws_messageQueue t2 @ ws_messages (concat (map wk_events (take n (we_ticks env))))"
    using ws_wait_queue [OF t3] by blast
  moreover have "set (ws_messages (concat (map wk_events (take n ks)))) \<subseteq> set (ws_messages (concat (map wk_events ks)))" for ks
    using append_take_drop_id [of n ks] by (metis Un_upper1 concat_append map_append set_append ws_messages_append)
  ultimately have "rs_statusCode r = 200 \<and> rs_body r \<in> snd ` set (ws_arrivals env)"
    using ws_settled_body [OF tr] by (fastforce simp: ws_arrivals_def)
  moreover have "ws_conn t' = Suc (ws_conn t)" using ws_settled_conn [OF tr] ws_wait_conn [OF t3] t2c by simp
  ultimately show ?thesis by fastforce
qed

definition ws_demo_env :: "string \<Rightarrow> ws_env" where
  "ws_demo_env m = \<lparr>we_newClient = None, we_open = 0, we_openEvents = [WsOpen True], we_ticks = [], we_settledEvents = [],
     we_send = Gives 1,
     we_sendEvents = [], we_recvEvents = [WsMessage 1 m], we_recvTimeout = False\<rparr>"

lemma ws_send_standard:
  assumes "WebSocketTransport_parseUrl (rq_url req) = Some u" and "pu_scheme u = ''ws'' \<or> pu_scheme u = ''wss''"
    and "\<not> ws_client t"
  shows "\<exists>t'. WebSocketTransport_sendRequest (ws_demo_env m) req resp t
    = Some (0, resp\<lparr>rs_statusCode := 200, rs_body := m\<rparr>, t') \<and> ws_connect t'"
  using assms
  by (auto simp: WebSocketTransport_sendRequest_def ws_demo_env_def ws_reconnect_def ws_wait.simps
      ws_callbacks_def ws_settled_def ws_transmit_def ws_receiveResponse_def ws_connect_def Let_def)

lemma ws_demo_url:
  "WebSocketTransport_parseUrl ''h'' = Some \<lparr>pu_scheme = ''ws'', pu_host = ''h'', pu_port = 80, pu_path = ''/''\<rparr>"
  by (simp add: WebSocketTransport_parseUrl_def parse_url_def parse_authority_def find_char_def find_from_def
      trim_id is_space_def byte_def substr_def Let_def)

lemma ws_answer_is_fresh_witness:
  "\<exists>r t'. WebSocketTransport_sendRequest (ws_demo_env ''hi'') (Request_ctor\<lparr>rq_url := ''h''\<rparr>) Response_ctor
       ((WebSocketTransport_ctor True SslConfig_ctor)\<lparr>ws_client := False, ws_messageQueue := [(0, ''old'')]\<rparr>) = Some (0, r, t')
     \<and> rs_body r \<in> {''hi''}"
proof -
  let ?t = "(WebSocketTransport_ctor True SslConfig_ctor)\<lparr>ws_client := False, ws_messageQueue := [(0, ''old'')]\<rparr>"
  obtain r t' where run: "WebSocketTransport_sendRequest (ws_demo_env ''hi'') (Request_ctor\<lparr>rq_url := ''h''\<rparr>) Response_ctor ?t
      = Some (0, r, t')"
    using ws_send_standard [of "Request_ctor\<lparr>rq_url := ''h''\<rparr>" _ ?t] ws_demo_url by fastforce
  from ws_answer_is_fresh [OF run] show ?thesis using run by (auto simp: ws_arrivals_def ws_demo_env_def)
qed

text \<open>
  \<open>disconnect\<close> does not end the life of the transport: a later request creates a new client, and if
  the connection opens and a message arrives it is returned.
\<close>

theorem ws_reconnects_after_disconnect:
  assumes "WebSocketTransport_parseUrl (rq_url req) = Some u" and "pu_scheme u = ''ws'' \<or> pu_scheme u = ''wss''"
  shows "\<exists>t'. WebSocketTransport_sendRequest (ws_demo_env m) req resp (ws_disconnect t)
    = Some (0, resp\<lparr>rs_statusCode := 200, rs_body := m\<rparr>, t') \<and> ws_connect t'"
  by (rule ws_send_standard [OF assms]) (simp add: ws_disconnect_def)

lemma ws_reconnects_after_disconnect_witness:
  "\<exists>t'. WebSocketTransport_sendRequest (ws_demo_env ''x'') (Request_ctor\<lparr>rq_url := ''h''\<rparr>) Response_ctor
      (ws_disconnect (WebSocketTransport_ctor True SslConfig_ctor))
    = Some (0, Response_ctor\<lparr>rs_statusCode := 200, rs_body := ''x''\<rparr>, t') \<and> ws_connect t'"
proof -
  have "WebSocketTransport_parseUrl (rq_url (Request_ctor\<lparr>rq_url := ''h''\<rparr>))
      = Some \<lparr>pu_scheme = ''ws'', pu_host = ''h'', pu_port = 80, pu_path = ''/''\<rparr>"
    using ws_demo_url by simp
  then show ?thesis by (rule ws_reconnects_after_disconnect) simp
qed

section \<open>A changed URL\<close>



end
