(* ===== verification/TransportFactory.thy ===== *)
theory TransportFactory imports HttpClients TcpClient WebSocketClient begin

text \<open>
  The factory of the client transports (\<open>src/src/TransportFactory.cpp\<close>), and the virtual calls of
  \<open>ITransport\<close> on its results.  The booleans tell whether the library's client could be created, \<open>env\<close> is
  the TLS library.
\<close>

datatype ITransport =
    AnyHttp HttpTransport
  | AnyHttps HttpsTransport
  | AnyTcp TcpTransport
  | AnyWebSocket WebSocketTransport

definition createHttp :: "bool \<Rightarrow> ITransport" where
  "createHttp ok = AnyHttp (HttpTransport_ctor ok)"

definition createHttps :: "bool \<Rightarrow> ssl_env \<Rightarrow> SslConfig \<Rightarrow> ITransport" where
  "createHttps ok env sslConfig = AnyHttps (HttpsTransport_ctor ok env sslConfig)"

definition createTcp :: "bool \<Rightarrow> ITransport" where
  "createTcp ok = AnyTcp (TcpTransport_ctor ok)"

definition createWebSocket :: "bool \<Rightarrow> SslConfig \<Rightarrow> ITransport" where
  "createWebSocket ok sslConfig = AnyWebSocket (WebSocketTransport_ctor ok sslConfig)"

definition TransportFactory_create :: "bool \<Rightarrow> ssl_env \<Rightarrow> string \<Rightarrow> ITransport option" where
  "TransportFactory_create ok env type =
     (let lowerType = to_lower type
      in if lowerType = ''http'' then Some (createHttp ok)
         else if lowerType = ''https'' then Some (createHttps ok env SslConfig_ctor)
         else if lowerType = ''tcp'' then Some (createTcp ok)
         else if lowerType = ''websocket'' \<or> lowerType = ''ws'' then Some (createWebSocket ok SslConfig_ctor)
         else if lowerType = ''wss'' then Some (createWebSocket ok SslConfig_ctor)
         else None)"

fun getTransportType :: "ITransport \<Rightarrow> string" where
  "getTransportType (AnyHttp t) = ''http''"
| "getTransportType (AnyHttps t) = ''https''"
| "getTransportType (AnyTcp t) = ''tcp''"
| "getTransportType (AnyWebSocket t) = ''websocket''"

text \<open>\<open>isConnected()\<close>; the boolean is the answer of the library's client for the two socket transports.\<close>

fun transport_isConnected :: "bool \<Rightarrow> ITransport \<Rightarrow> bool" where
  "transport_isConnected up (AnyHttp t) = http_isConnected t"
| "transport_isConnected up (AnyHttps t) = HttpsTransport_isConnected t"
| "transport_isConnected up (AnyTcp t) = tcp_isConnected up t"
| "transport_isConnected up (AnyWebSocket t) = ws_isConnected up t"

fun transport_disconnect :: "ITransport \<Rightarrow> ITransport" where
  "transport_disconnect (AnyHttp t) = AnyHttp (http_disconnect t)"
| "transport_disconnect (AnyHttps t) = AnyHttps (HttpsTransport_disconnect t)"
| "transport_disconnect (AnyTcp t) = AnyTcp (tcp_disconnect t)"
| "transport_disconnect (AnyWebSocket t) = AnyWebSocket (ws_disconnect t)"

fun transport_connect :: "ITransport \<Rightarrow> bool" where
  "transport_connect (AnyHttp t) = http_connect t"
| "transport_connect (AnyHttps t) = HttpsTransport_connect t"
| "transport_connect (AnyTcp t) = tcp_connect t"
| "transport_connect (AnyWebSocket t) = ws_connect t"

text \<open>What the libraries do during one call, for each kind of transport.\<close>

record any_env =
  ae_hv :: hv_env
  ae_tcp :: tcp_env
  ae_ws :: ws_env

definition boxed :: "('s \<Rightarrow> ITransport) \<Rightarrow> int \<times> Response \<times> 's \<Rightarrow> int \<times> Response \<times> ITransport" where
  "boxed box = (\<lambda>(ret, r, t). (ret, r, box t))"

fun transport_sendRequest :: "any_env \<Rightarrow> Request \<Rightarrow> Response \<Rightarrow> ITransport \<Rightarrow> (int \<times> Response \<times> ITransport) option" where
  "transport_sendRequest e req resp (AnyHttp t) =
     Some (boxed AnyHttp (HttpTransport_sendRequest (fst (ae_hv e)) (snd (ae_hv e)) req resp t))"
| "transport_sendRequest e req resp (AnyHttps t) =
     Some (boxed AnyHttps (HttpsTransport_sendRequest (fst (ae_hv e)) (snd (ae_hv e)) req resp t))"
| "transport_sendRequest e req resp (AnyTcp t) = map_option (boxed AnyTcp) (TcpTransport_sendRequest (ae_tcp e) req resp t)"
| "transport_sendRequest e req resp (AnyWebSocket t) =
     map_option (boxed AnyWebSocket) (WebSocketTransport_sendRequest (ae_ws e) req resp t)"

fun transport_receiveResponse :: "any_env \<Rightarrow> Response \<Rightarrow> ITransport \<Rightarrow> int \<times> Response \<times> ITransport" where
  "transport_receiveResponse e resp (AnyHttp t) = boxed AnyHttp (http_receiveResponse resp t)"
| "transport_receiveResponse e resp (AnyHttps t) = boxed AnyHttps (HttpsTransport_receiveResponse resp t)"
| "transport_receiveResponse e resp (AnyTcp t) = boxed AnyTcp (tcp_receiveResponse (ae_tcp e) resp t)"
| "transport_receiveResponse e resp (AnyWebSocket t) = boxed AnyWebSocket (ws_receiveResponse (ae_ws e) resp t)"

text \<open>The flag that \<open>receiveResponse\<close> looks at.\<close>

fun transport_flag :: "ITransport \<Rightarrow> bool" where
  "transport_flag (AnyHttp t) = ht_connected t"
| "transport_flag (AnyHttps t) = ht_connected t"
| "transport_flag (AnyTcp t) = tt_connected t"
| "transport_flag (AnyWebSocket t) = ws_connected t"

lemma boxed_eq [simp]: "boxed box x = (ret, r, t) \<longleftrightarrow> (\<exists>t0. x = (ret, r, t0) \<and> t = box t0)"
  by (cases x) (auto simp: boxed_def)

text \<open>The virtual calls keep the contract of the interface, because each transport does.\<close>

lemma any_send_result:
  assumes "transport_sendRequest e q r s = Some (ret, r', s')"
  shows "ret = 0 \<or> (ret = -1 \<and> rs_statusCode r' = -1)"
proof (cases s)
  case (AnyHttp t)
  then obtain t' where "HttpTransport_sendRequest (fst (ae_hv e)) (snd (ae_hv e)) q r t = (ret, r', t')" using assms by auto
  then show ?thesis using http.send_result [of "ae_hv e" q r t] by (simp add: case_prod_beta)
next
  case (AnyHttps t)
  then obtain t' where "HttpsTransport_sendRequest (fst (ae_hv e)) (snd (ae_hv e)) q r t = (ret, r', t')" using assms by auto
  then show ?thesis using https.send_result [of "ae_hv e" q r t] by (simp add: case_prod_beta)
next
  case (AnyTcp t)
  then obtain t' where "TcpTransport_sendRequest (ae_tcp e) q r t = Some (ret, r', t')" using assms by auto
  then show ?thesis by (rule tcp.send_result)
next
  case (AnyWebSocket t)
  then obtain t' where "WebSocketTransport_sendRequest (ae_ws e) q r t = Some (ret, r', t')" using assms by auto
  then show ?thesis by (rule ws.send_result)
qed

lemma any_receive_result:
  assumes "transport_receiveResponse e r s = (ret, r', s')"
  shows "ret = 0 \<or> (ret = -1 \<and> rs_statusCode r' = -1)"
proof (cases s)
  case (AnyHttp t)
  then show ?thesis using assms http.receive_result [of r t ret r'] by auto
next
  case (AnyHttps t)
  then show ?thesis using assms https.receive_result [of r t ret r'] by auto
next
  case (AnyTcp t)
  then obtain t' where "tcp_receiveResponse (ae_tcp e) r t = (ret, r', t')" using assms by auto
  then show ?thesis using tcp.receive_result [of "ae_tcp e" r t ret r' t'] by simp
next
  case (AnyWebSocket t)
  then obtain t' where "ws_receiveResponse (ae_ws e) r t = (ret, r', t')" using assms by auto
  then show ?thesis using ws.receive_result [of "ae_ws e" r t ret r' t'] by simp
qed

interpretation any: transport transport_sendRequest "\<lambda>e r t. Some (transport_receiveResponse e r t)"
  transport_disconnect transport_flag
proof unfold_locales
  show "transport_sendRequest e q r s = Some (ret, r', s') \<Longrightarrow> ret = 0 \<or> ret = -1 \<and> rs_statusCode r' = -1"
    for e q r s ret r' s' by (rule any_send_result)
  show "Some (transport_receiveResponse e r s) = Some (ret, r', s') \<Longrightarrow> ret = 0 \<or> ret = -1 \<and> rs_statusCode r' = -1"
    for e r s ret r' s' by (rule any_receive_result) simp
  show "\<exists>r' s'. Some (transport_receiveResponse e r s) = Some (-1, r', s')" if "\<not> transport_flag s" for e r s
    using that by (cases s) (auto simp: http_receiveResponse_def tcp_receiveResponse_def receiveResponseWithTimeout_def ws_receiveResponse_def)
  show "\<not> transport_flag (transport_disconnect s)" for s
    by (cases s) (simp_all add: http_disconnect_def tcp_disconnect_def ws_disconnect_def)
qed

text \<open>A client of the interface: any calls on one transport, with the answers and the transport at the end.\<close>

fun client_run :: "ITransport \<Rightarrow> any_env transport_call list \<Rightarrow> ((int \<times> Response) list \<times> ITransport) option" where
  "client_run t [] = Some ([], t)"
| "client_run t (TSend e req # cs) =
     (case transport_sendRequest e req Response_ctor t of
        None \<Rightarrow> None
      | Some (ret, r, t1) \<Rightarrow> map_option (\<lambda>(rs, t2). ((ret, r) # rs, t2)) (client_run t1 cs))"
| "client_run t (TReceive e # cs) =
     (case transport_receiveResponse e Response_ctor t of
        (ret, r, t1) \<Rightarrow> map_option (\<lambda>(rs, t2). ((ret, r) # rs, t2)) (client_run t1 cs))"
| "client_run t (TDisconnect # cs) = client_run (transport_disconnect t) cs"

lemma client_run_session: "client_run t cs = any.session t cs"
proof (induction cs arbitrary: t)
  case (Cons c cs)
  then show ?case by (cases c) (simp_all split: option.split prod.split)
qed simp

lemma type_disconnect [simp]: "getTransportType (transport_disconnect t) = getTransportType t"
  by (cases t) simp_all

lemma type_send: "transport_sendRequest e req resp t = Some (ret, r, t') \<Longrightarrow> getTransportType t' = getTransportType t"
  by (cases t) auto

lemma type_receive: "transport_receiveResponse e resp t = (ret, r, t') \<Longrightarrow> getTransportType t' = getTransportType t"
  by (cases t) auto

lemma client_run_type: "client_run t cs = Some (rs, t') \<Longrightarrow> getTransportType t' = getTransportType t"
proof (induction t cs arbitrary: rs rule: client_run.induct)
  case (2 t e req cs)
  then show ?case by (fastforce split: option.splits dest: type_send)
next
  case (3 t e cs)
  then show ?case by (fastforce split: prod.splits dest: type_receive)
qed auto

lemma disconnected [simp]: "\<not> transport_isConnected up (transport_disconnect t)"
  by (cases t) (simp_all add: http_isConnected_def http_disconnect_def tcp_isConnected_def tcp_disconnect_def
      ws_isConnected_def ws_disconnect_def)

lemma created [simp]:
  "getTransportType (createHttp ok) = ''http''" "getTransportType (createHttps ok env cfg) = ''https''"
  "getTransportType (createTcp ok) = ''tcp''" "getTransportType (createWebSocket ok cfg) = ''websocket''"
  "\<not> transport_isConnected up (createTcp ok)" "\<not> transport_isConnected up (createWebSocket ok cfg)"
  by (simp_all add: createHttp_def createHttps_def createTcp_def createWebSocket_def tcp_isConnected_def
      TcpTransport_ctor_def ws_isConnected_def WebSocketTransport_ctor_def)

text \<open>
  The factory knows exactly the six names, in any case of letters; what it returns is of that
  transport (\<open>ws\<close> and \<open>wss\<close> are \<open>websocket\<close>), a socket transport is not connected yet, and after
  \<open>disconnect\<close> no transport is connected.
\<close>

theorem TransportFactory_types:
  "(case TransportFactory_create ok env type of
      None \<Rightarrow> to_lower type \<notin> {''http'', ''https'', ''tcp'', ''websocket'', ''ws'', ''wss''}
    | Some t \<Rightarrow>
        to_lower type \<in> {''http'', ''https'', ''tcp'', ''websocket'', ''ws'', ''wss''}
        \<and> getTransportType t = (if to_lower type \<in> {''ws'', ''wss''} then ''websocket'' else to_lower type)
        \<and> (getTransportType t \<in> {''http'', ''https''} \<or> \<not> transport_isConnected up t)
        \<and> \<not> transport_isConnected up (transport_disconnect t))"
  by (simp add: TransportFactory_create_def Let_def)

text \<open>
  C32: Whatever a client does with a transport from the factory through the interface, the transport stays of
  the type its name asked for, every call reports 0 or -1, a failed call never carries a status that
  reads as a success, and nothing can be received after \<open>disconnect\<close>.
\<close>

theorem TransportFactory_typed:
  assumes "TransportFactory_create ok env type = Some t" and "client_run t cs = Some (rs, t')"
  shows "getTransportType t' = (if to_lower type \<in> {''ws'', ''wss''} then ''websocket'' else to_lower type)
    \<and> (\<forall>(ret, r)\<in>set rs. ret = 0 \<or> (ret = -1 \<and> \<not> isSuccess r))
    \<and> (\<exists>r t''. client_run t' [TDisconnect, TReceive e] = Some ([(-1, r)], t''))"
proof -
  have "getTransportType t' = (if to_lower type \<in> {''ws'', ''wss''} then ''websocket'' else to_lower type)"
    using client_run_type [OF assms(2)] TransportFactory_types [where ok = ok and env = env and type = type] assms(1) by simp
  moreover have "\<forall>(ret, r)\<in>set rs. ret = 0 \<or> (ret = -1 \<and> \<not> isSuccess r)"
    using any.session_failures assms(2) unfolding client_run_session by blast
  moreover have "\<exists>r t''. client_run t' [TDisconnect, TReceive e] = Some ([(-1, r)], t'')"
    unfolding client_run_session by (rule any.receive_after_disconnect)
  ultimately show ?thesis by blast
qed

definition demo_any :: any_env where
  "demo_any = \<lparr>ae_hv = (\<lambda>_. 0, \<lambda>_. ThrewUnknown), ae_tcp = env_timeout, ae_ws = ws_demo_env ''hi''\<rparr>"

definition demo_ssl :: ssl_env where
  "demo_ssl = \<lparr>se_hssl_ctx_new = True, se_set_min_max = True, se_setSslCtx = 0, se_newSslCtx = 0\<rparr>"

lemma TransportFactory_typed_witness:
  "\<exists>t rs t'. TransportFactory_create False demo_ssl ''WS'' = Some t
     \<and> client_run t [TSend demo_any (Request_ctor\<lparr>rq_url := ''h''\<rparr>), TDisconnect, TSend demo_any Request_ctor] = Some (rs, t')
     \<and> map fst rs = [0, -1] \<and> getTransportType t' = ''websocket''"
proof -
  let ?t = "WebSocketTransport_ctor False SslConfig_ctor" and ?q = "Request_ctor\<lparr>rq_url := ''h''\<rparr>"
  have lower: "to_lower ''WS'' = ''ws''" by code_simp
  then have t: "TransportFactory_create False demo_ssl ''WS'' = Some (AnyWebSocket ?t)"
    by (simp add: TransportFactory_create_def createWebSocket_def)
  have "WebSocketTransport_parseUrl (rq_url ?q) = Some \<lparr>pu_scheme = ''ws'', pu_host = ''h'', pu_port = 80, pu_path = ''/''\<rparr>"
    using ws_demo_url by simp
  then obtain t1 where send: "WebSocketTransport_sendRequest (ws_demo_env ''hi'') ?q Response_ctor ?t
      = Some (0, Response_ctor\<lparr>rs_statusCode := 200, rs_body := ''hi''\<rparr>, t1)"
    using ws_send_standard [of ?q _ ?t "''hi''" Response_ctor] by (fastforce simp: WebSocketTransport_ctor_def)
  have "WebSocketTransport_parseUrl [] = None"
    by (simp add: WebSocketTransport_parseUrl_def parse_url_def trim_def ltrim_def rtrim_def Let_def)
  then obtain r where run: "client_run (AnyWebSocket ?t) [TSend demo_any ?q, TDisconnect, TSend demo_any Request_ctor]
      = Some ([(0, Response_ctor\<lparr>rs_statusCode := 200, rs_body := ''hi''\<rparr>), (-1, r)], AnyWebSocket (ws_disconnect t1))"
    using send by (simp add: boxed_def demo_any_def WebSocketTransport_sendRequest_def Request_ctor_def)
  show ?thesis
    using t run TransportFactory_typed [OF t run] lower by (intro exI [of _ "AnyWebSocket ?t"]) (auto simp: exI)
qed

end
