(* ===== verification/Context.thy ===== *)
theory Context imports StdMap begin

text \<open>
  The request context (\<open>src/src/Context.cpp\<close>): the one object through which handlers and middleware see
  a request and write the response.

  The message objects belong to the library.  Plain members that the code reads and assigns (status,
  body, path, query parameters) are fields; a header map is represented by the list of the calls that
  built it, and what the library reads from it (\<open>GetHeader\<close>, \<open>GetCookie\<close>, \<open>Path\<close>, \<dots>) is a field of
  \<open>hv_lib\<close>, an argument of the operations that use it.  The response writer is the list of the calls
  made on it; what a call returns is an argument.  \<open>'w\<close> is whatever else a handler can reach.
\<close>

section \<open>The objects of the library\<close>

datatype header_call =
    SetHeader string string
  | EraseHeader string

datatype content_call =
    SetContentType string
  | SetContentTypeByFilename string
  | AssignApplicationJson

datatype same_site = SameSiteNone | SameSiteLax | SameSiteStrict

record HttpCookie =
  ck_name :: string
  ck_value :: string
  ck_path :: string
  ck_max_age :: int
  ck_httponly :: bool
  ck_secure :: bool
  ck_samesite :: same_site

record HttpRequest =
  hr_method :: int
  hr_path :: string
  hr_query_params :: "string std_map"
  hr_headers :: "header_call list"
  hr_body :: string
  hr_client_ip :: string
  hr_client_port :: int
  hr_content_length :: int
  hr_major :: int
  hr_minor :: int

record HttpResponse =
  hp_status_code :: int
  hp_headers :: "header_call list"
  hp_content :: "content_call list"
  hp_cookies :: "HttpCookie list"
  hp_body :: string

datatype writer_call =
    WriteStatus int
  | WriteHeader string string
  | EndHeaders string int
  | WriteBody string
  | WriteRaw string
  | EndCall

record writer =
  wr_calls :: "writer_call list"
  wr_connected :: bool
  wr_bufsize :: nat

record hv_lib =
  lib_method_str :: "int \<Rightarrow> string"
  lib_method_enum :: "string \<Rightarrow> int"
  lib_Path :: "HttpRequest \<Rightarrow> string"
  lib_GetParam :: "HttpRequest \<Rightarrow> string \<Rightarrow> string"
  lib_GetHeader :: "header_call list \<Rightarrow> string \<Rightarrow> string"
  lib_GetFormData :: "HttpRequest \<Rightarrow> string \<Rightarrow> string"
  lib_GetCookie :: "HttpRequest \<Rightarrow> string \<Rightarrow> string"
  lib_File :: "string option \<Rightarrow> HttpResponse \<Rightarrow> HttpResponse"
  lib_send_begin :: "writer_call list \<Rightarrow> bool"     \<comment> \<open>\<open>state == SEND_BEGIN\<close> after these calls\<close>

section \<open>The context\<close>

record 'w Context =
  cx_req :: HttpRequest
  cx_resp :: HttpResponse
  cx_writer :: "writer option"            \<comment> \<open>\<open>None\<close> also for a synchronous handler\<close>
  cx_data :: "string \<Rightarrow> string option"
  cx_streamingHandoff :: bool
  cx_world :: 'w

definition Context_sync :: "HttpRequest \<Rightarrow> HttpResponse \<Rightarrow> 'w \<Rightarrow> 'w Context" where
  "Context_sync req resp w =
     \<lparr>cx_req = req, cx_resp = resp, cx_writer = None, cx_data = Map.empty, cx_streamingHandoff = False,
      cx_world = w\<rparr>"

definition Context_async :: "HttpRequest \<Rightarrow> HttpResponse \<Rightarrow> writer option \<Rightarrow> 'w \<Rightarrow> 'w Context" where
  "Context_async req resp writer w =
     \<lparr>cx_req = req, cx_resp = resp, cx_writer = writer, cx_data = Map.empty, cx_streamingHandoff = False,
      cx_world = w\<rparr>"

subsection \<open>Request access\<close>

definition Context_method :: "hv_lib \<Rightarrow> 'w Context \<Rightarrow> string" where
  "Context_method lib c = lib_method_str lib (hr_method (cx_req c))"

definition Context_path :: "'w Context \<Rightarrow> string" where
  "Context_path c = hr_path (cx_req c)"

definition Context_routePath :: "hv_lib \<Rightarrow> 'w Context \<Rightarrow> string" where
  "Context_routePath lib c = lib_Path lib (cx_req c)"

definition Context_param :: "hv_lib \<Rightarrow> string \<Rightarrow> 'w Context \<Rightarrow> string" where
  "Context_param lib key c = lib_GetParam lib (cx_req c) key"

definition Context_header :: "hv_lib \<Rightarrow> string \<Rightarrow> 'w Context \<Rightarrow> string" where
  "Context_header lib key c = lib_GetHeader lib (hr_headers (cx_req c)) key"

definition Context_body :: "'w Context \<Rightarrow> string" where
  "Context_body c = hr_body (cx_req c)"

definition Context_clientIp :: "'w Context \<Rightarrow> string" where
  "Context_clientIp c = hr_client_ip (cx_req c)"

definition Context_clientPort :: "'w Context \<Rightarrow> int" where
  "Context_clientPort c = hr_client_port (cx_req c)"

definition Context_formData :: "hv_lib \<Rightarrow> string \<Rightarrow> 'w Context \<Rightarrow> string" where
  "Context_formData lib key c = lib_GetFormData lib (cx_req c) key"

definition Context_cookie :: "hv_lib \<Rightarrow> string \<Rightarrow> 'w Context \<Rightarrow> string" where
  "Context_cookie lib name c = lib_GetCookie lib (cx_req c) name"

definition Context_contentLength :: "'w Context \<Rightarrow> int" where
  "Context_contentLength c = hr_content_length (cx_req c)"

definition Context_httpVersion :: "'w Context \<Rightarrow> int" where
  "Context_httpVersion c = hr_major (cx_req c) * 10 + hr_minor (cx_req c)"

definition Context_methodEnum :: "'w Context \<Rightarrow> int" where
  "Context_methodEnum c = hr_method (cx_req c)"

text \<open>The loop of \<open>fullPath\<close> over the query parameters; \<open>first\<close> is true before the first of them.\<close>

fun query_text :: "bool \<Rightarrow> (string \<times> string) list \<Rightarrow> string" where
  "query_text first [] = []"
| "query_text first ((k, v) # ps) = (if first then [] else ''&'') @ k @ ''='' @ v @ query_text False ps"

definition Context_fullPath :: "'w Context \<Rightarrow> string" where
  "Context_fullPath c =
     (let result = hr_path (cx_req c)
      in if CHR ''?'' \<notin> set result \<and> hr_query_params (cx_req c) \<noteq> []
         then result @ ''?'' @ query_text True (hr_query_params (cx_req c)) else result)"

subsection \<open>The response\<close>

definition with_resp :: "(HttpResponse \<Rightarrow> HttpResponse) \<Rightarrow> 'w Context \<Rightarrow> 'w Context" where
  "with_resp f c = c\<lparr>cx_resp := f (cx_resp c)\<rparr>"

definition put_header :: "string \<Rightarrow> string \<Rightarrow> HttpResponse \<Rightarrow> HttpResponse" where
  "put_header key val r = r\<lparr>hp_headers := hp_headers r @ [SetHeader key val]\<rparr>"

definition Context_setStatus :: "int \<Rightarrow> 'w Context \<Rightarrow> 'w Context" where
  "Context_setStatus code = with_resp (\<lambda>r. r\<lparr>hp_status_code := code\<rparr>)"

definition Context_status :: "'w Context \<Rightarrow> int" where
  "Context_status c = hp_status_code (cx_resp c)"

definition is_crlf :: "char \<Rightarrow> bool" where
  "is_crlf ch \<longleftrightarrow> ch = CHR 0x0D \<or> ch = CHR 0x0A"

definition strip_crlf :: "string \<Rightarrow> string" where
  "strip_crlf val = (if list_ex is_crlf val then filter (\<lambda>ch. \<not> is_crlf ch) val else val)"

definition Context_setHeader :: "string \<Rightarrow> string \<Rightarrow> 'w Context \<Rightarrow> 'w Context" where
  "Context_setHeader key val = with_resp (put_header key (strip_crlf val))"

definition Context_responseHeader :: "hv_lib \<Rightarrow> string \<Rightarrow> 'w Context \<Rightarrow> string" where
  "Context_responseHeader lib key c = lib_GetHeader lib (hp_headers (cx_resp c)) key"

definition Context_setBody :: "string \<Rightarrow> 'w Context \<Rightarrow> 'w Context" where
  "Context_setBody body = with_resp (\<lambda>r. r\<lparr>hp_body := body\<rparr>)"

definition Context_setContentType :: "string \<Rightarrow> 'w Context \<Rightarrow> 'w Context" where
  "Context_setContentType ct = with_resp (\<lambda>r. r\<lparr>hp_content := hp_content r @ [SetContentType ct]\<rparr>)"

definition Context_setContentTypeByFilename :: "string \<Rightarrow> 'w Context \<Rightarrow> 'w Context" where
  "Context_setContentTypeByFilename name =
     with_resp (\<lambda>r. r\<lparr>hp_content := hp_content r @ [SetContentTypeByFilename name]\<rparr>)"

fun has_dotdot :: "string \<Rightarrow> bool" where
  "has_dotdot (a # b # s) = ((a = CHR ''.'' \<and> b = CHR ''.'') \<or> has_dotdot (b # s))"
| "has_dotdot _ = False"

definition Context_serveFile :: "hv_lib \<Rightarrow> string option \<Rightarrow> 'w Context \<Rightarrow> 'w Context" where
  "Context_serveFile lib filepath c =
     (if (case filepath of None \<Rightarrow> False | Some p \<Rightarrow> has_dotdot (c_str p))
      then with_resp (\<lambda>r. r\<lparr>hp_status_code := 403, hp_body := ''{\"error\":\"Forbidden\"}''\<rparr>) c
      else with_resp (lib_File lib (map_option c_str filepath)) c)"

definition json_utf8 :: string where
  "json_utf8 = ''application/json; charset=utf-8''"

definition Context_json :: "int \<Rightarrow> string \<Rightarrow> 'w Context \<Rightarrow> 'w Context" where
  "Context_json code jsonBody =
     with_resp (\<lambda>r. (put_header ''Content-Type'' json_utf8
         (r\<lparr>hp_status_code := code, hp_content := hp_content r @ [AssignApplicationJson]\<rparr>))\<lparr>hp_body := jsonBody\<rparr>)"

definition escape_char :: "char \<Rightarrow> string" where
  "escape_char ch = (if ch = CHR 0x22 \<or> ch = CHR 0x5C then [CHR 0x5C, ch] else [ch])"

definition error_body :: "string \<Rightarrow> string option \<Rightarrow> string" where
  "error_body code message =
     (case message of
        None \<Rightarrow> ''{\"error\":\"'' @ code @ ''\"}''
      | Some m \<Rightarrow>
          if m = [] then ''{\"error\":\"'' @ code @ ''\"}''
          else ''{\"error\":\"'' @ code @ ''\",\"message\":\"'' @ concat (map escape_char m) @ ''\"}'')"

definition Context_error :: "int \<Rightarrow> string \<Rightarrow> string option \<Rightarrow> 'w Context \<Rightarrow> 'w Context" where
  "Context_error statusCode code message =
     with_resp (\<lambda>r. (put_header ''Content-Type'' json_utf8 (r\<lparr>hp_status_code := statusCode\<rparr>))
       \<lparr>hp_body := error_body (c_str code) (map_option c_str message)\<rparr>)"

definition Context_responseBodySize :: "'w Context \<Rightarrow> nat" where
  "Context_responseBodySize c = length (hp_body (cx_resp c))"

definition Context_removeHeader :: "string \<Rightarrow> 'w Context \<Rightarrow> 'w Context" where
  "Context_removeHeader key = with_resp (\<lambda>r. r\<lparr>hp_headers := hp_headers r @ [EraseHeader key]\<rparr>)"

definition Context_eraseRequestHeader :: "string \<Rightarrow> 'w Context \<Rightarrow> 'w Context" where
  "Context_eraseRequestHeader key c =
     c\<lparr>cx_req := (cx_req c)\<lparr>hr_headers := hr_headers (cx_req c) @ [EraseHeader key]\<rparr>\<rparr>"

definition same_site_of :: "int \<Rightarrow> same_site" where
  "same_site_of n = (if n = 0 then SameSiteNone else if n = 1 then SameSiteLax else if n = 2 then SameSiteStrict
     else SameSiteLax)"

definition Context_setCookie ::
  "string \<Rightarrow> string \<Rightarrow> string \<Rightarrow> int \<Rightarrow> bool \<Rightarrow> int \<Rightarrow> bool \<Rightarrow> 'w Context \<Rightarrow> 'w Context" where
  "Context_setCookie name val path maxAge httpOnly sameSite secure =
     with_resp (\<lambda>r. r\<lparr>hp_cookies := hp_cookies r @
       [\<lparr>ck_name = name, ck_value = val, ck_path = path, ck_max_age = maxAge, ck_httponly = httpOnly,
         ck_secure = secure, ck_samesite = same_site_of sameSite\<rparr>]\<rparr>)"

subsection \<open>Streaming\<close>

definition Context_hasWriter :: "'w Context \<Rightarrow> bool" where
  "Context_hasWriter c \<longleftrightarrow> cx_writer c \<noteq> None"

definition write_call :: "writer_call \<Rightarrow> 'w Context \<Rightarrow> 'w Context" where
  "write_call call c =
     c\<lparr>cx_writer := map_option (\<lambda>w. w\<lparr>wr_calls := wr_calls w @ [call]\<rparr>) (cx_writer c)\<rparr>"

definition Context_writeStatus :: "int \<Rightarrow> 'w Context \<Rightarrow> 'w Context" where
  "Context_writeStatus code c = (if Context_hasWriter c then write_call (WriteStatus code) c else c)"

definition Context_writeHeader :: "string \<Rightarrow> string \<Rightarrow> 'w Context \<Rightarrow> 'w Context" where
  "Context_writeHeader key val c =
     (if \<not> Context_hasWriter c then c else write_call (WriteHeader key (strip_crlf (c_str val))) c)"

definition Context_endHeaders :: "int \<Rightarrow> string \<Rightarrow> int \<Rightarrow> 'w Context \<Rightarrow> int \<times> 'w Context" where
  "Context_endHeaders ret key len c =
     (if Context_hasWriter c then (ret, write_call (EndHeaders key len) c) else (-1, c))"

definition Context_writeBody :: "int \<Rightarrow> string \<Rightarrow> 'w Context \<Rightarrow> int \<times> 'w Context" where
  "Context_writeBody ret buf c = (if Context_hasWriter c then (ret, write_call (WriteBody buf) c) else (-1, c))"

definition Context_writerConnected :: "'w Context \<Rightarrow> bool" where
  "Context_writerConnected c = (case cx_writer c of None \<Rightarrow> False | Some w \<Rightarrow> wr_connected w)"

definition Context_writeBufsize :: "'w Context \<Rightarrow> nat" where
  "Context_writeBufsize c = (case cx_writer c of None \<Rightarrow> 0 | Some w \<Rightarrow> wr_bufsize w)"

definition Context_end :: "int \<Rightarrow> 'w Context \<Rightarrow> int \<times> 'w Context" where
  "Context_end ret c = (if Context_hasWriter c then (ret, write_call EndCall c) else (-1, c))"

definition Context_writerOwnership :: "'w Context \<Rightarrow> writer option" where
  "Context_writerOwnership c = cx_writer c"

definition Context_markStreamingHandoff :: "'w Context \<Rightarrow> 'w Context" where
  "Context_markStreamingHandoff c = c\<lparr>cx_streamingHandoff := True\<rparr>"

definition Context_isStreamingHandoff :: "'w Context \<Rightarrow> bool" where
  "Context_isStreamingHandoff c = cx_streamingHandoff c"

subsection \<open>The key-value store\<close>

definition Context_set :: "string \<Rightarrow> string \<Rightarrow> 'w Context \<Rightarrow> 'w Context" where
  "Context_set key val c = c\<lparr>cx_data := (cx_data c)(key \<mapsto> val)\<rparr>"

definition Context_get :: "string \<Rightarrow> string \<Rightarrow> 'w Context \<Rightarrow> string" where
  "Context_get key def c = (case cx_data c key of Some v \<Rightarrow> v | None \<Rightarrow> def)"

definition Context_has :: "string \<Rightarrow> 'w Context \<Rightarrow> bool" where
  "Context_has key c \<longleftrightarrow> cx_data c key \<noteq> None"

section \<open>The builder of contexts for tests\<close>

record TestContextBuilder =
  tb_req :: HttpRequest
  tb_resp :: HttpResponse

definition TestContextBuilder_ctor :: "int \<Rightarrow> HttpRequest \<Rightarrow> HttpResponse \<Rightarrow> TestContextBuilder" where
  "TestContextBuilder_ctor httpGet req resp =
     \<lparr>tb_req = req\<lparr>hr_method := httpGet, hr_path := ''/''\<rparr>, tb_resp = resp\<rparr>"

definition builder_req :: "(HttpRequest \<Rightarrow> HttpRequest) \<Rightarrow> TestContextBuilder \<Rightarrow> TestContextBuilder" where
  "builder_req f b = b\<lparr>tb_req := f (tb_req b)\<rparr>"

definition builder_method :: "hv_lib \<Rightarrow> string \<Rightarrow> TestContextBuilder \<Rightarrow> TestContextBuilder" where
  "builder_method lib m = builder_req (\<lambda>r. r\<lparr>hr_method := lib_method_enum lib m\<rparr>)"

definition builder_path :: "string \<Rightarrow> TestContextBuilder \<Rightarrow> TestContextBuilder" where
  "builder_path p = builder_req (\<lambda>r. r\<lparr>hr_path := p\<rparr>)"

definition builder_header :: "string \<Rightarrow> string \<Rightarrow> TestContextBuilder \<Rightarrow> TestContextBuilder" where
  "builder_header key val = builder_req (\<lambda>r. r\<lparr>hr_headers := hr_headers r @ [SetHeader key val]\<rparr>)"

definition builder_clientIp :: "string \<Rightarrow> TestContextBuilder \<Rightarrow> TestContextBuilder" where
  "builder_clientIp ip = builder_req (\<lambda>r. r\<lparr>hr_client_ip := ip\<rparr>)"

definition builder_body :: "string \<Rightarrow> TestContextBuilder \<Rightarrow> TestContextBuilder" where
  "builder_body b = builder_req (\<lambda>r. r\<lparr>hr_body := b\<rparr>)"

definition builder_build :: "TestContextBuilder \<Rightarrow> 'w \<Rightarrow> 'w Context" where
  "builder_build b = Context_sync (tb_req b) (tb_resp b)"

section \<open>No line break in a header\<close>

fun clean_header :: "header_call \<Rightarrow> bool" where
  "clean_header (SetHeader key val) \<longleftrightarrow> \<not> list_ex is_crlf val"
| "clean_header (EraseHeader key) \<longleftrightarrow> True"

fun clean_write :: "writer_call \<Rightarrow> bool" where
  "clean_write (WriteHeader key val) \<longleftrightarrow> \<not> list_ex is_crlf val"
| "clean_write _ \<longleftrightarrow> True"

fun clean_content :: "content_call \<Rightarrow> bool" where
  "clean_content (SetContentType ct) \<longleftrightarrow> \<not> list_ex is_crlf ct"
| "clean_content _ \<longleftrightarrow> True"

definition clean_cookie :: "HttpCookie \<Rightarrow> bool" where
  "clean_cookie ck \<longleftrightarrow> \<not> list_ex is_crlf (ck_name ck @ ck_value ck @ ck_path ck)"

definition clean_resp :: "HttpResponse \<Rightarrow> bool" where
  "clean_resp r \<longleftrightarrow> list_all clean_header (hp_headers r) \<and> list_all clean_content (hp_content r)
     \<and> list_all clean_cookie (hp_cookies r)"

definition clean_context :: "'w Context \<Rightarrow> bool" where
  "clean_context c \<longleftrightarrow> clean_resp (cx_resp c)
     \<and> (case cx_writer c of None \<Rightarrow> True | Some w \<Rightarrow> list_all clean_write (wr_calls w))"

text \<open>The operations through which a handler writes the response.\<close>

datatype ctx_op =
    OpStatus int
  | OpHeader string string
  | OpBody string
  | OpType string
  | OpTypeByFilename string
  | OpServeFile "string option"
  | OpJson int string
  | OpError int string "string option"
  | OpRemoveHeader string
  | OpCookie string string string int bool int bool
  | OpWriteStatus int
  | OpWriteHeader string string
  | OpEndHeaders int string int
  | OpWriteBody int string
  | OpEnd int
  | OpSet string string
  | OpHandoff

fun ctx_op_run :: "hv_lib \<Rightarrow> ctx_op \<Rightarrow> 'w Context \<Rightarrow> 'w Context" where
  "ctx_op_run lib (OpStatus n) = Context_setStatus n"
| "ctx_op_run lib (OpHeader k v) = Context_setHeader k v"
| "ctx_op_run lib (OpBody b) = Context_setBody b"
| "ctx_op_run lib (OpType t) = Context_setContentType t"
| "ctx_op_run lib (OpTypeByFilename f) = Context_setContentTypeByFilename f"
| "ctx_op_run lib (OpServeFile p) = Context_serveFile lib p"
| "ctx_op_run lib (OpJson n b) = Context_json n b"
| "ctx_op_run lib (OpError n k m) = Context_error n k m"
| "ctx_op_run lib (OpRemoveHeader k) = Context_removeHeader k"
| "ctx_op_run lib (OpCookie n v p a h s x) = Context_setCookie n v p a h s x"
| "ctx_op_run lib (OpWriteStatus n) = Context_writeStatus n"
| "ctx_op_run lib (OpWriteHeader k v) = Context_writeHeader k v"
| "ctx_op_run lib (OpEndHeaders r k n) = (\<lambda>c. snd (Context_endHeaders r k n c))"
| "ctx_op_run lib (OpWriteBody r b) = (\<lambda>c. snd (Context_writeBody r b c))"
| "ctx_op_run lib (OpEnd r) = (\<lambda>c. snd (Context_end r c))"
| "ctx_op_run lib (OpSet k v) = Context_set k v"
| "ctx_op_run lib OpHandoff = Context_markStreamingHandoff"

lemma strip_crlf_eq: "strip_crlf val = filter (\<lambda>ch. \<not> is_crlf ch) val"
  by (auto simp: strip_crlf_def list_ex_iff intro: filter_True [symmetric])

lemma strip_crlf_clean [simp]: "\<not> list_ex is_crlf (strip_crlf val)"
  by (simp add: strip_crlf_eq list_ex_iff)

lemma strip_crlf_id: "\<not> list_ex is_crlf val \<Longrightarrow> strip_crlf val = val"
  by (simp add: strip_crlf_def)

text \<open>\<open>setContentType\<close> and \<open>setCookie\<close> pass their text on as it is.\<close>

fun clean_args :: "ctx_op \<Rightarrow> bool" where
  "clean_args (OpType ct) \<longleftrightarrow> \<not> list_ex is_crlf ct"
| "clean_args (OpCookie name val path _ _ _ _) \<longleftrightarrow> \<not> list_ex is_crlf (name @ val @ path)"
| "clean_args _ \<longleftrightarrow> True"

lemma clean_with_resp:
  "clean_resp (f (cx_resp c)) = (clean_resp (cx_resp c) \<and> b) \<Longrightarrow> clean_context (with_resp f c) = (clean_context c \<and> b)"
  by (auto simp: clean_context_def with_resp_def)

lemma clean_write_call: "clean_write call \<Longrightarrow> clean_context (write_call call c) = clean_context c"
  by (cases "cx_writer c") (simp_all add: clean_context_def write_call_def)

lemma clean_frame [simp, frame_simps]:
  "clean_context (c\<lparr>cx_data := d\<rparr>) = clean_context c"
  "clean_context (c\<lparr>cx_streamingHandoff := b\<rparr>) = clean_context c"
  by (simp_all add: clean_context_def)

lemma json_utf8_clean [simp]: "\<not> list_ex is_crlf json_utf8"
  by (simp add: json_utf8_def is_crlf_def)

lemma clean_op:
  assumes "\<And>p r. clean_resp (lib_File lib p r) = clean_resp r"
  shows "clean_context (ctx_op_run lib op c) = (clean_context c \<and> clean_args op)"
proof (cases op)
  case (OpType ct)
  show ?thesis unfolding OpType ctx_op_run.simps Context_setContentType_def
    by (rule clean_with_resp) (auto simp: clean_resp_def)
next
  case (OpCookie name val path age http same secure)
  show ?thesis unfolding OpCookie ctx_op_run.simps Context_setCookie_def
    by (rule clean_with_resp) (auto simp: clean_resp_def clean_cookie_def)
qed (auto simp: Context_setStatus_def Context_setHeader_def Context_setBody_def
      Context_setContentTypeByFilename_def Context_serveFile_def Context_json_def Context_error_def
      Context_removeHeader_def Context_writeStatus_def Context_writeHeader_def
      Context_endHeaders_def Context_writeBody_def Context_end_def Context_set_def
      Context_markStreamingHandoff_def clean_resp_def put_header_def clean_write_call
      clean_with_resp [where b = True, simplified] assms [unfolded clean_resp_def]
      split: option.splits)

lemma clean_ops:
  assumes "\<And>p r. clean_resp (lib_File lib p r) = clean_resp r"
  shows "clean_context (foldl (\<lambda>c op. ctx_op_run lib op c) c ops) = (clean_context c \<and> list_all clean_args ops)"
  by (induction ops arbitrary: c) (auto simp: clean_op [OF assms])

text \<open>
  C10: Whatever sequence of operations handlers and middleware perform on a context, the values given to
  \<open>setHeader\<close>, \<open>writeHeader\<close>, \<open>json\<close> and \<open>error\<close> never bring a carriage return or a line feed into a header
  of the response or of the writer; \<open>setContentType\<close> and \<open>setCookie\<close> do not filter theirs, so the response is
  free of them exactly if the content types and the names, values and paths of the cookies are.  A value
  that has none is passed on unchanged.  Assumed is that serving a file by the library brings none in and
  takes none out.
\<close>

theorem Context_headers_clean:
  assumes "\<And>p r. clean_resp (lib_File lib p r) = clean_resp r" and "clean_context c"
  shows "clean_context (foldl (\<lambda>c op. ctx_op_run lib op c) c ops) = list_all clean_args ops
    \<and> strip_crlf val = filter (\<lambda>ch. \<not> is_crlf ch) val
    \<and> hp_headers (cx_resp (Context_setHeader key val c))
        = hp_headers (cx_resp c) @ [SetHeader key (filter (\<lambda>ch. \<not> is_crlf ch) val)]"
  using clean_ops [OF assms(1), of c ops] assms(2)
  by (auto simp: Context_setHeader_def with_resp_def put_header_def strip_crlf_eq)

definition demo_lib :: hv_lib where
  "demo_lib = \<lparr>lib_method_str = (\<lambda>_. ''GET''), lib_method_enum = (\<lambda>_. 1), lib_Path = hr_path,
     lib_GetParam = (\<lambda>_ _. []), lib_GetHeader = (\<lambda>_ _. []), lib_GetFormData = (\<lambda>_ _. []),
     lib_GetCookie = (\<lambda>_ _. []),
     lib_File = (\<lambda>p r. case p of None \<Rightarrow> r | Some f \<Rightarrow> r\<lparr>hp_body := f\<rparr>),
     lib_send_begin = (\<lambda>calls. calls = [])\<rparr>"

definition demo_request :: HttpRequest where
  "demo_request = \<lparr>hr_method = 1, hr_path = ''/'', hr_query_params = [], hr_headers = [], hr_body = [],
     hr_client_ip = ''10.0.0.1'', hr_client_port = 4000, hr_content_length = 0, hr_major = 1, hr_minor = 1\<rparr>"

definition demo_response :: HttpResponse where
  "demo_response = \<lparr>hp_status_code = 200, hp_headers = [], hp_content = [], hp_cookies = [], hp_body = []\<rparr>"

definition demo_writer :: writer where
  "demo_writer = \<lparr>wr_calls = [], wr_connected = True, wr_bufsize = 0\<rparr>"

lemma Context_headers_clean_witness:
  "clean_context (foldl (\<lambda>c op. ctx_op_run demo_lib op c)
       (Context_async demo_request demo_response (Some demo_writer) ())
       [OpServeFile (Some ''f''), OpHeader ''X'' [CHR ''a'', CHR 0x0D, CHR 0x0A, CHR ''b''], OpWriteHeader ''Y'' [CHR 0x0A]])
   \<and> \<not> clean_context (foldl (\<lambda>c op. ctx_op_run demo_lib op c)
       (Context_async demo_request demo_response (Some demo_writer) ())
       [OpCookie ''sid'' [CHR 0x0D, CHR 0x0A] ''/'' 0 True 1 True])"
proof -
  have lib: "clean_resp (lib_File demo_lib p r) = clean_resp r" for p r
    by (simp add: demo_lib_def clean_resp_def split: option.splits)
  have start: "clean_context (Context_async demo_request demo_response (Some demo_writer) ())"
    by (simp add: clean_context_def Context_async_def demo_response_def demo_writer_def clean_resp_def)
  note iff = Context_headers_clean [OF lib start, THEN conjunct1]
  show ?thesis unfolding iff by (simp add: is_crlf_def)
qed

section \<open>The error response\<close>

text \<open>
  A reader of JSON strings after RFC 8259 (without \<open>\u\<close> escapes, which the code never writes): the text
  up to the closing quote, unescaped, and the rest; a control character makes it fail.
\<close>

definition json_unescape :: "char \<Rightarrow> char option" where
  "json_unescape e =
     (if e = CHR 0x22 \<or> e = CHR 0x5C \<or> e = CHR ''/'' then Some e
      else if e = CHR ''b'' then Some (CHR 0x08) else if e = CHR ''f'' then Some (CHR 0x0C)
      else if e = CHR ''n'' then Some (CHR 0x0A) else if e = CHR ''r'' then Some (CHR 0x0D)
      else if e = CHR ''t'' then Some (CHR 0x09) else None)"

fun json_string :: "string \<Rightarrow> (string \<times> string) option" where
  "json_string [] = None"
| "json_string (ch # s) =
     (if ch = CHR 0x22 then Some ([], s)
      else if byte ch < 32 then None
      else if ch = CHR 0x5C
      then (case s of
              [] \<Rightarrow> None
            | e # s' \<Rightarrow> (case json_unescape e of
                           None \<Rightarrow> None
                         | Some u \<Rightarrow> map_option (\<lambda>(v, r). (u # v, r)) (json_string s')))
      else map_option (\<lambda>(v, r). (ch # v, r)) (json_string s))"

definition read_error :: "string \<Rightarrow> (string \<times> string option) option" where
  "read_error s =
     (let p = ''{\"error\":\"''; q = '',\"message\":\"''
      in if \<not> is_prefix p s then None
         else case json_string (drop (length p) s) of
                None \<Rightarrow> None
              | Some (code, r) \<Rightarrow>
                  if r = ''}'' then Some (code, None)
                  else if \<not> is_prefix q r then None
                  else case json_string (drop (length q) r) of
                         None \<Rightarrow> None
                       | Some (m, r') \<Rightarrow> if r' = ''}'' then Some (code, Some m) else None)"

definition plain_char :: "char \<Rightarrow> bool" where
  "plain_char ch \<longleftrightarrow> 32 \<le> byte ch \<and> ch \<noteq> CHR 0x22 \<and> ch \<noteq> CHR 0x5C"

definition control_char :: "char \<Rightarrow> bool" where
  "control_char ch \<longleftrightarrow> byte ch < 32"

lemma json_string_plain:
  "list_all plain_char s \<Longrightarrow> json_string (s @ CHR 0x22 # rest) = Some (s, rest)"
  by (induction s) (simp_all add: plain_char_def)

lemma json_string_escape:
  "json_string (concat (map escape_char m) @ CHR 0x22 # rest)
   = (if list_ex control_char m then None else Some (m, rest))"
proof (induction m)
  case (Cons ch m)
  have q: "\<not> byte (CHR 0x22) < 32" "\<not> byte (CHR 0x5C) < 32" by (simp_all add: byte_def)
  then show ?case using Cons.IH by (auto simp: escape_char_def json_unescape_def control_char_def)
qed simp

lemma plain_c_str: "list_all plain_char s \<Longrightarrow> c_str s = s"
  by (induction s) (auto simp: c_str_def plain_char_def byte_def)

text \<open>Text with a quote, a backslash or a control character does not read back as itself.\<close>

lemma json_string_backslashes:
  "json_string (s @ CHR 0x22 # rest) \<noteq> Some (CHR 0x5C # replicate n (CHR 0x5C) @ s, r)"
proof (induction s arbitrary: n r rule: length_induct)
  case (1 s)
  show ?case
  proof
    assume j: "json_string (s @ CHR 0x22 # rest) = Some (CHR 0x5C # replicate n (CHR 0x5C) @ s, r)"
    then obtain s' where s: "s = CHR 0x5C # s'" by (cases s) (auto split: if_splits)
    then have j': "json_string (CHR 0x5C # s' @ CHR 0x22 # rest) = Some (CHR 0x5C # replicate n (CHR 0x5C) @ s, r)"
      using j by simp
    then obtain t where t: "s' = CHR 0x5C # t"
      by (cases s') (auto simp: json_unescape_def split: if_splits)
    have "json_string (t @ CHR 0x22 # rest) = Some (replicate n (CHR 0x5C) @ s, r)"
      using j' by (auto simp: t json_unescape_def byte_def)
    moreover have "replicate n (CHR 0x5C) @ s = CHR 0x5C # replicate (Suc n) (CHR 0x5C) @ t"
      by (simp add: s t replicate_app_Cons_same)
    moreover have "length t < length s" by (simp add: s t)
    ultimately show False using "1.IH" by metis
  qed
qed

lemma json_string_exact:
  "json_string (s @ CHR 0x22 # rest) = Some (s, r) \<Longrightarrow> list_all plain_char s"
proof (induction s)
  case (Cons ch s)
  consider "ch = CHR 0x22" | "byte ch < 32" | "ch = CHR 0x5C" | "plain_char ch"
    unfolding plain_char_def by linarith
  then show ?case
  proof cases
    case 3
    have "json_string (t @ CHR 0x22 # rest) \<noteq> Some (CHR 0x5C # t, r)" for t
      using json_string_backslashes [of t rest 0 r] by simp
    then show ?thesis using Cons.prems 3
      by (cases s) (auto simp: json_unescape_def split: if_splits)
  next
    case 4
    then show ?thesis using Cons by (auto simp: plain_char_def)
  qed (use Cons.prems in \<open>auto split: if_splits\<close>)
qed simp

text \<open>
  C11: With a code that has no quote, backslash or control character, the body of \<open>error\<close> is a JSON object
  from which code and message can be read back exactly, quotes and backslashes in the message included,
  as long as the message has no control character; a message with one, which the code does not escape,
  makes the body unreadable as JSON.  The code is not escaped at all: with any other code the body never
  reads back as that code.
\<close>

theorem Context_error_body:
  "if list_all plain_char (c_str code)
   then read_error (hp_body (cx_resp (Context_error n code message c)))
      = (case map_option c_str message of
           None \<Rightarrow> Some (c_str code, None)
         | Some m \<Rightarrow> if m = [] then Some (c_str code, None)
                     else if list_ex control_char m then None else Some (c_str code, Some m))
   else (\<forall>m. read_error (hp_body (cx_resp (Context_error n code message c))) \<noteq> Some (c_str code, m))"
proof -
  let ?code = "c_str code"
  have body: "hp_body (cx_resp (Context_error n code message c)) = error_body ?code (map_option c_str message)"
    by (simp add: Context_error_def with_resp_def put_header_def)
  show ?thesis
  proof (cases "list_all plain_char ?code")
    case True
    have "read_error (error_body ?code None) = Some (?code, None)"
      "read_error (error_body ?code (Some [])) = Some (?code, None)"
      using json_string_plain [OF True, of "''}''"] by (simp_all add: read_error_def error_body_def)
    moreover have "read_error (error_body ?code (Some m))
        = (if list_ex control_char m then None else Some (?code, Some m))" if "m \<noteq> []" for m
      using that json_string_plain [OF True, of "'',\"message\":\"'' @ concat (map escape_char m) @ ''\"}''"]
        json_string_escape [of m "''}''"]
      by (simp add: read_error_def error_body_def)
    ultimately show ?thesis using True unfolding body by (cases message) simp_all
  next
    case False
    then have no: "json_string (?code @ CHR 0x22 # rest) \<noteq> Some (?code, r)" for rest r
      using json_string_exact by blast
    have "read_error (''{\"error\":\"'' @ ?code @ ''\"'' @ rest) \<noteq> Some (?code, m)" for rest m
      using no [of rest] unfolding read_error_def Let_def by (auto split: option.splits if_splits)
    from this [of "''}''"] this [of "'',\"message\":\"'' @ mm @ ''\"}''" for mm]
    have "read_error (error_body ?code msg) \<noteq> Some (?code, m)" for msg m
      by (cases msg) (simp_all add: error_body_def)
    then show ?thesis using False by (simp add: body)
  qed
qed

lemma Context_error_body_witness:
  "read_error (hp_body (cx_resp (Context_error 400 ''bad'' (Some [CHR ''a'', CHR 0x22, CHR 0x5C])
       (Context_sync demo_request demo_response ())))) = Some (''bad'', Some [CHR ''a'', CHR 0x22, CHR 0x5C])
   \<and> read_error (hp_body (cx_resp (Context_error 400 ''bad'' (Some [CHR ''a'', CHR 0x0A])
       (Context_sync demo_request demo_response ())))) = None
   \<and> read_error (hp_body (cx_resp (Context_error 400 [CHR 0x22] None
       (Context_sync demo_request demo_response ())))) \<noteq> Some ([CHR 0x22], None)"
proof -
  have "list_all plain_char (c_str ''bad'')" "c_str ''bad'' = ''bad''" "\<not> list_all plain_char (c_str [CHR 0x22])"
    "c_str [CHR 0x22] = [CHR 0x22]"
    by (simp_all add: plain_char_def byte_def c_str_def)
  then show ?thesis
    using Context_error_body [of "''bad''" 400 "Some [CHR ''a'', CHR 0x22, CHR 0x5C]" "Context_sync demo_request demo_response ()"]
      Context_error_body [of "''bad''" 400 "Some [CHR ''a'', CHR 0x0A]" "Context_sync demo_request demo_response ()"]
      Context_error_body [of "[CHR 0x22]" 400 None "Context_sync demo_request demo_response ()"]
    by (simp add: c_str_def control_char_def byte_def)
qed

section \<open>Serving a file\<close>

lemma has_dotdot_iff: "has_dotdot s \<longleftrightarrow> find_sub ''..'' s \<noteq> None"
  by (induction s rule: has_dotdot.induct) auto

lemma Context_serveFile_guard:
  "(if find_sub ''..'' (c_str p) \<noteq> None
    then cx_resp (Context_serveFile lib (Some p) c)
           = (cx_resp c)\<lparr>hp_status_code := 403, hp_body := ''{\"error\":\"Forbidden\"}''\<rparr>
    else cx_resp (Context_serveFile lib (Some p) c) = lib_File lib (Some (c_str p)) (cx_resp c))"
  using has_dotdot_iff [of "c_str p"] by (simp add: Context_serveFile_def with_resp_def)

lemma Context_get_set [simp]:
  "Context_get key def (Context_set key' val c) = (if key = key' then val else Context_get key def c)"
  "Context_has key (Context_set key' val c) = (key = key' \<or> Context_has key c)"
  by (simp_all add: Context_get_def Context_set_def Context_has_def)

end
