(* ===== verification/Middleware.thy ===== *)
theory Middleware imports Prelude begin

text \<open>
  The middleware chain (\<open>src/src/Middleware.cpp\<close>).  A handler acts on the context \<open>'c\<close> and returns a
  number or leaves by an exception; what it did to the context stays in both cases.  A middleware gets
  the context and the continuation \<open>next\<close>, which it may call any number of times.
\<close>

datatype exn = StdException string | OtherException

type_synonym ('c, 'a) act = "'c \<Rightarrow> (exn + 'a) \<times> 'c"
type_synonym 'c middleware_fn = "('c, int) act \<Rightarrow> ('c, int) act"

definition act_return :: "'a \<Rightarrow> ('c, 'a) act" where
  "act_return x = (\<lambda>c. (Inr x, c))"

definition act_bind :: "('c, 'a) act \<Rightarrow> ('a \<Rightarrow> ('c, 'b) act) \<Rightarrow> ('c, 'b) act" where
  "act_bind f g = (\<lambda>c. case f c of (Inl e, c1) \<Rightarrow> (Inl e, c1) | (Inr x, c1) \<Rightarrow> g x c1)"

record 'c Entry =
  en_name :: string
  en_fn :: "'c middleware_fn"

type_synonym 'c MiddlewareChain = "'c Entry list"

definition chain_use :: "string \<Rightarrow> 'c middleware_fn \<Rightarrow> 'c MiddlewareChain \<Rightarrow> 'c MiddlewareChain" where
  "chain_use name fn chain = chain @ [\<lparr>en_name = name, en_fn = fn\<rparr>]"

definition chain_size :: "'c MiddlewareChain \<Rightarrow> nat" where
  "chain_size chain = length chain"

definition chain_clear :: "'c MiddlewareChain \<Rightarrow> 'c MiddlewareChain" where
  "chain_clear chain = []"

function chain_run :: "'c MiddlewareChain \<Rightarrow> nat \<Rightarrow> ('c, int) act \<Rightarrow> ('c, int) act" where
  "chain_run chain idx finalHandler =
     (if length chain \<le> idx then finalHandler
      else en_fn (chain ! idx) (chain_run chain (idx + 1) finalHandler))"
  by pat_completeness auto

termination by (relation "measure (\<lambda>(chain, idx, _). length chain - idx)") auto

declare chain_run.simps [simp del]

definition chain_execute :: "'c MiddlewareChain \<Rightarrow> ('c, int) act \<Rightarrow> ('c, int) act" where
  "chain_execute chain finalHandler = chain_run chain 0 finalHandler"

section \<open>The onion\<close>

lemma chain_run_drop:
  "chain_run chain idx k = foldr (\<lambda>e next. en_fn e next) (drop idx chain) k"
proof (induction chain idx k rule: chain_run.induct)
  case (1 chain idx k)
  show ?case
  proof (cases "length chain \<le> idx")
    case True
    then show ?thesis by (simp add: chain_run.simps)
  next
    case False
    then have "drop idx chain = chain ! idx # drop (idx + 1) chain"
      by (simp add: Cons_nth_drop_Suc)
    then show ?thesis using False 1 by (subst chain_run.simps) simp
  qed
qed

lemma chain_execute_foldr: "chain_execute chain k = foldr (\<lambda>e next. en_fn e next) chain k"
  by (simp add: chain_execute_def chain_run_drop)

lemma chain_execute_Nil [simp]: "chain_execute [] k = k"
  by (simp add: chain_execute_foldr)

lemma chain_execute_Cons [simp]: "chain_execute (e # es) k = en_fn e (chain_execute es k)"
  by (simp add: chain_execute_foldr)

lemma chain_execute_append: "chain_execute (es @ fs) k = chain_execute es (chain_execute fs k)"
  by (simp add: chain_execute_foldr)

text \<open>
  A middleware of the usual shape: \<open>before\<close>, then \<open>next\<close>, then \<open>after\<close> with the result of \<open>next\<close>.
\<close>

definition around :: "('c, unit) act \<Rightarrow> (int \<Rightarrow> ('c, int) act) \<Rightarrow> 'c middleware_fn" where
  "around before after = (\<lambda>next. act_bind before (\<lambda>_. act_bind next after))"

definition tracing :: "'n \<Rightarrow> ('n + 'n) list middleware_fn" where
  "tracing n = around (\<lambda>t. (Inr (), t @ [Inl n])) (\<lambda>r t. (Inr r, t @ [Inr n]))"

definition stops :: "'c middleware_fn \<Rightarrow> bool" where
  "stops m \<longleftrightarrow> (\<forall>k k'. m k = m k')"

lemma tracing_apply:
  "tracing n k t = (case k (t @ [Inl n]) of (Inl e, t1) \<Rightarrow> (Inl e, t1) | (Inr r, t1) \<Rightarrow> (Inr r, t1 @ [Inr n]))"
  by (simp add: tracing_def around_def act_bind_def)

lemma tracing_chain:
  assumes "\<And>t. k t = (Inr r, t @ u)"
  shows "chain_execute (map (\<lambda>n. \<lparr>en_name = f n, en_fn = tracing n\<rparr>) ns) k t
    = (Inr r, t @ map Inl ns @ u @ map Inr (rev ns))"
proof (induction ns arbitrary: t)
  case Nil
  then show ?case by (simp add: assms)
next
  case (Cons n ns)
  have "chain_execute (map (\<lambda>n. \<lparr>en_name = f n, en_fn = tracing n\<rparr>) (n # ns)) k t
      = tracing n (chain_execute (map (\<lambda>n. \<lparr>en_name = f n, en_fn = tracing n\<rparr>) ns) k) t"
    by simp
  then show ?case unfolding tracing_apply Cons.IH by simp
qed

text \<open>
  C12: \<open>execute\<close> runs the middleware as an onion: registering one more middleware wraps the handler of the
  chain so far from inside, the parts before \<open>next\<close> run in the order of registration and the parts after
  it in the reverse order around the handler, and the result of the handler is passed outwards.
\<close>

theorem Middleware_onion:
  "chain_execute (chain_use name m chain) h = chain_execute chain (m h)
   \<and> chain_execute (chain_clear chain) h = h
   \<and> chain_execute (map (\<lambda>n. \<lparr>en_name = f n, en_fn = tracing n\<rparr>) ns) (\<lambda>t. (Inr r, t @ [x])) t
       = (Inr r, t @ map Inl ns @ [x] @ map Inr (rev ns))"
  by (simp add: chain_use_def chain_execute_append chain_clear_def
      tracing_chain [of "\<lambda>t. (Inr r, t @ [x])" r "[x]"])

text \<open>
  A middleware that does not call \<open>next\<close> ends the chain: neither the middleware registered after it
  nor the handler has any influence on the result or on the context.
\<close>

theorem Middleware_stops:
  assumes "stops (en_fn e)"
  shows "chain_execute (es @ e # fs) h = chain_execute (es @ e # fs') h'"
proof -
  have "en_fn e (chain_execute fs h) = en_fn e (chain_execute fs' h')"
    using assms unfolding stops_def by blast
  then show ?thesis by (simp add: chain_execute_append)
qed

definition deny :: "nat middleware_fn" where
  "deny = (\<lambda>next c. (Inr 403, c + 1))"

lemma Middleware_stops_witness:
  "chain_execute [\<lparr>en_name = ''auth'', en_fn = deny\<rparr>, \<lparr>en_name = ''log'', en_fn = \<lambda>next c. next (c + 10)\<rparr>]
     (\<lambda>c. (Inr 200, c + 100)) 0 = (Inr 403, 1)"
proof -
  have "stops (en_fn \<lparr>en_name = ''auth'', en_fn = deny\<rparr>)" by (simp add: stops_def deny_def)
  from Middleware_stops [OF this, of "[]" "[\<lparr>en_name = ''log'', en_fn = \<lambda>next c. next (c + 10)\<rparr>]"
      "\<lambda>c. (Inr 200, c + 100)" "[]" "\<lambda>c. (Inr 0, c)"]
  show ?thesis by (simp add: deny_def)
qed

end
