(* ===== verification/RequestBody.thy ===== *)
theory RequestBody imports Context Middleware begin

text \<open>
  Streamed request bodies (\<open>makeBodyHandler\<close> in \<open>src/src/Router.cpp\<close>).  The library calls the handler
  once per parser event.  Between the events the receiver of the body lives in a \<open>BodyState\<close>, which the
  closure \<open>onclose\<close> of the connection's writer owns and the handler's map finds by a weak pointer.

  \<open>bs_values\<close> is that map, from connections to the identity of a \<open>BodyState\<close>; \<open>bs_onclose\<close> tells which
  state the closure of a connection's writer owns; \<open>bs_receiver\<close> is the member \<open>receiver\<close> of a state.  The
  only closure that owns a state is that of its own connection, so an entry of the map has expired iff
  that closure does not own it.  \<open>rv_discard\<close> is the destructor of a receiver (the handler is taken to be
  its only owner).
\<close>

section \<open>The handler\<close>

record 'w RequestBodyReceiver =
  rv_write :: "string \<Rightarrow> ('w Context, unit) act"
  rv_complete :: "('w Context, unit) act"
  rv_discard :: "'w \<Rightarrow> 'w"

type_synonym 'w RequestBodyFactory = "('w Context, 'w RequestBodyReceiver option) act"

datatype http_parser_state =
    HP_HEADERS_COMPLETE
  | HP_BODY string
  | HP_MESSAGE_COMPLETE
  | HP_ERROR
  | HP_OTHER

record 'w BodyStates =
  bs_values :: "nat \<Rightarrow> nat option"
  bs_onclose :: "nat \<Rightarrow> nat option"
  bs_receiver :: "nat \<Rightarrow> 'w RequestBodyReceiver option"
  bs_next :: nat

definition BodyStates_empty :: "'w BodyStates" where
  "BodyStates_empty = \<lparr>bs_values = Map.empty, bs_onclose = Map.empty, bs_receiver = Map.empty, bs_next = 0\<rparr>"

definition on_world :: "('w \<Rightarrow> 'w) \<Rightarrow> 'w Context \<Rightarrow> 'w Context" where
  "on_world f c = c\<lparr>cx_world := f (cx_world c)\<rparr>"

definition discard :: "'w RequestBodyReceiver option \<Rightarrow> 'w Context \<Rightarrow> 'w Context" where
  "discard r = (case r of None \<Rightarrow> id | Some r \<Rightarrow> on_world (rv_discard r))"

text \<open>\<open>state->receiver.reset()\<close>, and the end of a \<open>BodyState\<close> that no closure owns.\<close>

definition receiver_reset :: "nat \<Rightarrow> 'w Context \<times> 'w BodyStates \<Rightarrow> 'w Context \<times> 'w BodyStates" where
  "receiver_reset sid = (\<lambda>(c, s).
     (discard (bs_receiver s sid) c, s\<lparr>bs_receiver := (bs_receiver s)(sid := None)\<rparr>))"

definition state_release :: "nat \<Rightarrow> nat option \<Rightarrow> 'w Context \<times> 'w BodyStates \<Rightarrow> 'w Context \<times> 'w BodyStates" where
  "state_release i state cs =
     (case state of
        None \<Rightarrow> cs
      | Some sid \<Rightarrow> if bs_onclose (snd cs) i = Some sid then cs else receiver_reset sid cs)"

text \<open>
  \<open>if (httpCtx->writer) httpCtx->writer->onclose = nullptr\<close>.  A connection without a writer has no closure
  in \<open>bs_onclose\<close>, so the assignment needs no test here.
\<close>

definition drop_onclose :: "nat \<Rightarrow> 'w Context \<times> 'w BodyStates \<Rightarrow> 'w Context \<times> 'w BodyStates" where
  "drop_onclose i = (\<lambda>(c, s). (c, s\<lparr>bs_onclose := (bs_onclose s)(i := None)\<rparr>))"

text \<open>The two \<open>catch\<close> clauses, and the code after them.\<close>

definition stream_error :: "exn \<Rightarrow> 'w Context \<Rightarrow> 'w Context" where
  "stream_error e =
     (case e of
        StdException what \<Rightarrow> Context_error 400 ''request_stream_error'' (Some what)
      | OtherException \<Rightarrow> Context_error 500 ''request_stream_error'' None)"

definition reject_close :: "'w Context \<Rightarrow> 'w Context" where
  "reject_close c =
     (if Context_hasWriter c then snd (Context_end 0 (Context_setHeader ''Connection'' ''close'' c)) else c)"

definition body_reject :: "nat \<Rightarrow> nat option \<Rightarrow> 'w Context \<times> 'w BodyStates \<Rightarrow> 'w Context \<times> 'w BodyStates" where
  "body_reject i state cs =
     (let (c1, s1) = drop_onclose i (case state of None \<Rightarrow> cs | Some sid \<Rightarrow> receiver_reset sid cs)
      in (reject_close c1, s1))"

definition purge_expired :: "'w BodyStates \<Rightarrow> 'w BodyStates" where
  "purge_expired s =
     s\<lparr>bs_values := (\<lambda>k. case bs_values s k of None \<Rightarrow> None
                                  | Some sid \<Rightarrow> if bs_onclose s k = Some sid then Some sid else None)\<rparr>"

definition body_headers ::
  "hv_lib \<Rightarrow> 'w RequestBodyFactory \<Rightarrow> nat \<Rightarrow> nat option \<Rightarrow> 'w Context \<Rightarrow> 'w BodyStates \<Rightarrow>
   int \<times> 'w Context \<times> 'w BodyStates" where
  "body_headers lib factory i old c s =
     (let sid = bs_next s;
          s1 = s\<lparr>bs_next := sid + 1, bs_receiver := (bs_receiver s)(sid := None)\<rparr>;
          reject = (\<lambda>c s. let (c', s') = state_release i old (body_reject i (Some sid) (c, s))
                           in (Context_status c', c', s'))
      in case factory c of
           (Inl e, c1) \<Rightarrow> reject (stream_error e c1) s1
         | (Inr None, c1) \<Rightarrow>
             reject (if Context_status c1 < 400 then Context_error 500 ''stream_receiver_unavailable'' None c1
                     else c1) s1
         | (Inr (Some r), c1) \<Rightarrow>
             (let s2 = s1\<lparr>bs_receiver := (bs_receiver s1)(sid := Some r)\<rparr>
              in if Context_hasWriter c1
                 then
                   (let s3 = s2\<lparr>bs_onclose := (bs_onclose s2)(i := Some sid),
                                bs_values := (bs_values s2)(i := Some sid)\<rparr>;
                        c2 = (if Context_header lib ''Expect'' c1 = ''100-continue''
                              then write_call (WriteRaw (''HTTP/1.1 100 Continue'' @
                                [CHR 0x0D, CHR 0x0A, CHR 0x0D, CHR 0x0A])) c1
                              else c1);
                        (c3, s4) = state_release i old (c2, s3)
                    in (0, c3, s4))
                 else reject (stream_error (StdException ''request stream has no writer'') c1) s2))"

definition body_data ::
  "string \<Rightarrow> nat \<Rightarrow> nat option \<Rightarrow> 'w Context \<Rightarrow> 'w BodyStates \<Rightarrow> int \<times> 'w Context \<times> 'w BodyStates" where
  "body_data chunk i state c s =
     (case Option.bind state (bs_receiver s) of
        None \<Rightarrow> (0, c, s)
      | Some r \<Rightarrow>
          (case rv_write r chunk c of
             (Inr _, c1) \<Rightarrow> (0, c1, s)
           | (Inl e, c1) \<Rightarrow>
               (let (c2, s2) = body_reject i state (stream_error e c1, s)
                in (Context_status c2, c2, s2))))"

definition body_complete ::
  "'w Context MiddlewareChain \<Rightarrow> nat \<Rightarrow> nat option \<Rightarrow> 'w Context \<Rightarrow> 'w BodyStates \<Rightarrow>
   int \<times> 'w Context \<times> 'w BodyStates" where
  "body_complete chain i state c s =
     (let reject = (\<lambda>e c. let (c', s') = state_release i state (body_reject i state (stream_error e c, s))
                           in (Context_status c', c', s'))
      in case Option.bind state (bs_receiver s) of
           None \<Rightarrow> reject (StdException ''request stream is unavailable'') c
         | Some r \<Rightarrow>
             (case chain_execute chain (act_bind (rv_complete r) (\<lambda>_ c. (Inr (Context_status c), c))) c of
                (Inr _, c1) \<Rightarrow>
                  (let (c2, s2) = state_release i state (drop_onclose i (c1, s))
                   in (Context_status c1, c2, s2))
              | (Inl e, c1) \<Rightarrow> reject e c1))"

definition makeBodyHandler ::
  "hv_lib \<Rightarrow> 'w RequestBodyFactory \<Rightarrow> 'w Context MiddlewareChain \<Rightarrow> nat \<Rightarrow> http_parser_state \<Rightarrow>
   'w Context \<Rightarrow> 'w BodyStates \<Rightarrow> int \<times> 'w Context \<times> 'w BodyStates" where
  "makeBodyHandler lib factory chain i event c s =
     (let s1 = purge_expired s;
          state = bs_values s1 i;
          s2 = (if event = HP_ERROR \<or> event = HP_MESSAGE_COMPLETE
                then s1\<lparr>bs_values := (bs_values s1)(i := None)\<rparr> else s1)
      in case event of
           HP_ERROR \<Rightarrow>
             (let (c', s') = state_release i state (drop_onclose i (c, s2)) in (0, c', s'))
         | HP_HEADERS_COMPLETE \<Rightarrow> body_headers lib factory i state c s2
         | HP_BODY chunk \<Rightarrow> body_data chunk i state c s2
         | HP_MESSAGE_COMPLETE \<Rightarrow> body_complete chain i state c s2
         | HP_OTHER \<Rightarrow> (0, c, s2))"

text \<open>The library closes the connection: it calls the closure, and destroys it with the writer.\<close>

definition connection_closed :: "nat \<Rightarrow> 'w Context \<Rightarrow> 'w BodyStates \<Rightarrow> 'w Context \<times> 'w BodyStates" where
  "connection_closed i c s =
     (case bs_onclose s i of
        None \<Rightarrow> (c, s)
      | Some sid \<Rightarrow>
          (let (c', s') = receiver_reset sid (c, s) in (c', s'\<lparr>bs_onclose := (bs_onclose s')(i := None)\<rparr>)))"

section \<open>The contract\<close>

text \<open>What the handler promises: every connection has at most one live receiver.\<close>

type_synonym 'w streams = "nat \<Rightarrow> 'w RequestBodyReceiver option"

definition stream_failed :: "nat \<Rightarrow> 'w RequestBodyReceiver option \<Rightarrow> exn \<Rightarrow> 'w Context \<Rightarrow> 'w streams \<Rightarrow>
    int \<times> 'w Context \<times> 'w streams" where
  "stream_failed i r e c m =
     (let c' = reject_close (discard r (stream_error e c)) in (Context_status c', c', m(i := None)))"

definition stream_spec ::
  "hv_lib \<Rightarrow> 'w RequestBodyFactory \<Rightarrow> 'w Context MiddlewareChain \<Rightarrow> nat \<Rightarrow> http_parser_state \<Rightarrow>
   'w Context \<Rightarrow> 'w streams \<Rightarrow> int \<times> 'w Context \<times> 'w streams" where
  "stream_spec lib factory chain i event c m =
     (case event of
        HP_OTHER \<Rightarrow> (0, c, m)
      | HP_ERROR \<Rightarrow> (0, discard (m i) c, m(i := None))
      | HP_BODY chunk \<Rightarrow>
          (case m i of
             None \<Rightarrow> (0, c, m)
           | Some r \<Rightarrow>
               (case rv_write r chunk c of
                  (Inr _, c1) \<Rightarrow> (0, c1, m)
                | (Inl e, c1) \<Rightarrow> stream_failed i (Some r) e c1 m))
      | HP_MESSAGE_COMPLETE \<Rightarrow>
          (case m i of
             None \<Rightarrow> stream_failed i None (StdException ''request stream is unavailable'') c m
           | Some r \<Rightarrow>
               (case chain_execute chain (act_bind (rv_complete r) (\<lambda>_ c. (Inr (Context_status c), c))) c of
                  (Inr _, c1) \<Rightarrow> (Context_status c1, discard (Some r) c1, m(i := None))
                | (Inl e, c1) \<Rightarrow> stream_failed i (Some r) e c1 m))
      | HP_HEADERS_COMPLETE \<Rightarrow>
          (case factory c of
             (Inr (Some r), c1) \<Rightarrow>
               if Context_hasWriter c1
               then (0, discard (m i)
                          (if Context_header lib ''Expect'' c1 = ''100-continue''
                           then write_call (WriteRaw (''HTTP/1.1 100 Continue'' @
                             [CHR 0x0D, CHR 0x0A, CHR 0x0D, CHR 0x0A])) c1
                           else c1), m(i := Some r))
               else (let c' = discard (m i) (reject_close (discard (Some r)
                               (stream_error (StdException ''request stream has no writer'') c1)))
                     in (Context_status c', c', m(i := None)))
           | (Inr None, c1) \<Rightarrow>
               (let c' = discard (m i) (reject_close
                           (if Context_status c1 < 400 then Context_error 500 ''stream_receiver_unavailable'' None c1
                            else c1))
                in (Context_status c', c', m(i := None)))
           | (Inl e, c1) \<Rightarrow>
               (let c' = discard (m i) (reject_close (stream_error e c1))
                in (Context_status c', c', m(i := None)))))"

section \<open>The handler refines the contract\<close>

definition live :: "'w BodyStates \<Rightarrow> 'w streams" where
  "live s = (\<lambda>i. case bs_onclose s i of None \<Rightarrow> None | Some sid \<Rightarrow> bs_receiver s sid)"

definition body_inv :: "'w BodyStates \<Rightarrow> bool" where
  "body_inv s \<longleftrightarrow>
     (\<forall>k sid. bs_onclose s k = Some sid \<longrightarrow> bs_values s k = Some sid \<and> sid < bs_next s)
     \<and> (\<forall>k k' sid. bs_onclose s k = Some sid \<longrightarrow> bs_onclose s k' = Some sid \<longrightarrow> k = k')
     \<and> (\<forall>sid. bs_receiver s sid = None \<or> (\<exists>k. bs_onclose s k = Some sid))"

lemma body_inv_empty [simp]: "body_inv BodyStates_empty"
  by (simp add: body_inv_def BodyStates_empty_def)

lemma live_empty [simp]: "live BodyStates_empty = Map.empty"
  by (simp add: live_def BodyStates_empty_def)

lemma purged_value:
  assumes "body_inv s"
  shows "bs_values (purge_expired s) i = bs_onclose s i"
proof (cases "bs_onclose s i")
  case None
  then show ?thesis by (simp add: purge_expired_def split: option.splits)
next
  case (Some sid)
  then have "bs_values s i = Some sid" using assms unfolding body_inv_def by blast
  then show ?thesis using Some by (simp add: purge_expired_def)
qed

lemma purge_expired_frame [simp, frame_simps]:
  "bs_onclose (purge_expired s) = bs_onclose s" "bs_receiver (purge_expired s) = bs_receiver s"
  "bs_next (purge_expired s) = bs_next s"
  by (simp_all add: purge_expired_def)

lemma purge_inv: "body_inv s \<Longrightarrow> body_inv (purge_expired s)"
  using purged_value [of s] by (simp add: body_inv_def)

lemma live_purge [simp]: "live (purge_expired s) = live s"
  by (rule ext) (simp add: live_def split: option.splits)

text \<open>The end of the stream of connection \<open>i\<close>: its closure is gone and its receiver destroyed.\<close>

definition stream_ended :: "nat \<Rightarrow> 'w BodyStates \<Rightarrow> 'w BodyStates \<Rightarrow> bool" where
  "stream_ended i s s' \<longleftrightarrow> bs_onclose s' = (bs_onclose s)(i := None)
     \<and> bs_receiver s' = (case bs_onclose s i of None \<Rightarrow> bs_receiver s | Some sid \<Rightarrow> (bs_receiver s)(sid := None))
     \<and> bs_next s \<le> bs_next s' \<and> (\<forall>k. k = i \<or> bs_values s' k = bs_values s k)"

lemma stream_ended_inv:
  assumes "body_inv s" and "stream_ended i s s'"
  shows "body_inv s' \<and> live s' = (live s)(i := None)"
proof
  have onc: "bs_onclose s' = (bs_onclose s)(i := None)" and nxt: "bs_next s \<le> bs_next s'"
    and val: "\<And>k. k \<noteq> i \<Longrightarrow> bs_values s' k = bs_values s k"
    and rcv: "bs_receiver s' = (case bs_onclose s i of None \<Rightarrow> bs_receiver s | Some sid \<Rightarrow> (bs_receiver s)(sid := None))"
    using assms(2) unfolding stream_ended_def by blast+
  have own: "\<And>k sid. bs_onclose s k = Some sid \<Longrightarrow> bs_values s k = Some sid \<and> sid < bs_next s"
    and inj: "\<And>k k' sid. bs_onclose s k = Some sid \<Longrightarrow> bs_onclose s k' = Some sid \<Longrightarrow> k = k'"
    and leak: "\<And>sid. bs_receiver s sid = None \<or> (\<exists>k. bs_onclose s k = Some sid)"
    using assms(1) unfolding body_inv_def by blast+
  have keep: "bs_receiver s' sid = bs_receiver s sid" if "bs_onclose s k = Some sid" "k \<noteq> i" for k sid
    using that inj [of k sid i] by (auto simp: rcv split: option.splits)
  show "live s' = (live s)(i := None)"
    by (rule ext) (auto simp: live_def onc keep split: option.splits)
  show "body_inv s'"
    unfolding body_inv_def
  proof (intro conjI allI)
    fix sid
    show "bs_receiver s' sid = None \<or> (\<exists>k. bs_onclose s' k = Some sid)"
    proof (cases "bs_receiver s sid")
      case None
      then show ?thesis by (simp add: rcv split: option.splits)
    next
      case Some
      then obtain k where k: "bs_onclose s k = Some sid" using leak [of sid] by auto
      then show ?thesis by (cases "k = i") (auto simp: rcv onc)
    qed
  next
    fix k sid
    show "bs_onclose s' k = Some sid \<longrightarrow> bs_values s' k = Some sid \<and> sid < bs_next s'"
      using own [of k sid] val [of k] nxt by (cases "k = i") (auto simp: onc)
  qed (use inj in \<open>auto simp: onc split: if_splits\<close>)
qed

text \<open>The ways a stream ends: the closure is dropped, or the request rejected, and its state released.\<close>

lemma discard_world [simp, frame_simps]:
  "Context_hasWriter (discard r c) = Context_hasWriter c" "cx_resp (discard r c) = cx_resp c"
  "Context_status (discard r c) = Context_status c"
  by (simp_all add: discard_def on_world_def Context_hasWriter_def Context_status_def split: option.splits)

lemma discard_None [simp]: "discard None c = c"
  by (simp add: discard_def)

lemma reject_close_discard: "reject_close (discard r c) = discard r (reject_close c)"
  by (cases r) (simp_all add: reject_close_def discard_def on_world_def Context_hasWriter_def Context_end_def
      Context_setHeader_def with_resp_def write_call_def)

lemma release_current:
  assumes "bs_onclose s i = state" and "bs_values s' = (bs_values s)(i := v)"
    and "bs_onclose s' = (bs_onclose s)(i := None)" and "bs_receiver s' = bs_receiver s" and "bs_next s \<le> bs_next s'"
  shows "\<exists>s''. state_release i state (c, s') = (discard (live s i) c, s'') \<and> stream_ended i s s''"
  using assms
  by (auto simp: state_release_def receiver_reset_def stream_ended_def live_def split: option.splits)

lemma reject_current:
  assumes "bs_onclose s i = state" and "bs_values s' = (bs_values s)(i := v)"
    and "bs_onclose s' = bs_onclose s" and "bs_receiver s' = bs_receiver s" and "bs_next s \<le> bs_next s'"
  shows "\<exists>s''. body_reject i state (c, s') = (reject_close (discard (live s i) c), s'') \<and> stream_ended i s s''"
  using assms
  by (auto simp: body_reject_def receiver_reset_def drop_onclose_def stream_ended_def live_def split: option.splits)

lemma reject_fresh:
  assumes "body_inv s" and "bs_onclose s i = old" and "bs_values s' = bs_values s"
    and "bs_onclose s' = bs_onclose s" and "bs_receiver s' = (bs_receiver s)(bs_next s := r)"
    and "bs_next s' = bs_next s + 1"
  shows "\<exists>s''. state_release i old (body_reject i (Some (bs_next s)) (c, s'))
      = (discard (live s i) (reject_close (discard r c)), s'') \<and> stream_ended i s s''"
proof -
  have fresh: "bs_onclose s k \<noteq> Some (bs_next s)" for k
    using assms(1) unfolding body_inv_def by force
  then have "bs_receiver s (bs_next s) = None" using assms(1) unfolding body_inv_def by blast
  then have "(bs_receiver s)(bs_next s := None) = bs_receiver s" by auto
  moreover have "old \<noteq> Some (bs_next s)" using fresh [of i] assms(2) by simp
  ultimately show ?thesis using assms(2-)
    by (auto simp: body_reject_def receiver_reset_def drop_onclose_def stream_ended_def live_def state_release_def
        fun_upd_twist split: option.splits)
qed

lemma accept_fresh:
  assumes "body_inv s" and "bs_onclose s i = old" and "bs_values s' = (bs_values s)(i := Some (bs_next s))"
    and "bs_onclose s' = (bs_onclose s)(i := Some (bs_next s))"
    and "bs_receiver s' = (bs_receiver s)(bs_next s := Some r)" and "bs_next s' = bs_next s + 1"
  shows "\<exists>s''. state_release i old (c, s') = (discard (live s i) c, s'') \<and> body_inv s''
      \<and> live s'' = (live s)(i := Some r)"
proof -
  have own: "\<And>k sid. bs_onclose s k = Some sid \<Longrightarrow> bs_values s k = Some sid \<and> sid < bs_next s"
    and inj: "\<And>k k' sid. bs_onclose s k = Some sid \<Longrightarrow> bs_onclose s k' = Some sid \<Longrightarrow> k = k'"
    and leak: "\<And>sid. bs_receiver s sid = None \<or> (\<exists>k. bs_onclose s k = Some sid)"
    using assms(1) unfolding body_inv_def by blast+
  have fresh: "bs_onclose s k \<noteq> Some (bs_next s)" for k using own [of k "bs_next s"] by auto
  let ?rcv = "(case old of None \<Rightarrow> bs_receiver s' | Some sid \<Rightarrow> (bs_receiver s')(sid := None))"
  have old: "old \<noteq> Some (bs_next s)" using fresh [of i] assms(2) by simp
  have keep: "?rcv sid = bs_receiver s sid" if "bs_onclose s k = Some sid" "k \<noteq> i" for k sid
    using that inj [of k sid i] own [OF that(1)] by (auto simp: assms split: option.splits)
  obtain s'' where s'': "state_release i old (c, s') = (discard (live s i) c, s'')"
    "bs_values s'' = bs_values s'" "bs_onclose s'' = bs_onclose s'" "bs_receiver s'' = ?rcv" "bs_next s'' = bs_next s'"
  proof (cases old)
    case None
    then show ?thesis using assms(2) that [of s'] by (simp add: state_release_def live_def)
  next
    case (Some sid)
    then have "sid \<noteq> bs_next s" using old by simp
    then show ?thesis
      using Some assms(2) that [of "s'\<lparr>bs_receiver := (bs_receiver s')(sid := None)\<rparr>"]
      by (simp add: state_release_def receiver_reset_def live_def assms(4,5))
  qed
  have "live s'' = (live s)(i := Some r)"
    using old keep by (intro ext) (auto simp: live_def s'' assms(4,5) split: option.splits)
  moreover have "body_inv s''"
    unfolding body_inv_def
  proof (intro conjI allI)
    fix sid
    show "bs_receiver s'' sid = None \<or> (\<exists>k. bs_onclose s'' k = Some sid)"
    proof (cases "bs_receiver s'' sid = None \<or> sid = bs_next s")
      case True
      then show ?thesis by (auto simp: s'' assms(4))
    next
      case False
      then have "bs_receiver s sid \<noteq> None" "old \<noteq> Some sid"
        by (auto simp: s'' assms(5) split: option.splits if_splits)
      then obtain k where k: "bs_onclose s k = Some sid" "k \<noteq> i" using leak [of sid] assms(2) by auto
      then show ?thesis by (auto simp: s'' assms(4))
    qed
  next
    fix k sid
    show "bs_onclose s'' k = Some sid \<longrightarrow> bs_values s'' k = Some sid \<and> sid < bs_next s''"
      using own [of k sid] by (auto simp: s'' assms(3,4,6))
  next
    fix k k' sid
    show "bs_onclose s'' k = Some sid \<longrightarrow> bs_onclose s'' k' = Some sid \<longrightarrow> k = k'"
      using inj [of k sid k'] fresh by (auto simp: s'' assms(4))
  qed
  ultimately show ?thesis using s''(1) by blast
qed

lemma release_ended:
  assumes "stream_ended i s s'" and "bs_onclose s i = state"
  shows "state_release i state (c, s') = (c, s')"
proof (cases state)
  case (Some sid)
  then have "bs_receiver s' sid = None" using assms by (simp add: stream_ended_def)
  then have "s'\<lparr>bs_receiver := (bs_receiver s')(sid := None)\<rparr> = s'" by (simp add: fun_upd_idem)
  then show ?thesis using Some \<open>bs_receiver s' sid = None\<close>
    by (simp add: state_release_def receiver_reset_def)
qed (simp add: state_release_def)

definition refines_to ::
  "int \<times> 'w Context \<times> 'w BodyStates \<Rightarrow> int \<times> 'w Context \<times> 'w streams \<Rightarrow> bool" where
  "refines_to x y = (case x of (ret, c, s) \<Rightarrow> y = (ret, c, live s) \<and> body_inv s)"

lemma live_onclose: "live s i = Option.bind (bs_onclose s i) (bs_receiver s)"
  by (simp add: live_def split: Option.bind_split option.splits)

lemma refines_data:
  assumes "body_inv s" and "bs_onclose s i = state"
  shows "refines_to (body_data chunk i state c s) (stream_spec lib factory chain i (HP_BODY chunk) c (live s))"
proof (cases "live s i")
  case None
  then show ?thesis using assms live_onclose [of s i] by (simp add: body_data_def stream_spec_def refines_to_def)
next
  case (Some r)
  then have b: "Option.bind state (bs_receiver s) = Some r" using assms(2) live_onclose [of s i] by simp
  show ?thesis
  proof (cases "rv_write r chunk c")
    case (Pair x c1)
    show ?thesis
    proof (cases x)
      case (Inl e)
      obtain s'' where "body_reject i state (stream_error e c1, s)
          = (reject_close (discard (live s i) (stream_error e c1)), s'')" and ended: "stream_ended i s s''"
        using reject_current [of s i state s "bs_values s i" "stream_error e c1"] assms(2) by auto
      then show ?thesis using stream_ended_inv [OF assms(1) ended] Some Pair Inl b
        by (simp add: body_data_def stream_spec_def refines_to_def stream_failed_def Let_def)
    next
      case (Inr u)
      then show ?thesis using Pair b Some assms(1) by (simp add: body_data_def stream_spec_def refines_to_def)
    qed
  qed
qed

lemma refines_complete:
  assumes "body_inv s" and "bs_onclose s i = state" and "s2 = s\<lparr>bs_values := (bs_values s)(i := None)\<rparr>"
  shows "refines_to (body_complete chain i state c s2) (stream_spec lib factory chain i HP_MESSAGE_COMPLETE c (live s))"
proof -
  have b: "Option.bind state (bs_receiver s2) = live s i"
    using assms(2) live_onclose [of s i] by (simp add: assms(3))
  have reject: "\<exists>s''. body_reject i state (c, s2) = (reject_close (discard (live s i) c), s'') \<and> body_inv s''
      \<and> live s'' = (live s)(i := None) \<and> (\<forall>c. state_release i state (c, s'') = (c, s''))" for c
    using reject_current [OF assms(2), of s2 None c] stream_ended_inv [OF assms(1)]
      release_ended [OF _ assms(2)] by (auto simp: assms(3))
  have release: "\<exists>s''. state_release i state (drop_onclose i (c, s2)) = (discard (live s i) c, s'') \<and> body_inv s''
      \<and> live s'' = (live s)(i := None)" for c
    using release_current [OF assms(2), of "snd (drop_onclose i (c, s2))" None c] stream_ended_inv [OF assms(1)]
    by (auto simp: assms(3) drop_onclose_def)
  show ?thesis
  proof (cases "live s i")
    case None
    then show ?thesis
      using reject [of "stream_error (StdException ''request stream is unavailable'') c"] b
      by (auto simp: body_complete_def stream_spec_def stream_failed_def refines_to_def Let_def)
  next
    case (Some r)
    obtain x c1 where p: "chain_execute chain (act_bind (rv_complete r) (\<lambda>_ c. (Inr (Context_status c), c))) c = (x, c1)"
      by fastforce
    show ?thesis
    proof (cases x)
      case (Inl e)
      then show ?thesis using reject [of "stream_error e c1"] b Some p
        by (auto simp: body_complete_def stream_spec_def stream_failed_def refines_to_def Let_def)
    next
      case (Inr n)
      then show ?thesis using release [of c1] b Some p
        by (auto simp: body_complete_def stream_spec_def refines_to_def Let_def)
    qed
  qed
qed

lemma refines_headers:
  assumes "body_inv s" and "bs_onclose s i = old"
  shows "refines_to (body_headers lib factory i old c s) (stream_spec lib factory chain i HP_HEADERS_COMPLETE c (live s))"
proof -
  define s1 where "s1 = s\<lparr>bs_next := bs_next s + 1, bs_receiver := (bs_receiver s)(bs_next s := None)\<rparr>"
  have reject: "\<exists>s''. state_release i old (body_reject i (Some (bs_next s)) (c, s'))
      = (discard (live s i) (reject_close (discard r c)), s'') \<and> body_inv s'' \<and> live s'' = (live s)(i := None)"
    if "s' = s1\<lparr>bs_receiver := (bs_receiver s1)(bs_next s := r)\<rparr>" for c r s'
    using reject_fresh [OF assms, of s' r c] stream_ended_inv [OF assms(1)] by (auto simp: that s1_def)
  have none: "s1 = s1\<lparr>bs_receiver := (bs_receiver s1)(bs_next s := None)\<rparr>" by (simp add: s1_def)
  obtain x c1 where f: "factory c = (x, c1)" by fastforce
  consider (threw) e where "x = Inl e" | (null) "x = Inr None"
    | (writer) r where "x = Inr (Some r)" "Context_hasWriter c1"
    | (no_writer) r where "x = Inr (Some r)" "\<not> Context_hasWriter c1"
    by (cases x) (auto simp: not_None_eq [symmetric])
  then show ?thesis
  proof cases
    case threw
    then show ?thesis using reject [OF none, of "stream_error e c1"] f
      by (auto simp: body_headers_def stream_spec_def refines_to_def s1_def Let_def)
  next
    case null
    let ?c = "if Context_status c1 < 400 then Context_error 500 ''stream_receiver_unavailable'' None c1 else c1"
    show ?thesis using reject [OF none, of ?c] f null
      by (auto simp: body_headers_def stream_spec_def refines_to_def s1_def Let_def)
  next
    case writer
    let ?c = "if Context_header lib ''Expect'' c1 = ''100-continue''
      then write_call (WriteRaw (''HTTP/1.1 100 Continue'' @ [CHR 0x0D, CHR 0x0A, CHR 0x0D, CHR 0x0A])) c1 else c1"
    define s3 where "s3 = s1\<lparr>bs_receiver := (bs_receiver s1)(bs_next s := Some r),
       bs_onclose := (bs_onclose s1)(i := Some (bs_next s)), bs_values := (bs_values s1)(i := Some (bs_next s))\<rparr>"
    obtain s'' where "state_release i old (?c, s3) = (discard (live s i) ?c, s'') \<and> body_inv s''
        \<and> live s'' = (live s)(i := Some r)"
      using accept_fresh [OF assms, of s3 r ?c] by (auto simp: s3_def s1_def)
    then show ?thesis using f writer
      by (simp add: body_headers_def stream_spec_def refines_to_def s1_def s3_def Let_def)
  next
    case no_writer
    then show ?thesis
      using reject [OF refl, of "stream_error (StdException ''request stream has no writer'') c1" "Some r"] f
      by (auto simp: body_headers_def stream_spec_def refines_to_def s1_def Let_def)
  qed
qed

lemma makeBodyHandler_refines:
  assumes "body_inv s"
  shows "refines_to (makeBodyHandler lib factory chain i event c s) (stream_spec lib factory chain i event c (live s))"
proof -
  define t where "t = purge_expired s"
  have inv: "body_inv t" and val: "bs_values t i = bs_onclose t i" and lv: "live s = live t"
    using purge_inv [OF assms] purged_value [OF assms, of i] by (simp_all add: t_def)
  show ?thesis
  proof (cases event)
    case HP_ERROR
    define s2 where "s2 = snd (drop_onclose i (c, t\<lparr>bs_values := (bs_values t)(i := None)\<rparr>))"
    obtain s'' where "state_release i (bs_onclose t i) (c, s2) = (discard (live t i) c, s'')"
      and ended: "stream_ended i t s''"
      using release_current [of t i "bs_onclose t i" s2 None c] by (auto simp: s2_def drop_onclose_def)
    then show ?thesis using stream_ended_inv [OF inv ended]
      by (simp add: HP_ERROR makeBodyHandler_def Let_def t_def [symmetric] val lv stream_spec_def refines_to_def
          s2_def drop_onclose_def)
  next
    case HP_OTHER
    then show ?thesis using inv
      by (simp add: makeBodyHandler_def Let_def t_def [symmetric] lv stream_spec_def refines_to_def)
  next
    case HP_HEADERS_COMPLETE
    then show ?thesis using refines_headers [OF inv refl]
      by (simp add: makeBodyHandler_def Let_def t_def [symmetric] lv val)
  next
    case (HP_BODY chunk)
    then show ?thesis using refines_data [OF inv refl]
      by (simp add: makeBodyHandler_def Let_def t_def [symmetric] lv val)
  next
    case HP_MESSAGE_COMPLETE
    then show ?thesis using refines_complete [OF inv refl refl]
      by (simp add: makeBodyHandler_def Let_def t_def [symmetric] lv val)
  qed
qed

lemma connection_closed_refines:
  assumes "body_inv s"
  shows "\<exists>s'. connection_closed i c s = (discard (live s i) c, s') \<and> body_inv s' \<and> live s' = (live s)(i := None)"
proof (cases "bs_onclose s i")
  case None
  then show ?thesis using assms by (auto simp: connection_closed_def live_def fun_upd_idem)
next
  case (Some sid)
  define s' where "s' = s\<lparr>bs_receiver := (bs_receiver s)(sid := None), bs_onclose := (bs_onclose s)(i := None)\<rparr>"
  have "stream_ended i s s'" by (simp add: stream_ended_def s'_def Some)
  moreover have "live s i = bs_receiver s sid" by (simp add: live_def Some)
  then have "connection_closed i c s = (discard (live s i) c, s')"
    by (simp add: connection_closed_def receiver_reset_def s'_def Some)
  ultimately show ?thesis using stream_ended_inv [OF assms] by blast
qed

section \<open>Whole sessions\<close>

text \<open>
  What the library does with the handler: for any number of connections, in any order, an event of the
  parser, or (\<open>None\<close>) the end of the connection.  Every call makes a new context for the objects of the
  connection.
\<close>

type_synonym stream_input = "nat \<times> http_parser_state option \<times> HttpRequest \<times> HttpResponse \<times> writer option"

fun body_session ::
  "hv_lib \<Rightarrow> 'w RequestBodyFactory \<Rightarrow> 'w Context MiddlewareChain \<Rightarrow> stream_input list \<Rightarrow> 'w \<Rightarrow> 'w BodyStates \<Rightarrow>
   (int \<times> 'w Context) list \<times> 'w BodyStates" where
  "body_session lib factory chain [] w s = ([], s)"
| "body_session lib factory chain ((i, event, req, resp, wr) # xs) w s =
     (let c = Context_async req resp wr w;
          (ret, c', s') = (case event of
             Some e \<Rightarrow> makeBodyHandler lib factory chain i e c s
           | None \<Rightarrow> (0, connection_closed i c s));
          (rs, s'') = body_session lib factory chain xs (cx_world c') s'
      in ((ret, c') # rs, s''))"

fun spec_session ::
  "hv_lib \<Rightarrow> 'w RequestBodyFactory \<Rightarrow> 'w Context MiddlewareChain \<Rightarrow> stream_input list \<Rightarrow> 'w \<Rightarrow> 'w streams \<Rightarrow>
   (int \<times> 'w Context) list \<times> 'w streams" where
  "spec_session lib factory chain [] w m = ([], m)"
| "spec_session lib factory chain ((i, event, req, resp, wr) # xs) w m =
     (let c = Context_async req resp wr w;
          (ret, c', m') = (case event of
             Some e \<Rightarrow> stream_spec lib factory chain i e c m
           | None \<Rightarrow> (0, discard (m i) c, m(i := None)));
          (rs, m'') = spec_session lib factory chain xs (cx_world c') m'
      in ((ret, c') # rs, m''))"

lemma session_refines:
  assumes "body_inv s"
  shows "case body_session lib factory chain xs w s of
      (rs, s') \<Rightarrow> spec_session lib factory chain xs w (live s) = (rs, live s') \<and> body_inv s'"
  using assms
proof (induction lib factory chain xs w s rule: body_session.induct)
  case (1 lib factory chain w s)
  then show ?case by simp
next
  case (2 lib factory chain i event req resp wr xs w s)
  let ?c = "Context_async req resp wr w"
  obtain ret c' s' where
    step: "(case event of Some e \<Rightarrow> makeBodyHandler lib factory chain i e ?c s | None \<Rightarrow> (0, connection_closed i ?c s))
        = (ret, c', s')"
    by (rule prod_cases3)
  have spec: "(case event of Some e \<Rightarrow> stream_spec lib factory chain i e ?c (live s)
        | None \<Rightarrow> (0, discard (live s i) ?c, (live s)(i := None))) = (ret, c', live s') \<and> body_inv s'"
  proof (cases event)
    case None
    then show ?thesis using connection_closed_refines [OF 2(2), of i ?c] step by auto
  next
    case (Some e)
    then show ?thesis using makeBodyHandler_refines [OF 2(2), of lib factory chain i e ?c] step
      by (simp add: refines_to_def)
  qed
  have "case body_session lib factory chain xs (cx_world c') s' of
      (rs, s'') \<Rightarrow> spec_session lib factory chain xs (cx_world c') (live s') = (rs, live s'') \<and> body_inv s''"
    using "2.IH" [OF refl step [symmetric] refl refl] spec by simp
  then show ?case using step spec by (simp split: prod.splits)
qed

text \<open>
  C7: Whatever the library does with any number of connections, the handler, with its shared map of weak
  pointers and its closures, behaves as if every connection simply had at most one receiver: each event
  returns and leaves in the context exactly what the contract says, a receiver gets the chunks of its own
  connection only, and the receivers alive at the end are those of the streams still open.
\<close>

theorem RequestBody_refines:
  "(case body_session lib factory chain xs w BodyStates_empty of (rs, s) \<Rightarrow> (rs, live s))
   = spec_session lib factory chain xs w Map.empty"
  using session_refines [of BodyStates_empty lib factory chain xs w] by (simp split: prod.splits)

end
