(* ===== verification/Router.thy ===== *)
theory Router imports "HOL-Library.Multiset" RequestBody begin

text \<open>
  The router (\<open>src/src/Router.cpp\<close>): registration of routes, the synchronous and the asynchronous bridge to
  the library, and \<open>bind\<close>.  The service of the library is the list of the registrations made on it.
\<close>

section \<open>Routes\<close>

datatype Method = M_GET | M_POST | M_PUT | M_DEL | M_PATCH | M_CUSTOM

type_synonym 'w Handler = "('w Context, unit) act"

record 'w Route =
  rt_method :: Method
  rt_customMethod :: string
  rt_path :: string
  rt_handler :: "'w Handler option"             \<comment> \<open>\<open>None\<close>: an empty \<open>std::function\<close>\<close>
  rt_async :: bool
  rt_bodyFactory :: "'w RequestBodyFactory option"

record 'w Router =
  ro_middlewares :: "'w Context MiddlewareChain"
  ro_routes :: "'w Route list"
  ro_postprocessor :: "('w Context, int) act option"
  ro_errorHandler :: "('w Context, int) act option"
  ro_asyncDispatcher :: bool                    \<comment> \<open>is there one\<close>
  ro_asyncTaskTracker :: bool

definition Router_ctor :: "'w Router" where
  "Router_ctor = \<lparr>ro_middlewares = [], ro_routes = [], ro_postprocessor = None, ro_errorHandler = None,
     ro_asyncDispatcher = False, ro_asyncTaskTracker = False\<rparr>"

definition Router_use :: "string \<Rightarrow> 'w Context middleware_fn \<Rightarrow> 'w Router \<Rightarrow> 'w Router" where
  "Router_use name fn r = r\<lparr>ro_middlewares := chain_use name fn (ro_middlewares r)\<rparr>"

definition add_route :: "'w Route \<Rightarrow> 'w Router \<Rightarrow> 'w Router" where
  "add_route rt r = r\<lparr>ro_routes := ro_routes r @ [rt]\<rparr>"

definition plain_route :: "Method \<Rightarrow> bool \<Rightarrow> string \<Rightarrow> 'w Handler \<Rightarrow> 'w Route" where
  "plain_route m asyn path h =
     \<lparr>rt_method = m, rt_customMethod = [], rt_path = path, rt_handler = Some h, rt_async = asyn, rt_bodyFactory = None\<rparr>"

definition Router_get :: "string \<Rightarrow> 'w Handler \<Rightarrow> 'w Router \<Rightarrow> 'w Router" where
  "Router_get path h = add_route (plain_route M_GET False path h)"

definition Router_post :: "string \<Rightarrow> 'w Handler \<Rightarrow> 'w Router \<Rightarrow> 'w Router" where
  "Router_post path h = add_route (plain_route M_POST False path h)"

definition Router_put :: "string \<Rightarrow> 'w Handler \<Rightarrow> 'w Router \<Rightarrow> 'w Router" where
  "Router_put path h = add_route (plain_route M_PUT False path h)"

definition Router_putStream :: "string \<Rightarrow> 'w RequestBodyFactory \<Rightarrow> 'w Router \<Rightarrow> 'w Router" where
  "Router_putStream path factory = add_route
     \<lparr>rt_method = M_PUT, rt_customMethod = [], rt_path = path, rt_handler = None, rt_async = False,
      rt_bodyFactory = Some factory\<rparr>"

definition Router_del :: "string \<Rightarrow> 'w Handler \<Rightarrow> 'w Router \<Rightarrow> 'w Router" where
  "Router_del path h = add_route (plain_route M_DEL False path h)"

definition Router_patch :: "string \<Rightarrow> 'w Handler \<Rightarrow> 'w Router \<Rightarrow> 'w Router" where
  "Router_patch path h = add_route (plain_route M_PATCH False path h)"

definition Router_getAsync :: "string \<Rightarrow> 'w Handler \<Rightarrow> 'w Router \<Rightarrow> 'w Router" where
  "Router_getAsync path h = add_route (plain_route M_GET True path h)"

definition Router_custom :: "string \<Rightarrow> string \<Rightarrow> 'w Handler \<Rightarrow> 'w Router \<Rightarrow> 'w Router" where
  "Router_custom m path h = add_route ((plain_route M_CUSTOM False path h)\<lparr>rt_customMethod := m\<rparr>)"

definition Router_customAsync :: "string \<Rightarrow> string \<Rightarrow> 'w Handler \<Rightarrow> 'w Router \<Rightarrow> 'w Router" where
  "Router_customAsync m path h = add_route ((plain_route M_CUSTOM True path h)\<lparr>rt_customMethod := m\<rparr>)"

definition Router_setAsyncDispatcher :: "bool \<Rightarrow> 'w Router \<Rightarrow> 'w Router" where
  "Router_setAsyncDispatcher d r = r\<lparr>ro_asyncDispatcher := d\<rparr>"

definition Router_setAsyncTaskTracker :: "bool \<Rightarrow> 'w Router \<Rightarrow> 'w Router" where
  "Router_setAsyncTaskTracker t r = r\<lparr>ro_asyncTaskTracker := t\<rparr>"

definition Router_setPostprocessor :: "('w Context, int) act option \<Rightarrow> 'w Router \<Rightarrow> 'w Router" where
  "Router_setPostprocessor fn r = r\<lparr>ro_postprocessor := fn\<rparr>"

definition Router_setErrorHandler :: "('w Context, int) act option \<Rightarrow> 'w Router \<Rightarrow> 'w Router" where
  "Router_setErrorHandler fn r = r\<lparr>ro_errorHandler := fn\<rparr>"

definition routeCount :: "'w Router \<Rightarrow> nat" where
  "routeCount r = length (ro_routes r)"

section \<open>The handlers given to the library\<close>

definition call_handler :: "'w Handler option \<Rightarrow> 'w Handler" where
  "call_handler h = (case h of Some f \<Rightarrow> f | None \<Rightarrow> (\<lambda>c. (Inl (StdException ''bad_function_call''), c)))"

definition response_status :: "'w Context \<Rightarrow> int" where
  "response_status c = (if Context_status c \<noteq> 0 then Context_status c else 200)"

definition final_handler :: "'w Handler option \<Rightarrow> ('w Context, int) act" where
  "final_handler h = act_bind (call_handler h) (\<lambda>_ c. (Inr (response_status c), c))"

text \<open>The synchronous handler: an exception leaves it.\<close>

definition makeSyncHandler ::
  "'w Handler option \<Rightarrow> 'w Context MiddlewareChain \<Rightarrow> HttpRequest \<Rightarrow> HttpResponse \<Rightarrow> 'w \<Rightarrow>
   (exn + int) \<times> 'w Context" where
  "makeSyncHandler h chain req resp w =
     (case chain_execute chain (final_handler h) (Context_sync req resp w) of
        (Inl e, c) \<Rightarrow> (Inl e, c)
      | (Inr _, c) \<Rightarrow> (Inr (response_status c), c))"

text \<open>
  The asynchronous handler.  \<open>as_tasks\<close> are the tasks that the dispatcher holds, \<open>as_lost\<close> those that it
  destroyed without running them, \<open>as_tracked\<close> the calls of the tracker, \<open>as_done\<close> the contexts of the
  finished tasks in the order in which they ran.  \<open>thrown\<close> is the exception, if any, with which the call of
  the dispatcher ends; its task is destroyed then.
\<close>

type_synonym http_objects = "HttpRequest \<times> HttpResponse \<times> writer option"
type_synonym 'w task = "'w Handler option \<times> http_objects"

record 'w async_state =
  as_tasks :: "'w task list"
  as_lost :: "'w task list"
  as_tracked :: "int list"
  as_done :: "'w Context list"
  as_world :: 'w

definition track :: "bool \<Rightarrow> int \<Rightarrow> 'w async_state \<Rightarrow> 'w async_state" where
  "track tracker d s = (if tracker then s\<lparr>as_tracked := as_tracked s @ [d]\<rparr> else s)"

definition async_context ::
  "hv_lib \<Rightarrow> 'w Context MiddlewareChain \<Rightarrow> 'w Handler option \<Rightarrow> http_objects \<Rightarrow> 'w \<Rightarrow> 'w Context" where
  "async_context lib chain h objs w =
     (let (req, resp, wr) = objs;
          (r, c) = chain_execute chain (final_handler h) (Context_async req resp wr w);
          streamingHandoff = (case r of Inl e \<Rightarrow> False | Inr _ \<Rightarrow> Context_isStreamingHandoff c)
      in if \<not> streamingHandoff \<and> (case cx_writer c of None \<Rightarrow> False | Some wr \<Rightarrow> lib_send_begin lib (wr_calls wr))
         then write_call EndCall c else c)"

definition async_task ::
  "hv_lib \<Rightarrow> 'w Context MiddlewareChain \<Rightarrow> bool \<Rightarrow> 'w task \<Rightarrow> 'w async_state \<Rightarrow> 'w async_state" where
  "async_task lib chain tracker task s =
     (let c = async_context lib chain (fst task) (snd task) (as_world s)
      in track tracker (-1) (s\<lparr>as_done := as_done s @ [c], as_world := cx_world c\<rparr>))"

definition mark_async :: "HttpRequest \<Rightarrow> HttpRequest" where
  "mark_async req = req\<lparr>hr_headers := hr_headers req @ [SetHeader ''X-Internal-Async'' ''1'']\<rparr>"

definition makeAsyncHandler ::
  "hv_lib \<Rightarrow> 'w Handler option \<Rightarrow> 'w Context MiddlewareChain \<Rightarrow> bool \<Rightarrow> bool \<Rightarrow> exn option \<Rightarrow> http_objects \<Rightarrow>
   'w async_state \<Rightarrow> (exn + int) \<times> 'w async_state" where
  "makeAsyncHandler lib h chain dispatcher tracker thrown objs s =
     (let (req, resp, wr) = objs;
          s1 = track tracker 1 s;
          task = (h, mark_async req, resp, wr)
      in if dispatcher
         then (case thrown of
                 None \<Rightarrow> (Inr 0, s1\<lparr>as_tasks := as_tasks s1 @ [task]\<rparr>)
               | Some e \<Rightarrow> (Inl e, s1\<lparr>as_lost := as_lost s1 @ [task]\<rparr>))
         else (Inr 0, async_task lib chain tracker task s1))"

section \<open>\<open>bind\<close>\<close>

datatype 'w hv_handler =
    SyncHandler "'w Handler option" "'w Context MiddlewareChain"
  | CtxHandler "'w Handler option" "'w Context MiddlewareChain" bool bool
  | StateHandler "'w RequestBodyFactory" "'w Context MiddlewareChain"

datatype 'w service_call =
    ServiceGET string "'w hv_handler"
  | ServicePOST string "'w hv_handler"
  | ServicePUT string "'w hv_handler"
  | ServiceDelete string "'w hv_handler"
  | ServicePATCH string "'w hv_handler"
  | ServiceHandle string string "'w hv_handler"

text \<open>
  A callback of the whole service: the lambda put around the user's function builds a synchronous context of
  its own on the request and the response, so nothing but these two and the world passes from one to another.
\<close>

type_synonym 'w hv_callback = "HttpRequest \<Rightarrow> HttpResponse \<Rightarrow> 'w \<Rightarrow> (exn + int) \<times> 'w Context"

definition sync_callback :: "('w Context, int) act \<Rightarrow> 'w hv_callback" where
  "sync_callback fn req resp w = fn (Context_sync req resp w)"

record 'w HttpService =
  sv_calls :: "'w service_call list"
  sv_postprocessor :: "'w hv_callback option"
  sv_errorHandler :: "'w hv_callback option"
  sv_document_root :: string

text \<open>The registration of one route; a \<open>CUSTOM\<close> route never reaches the \<open>switch\<close>.\<close>

definition bind_route :: "'w Router \<Rightarrow> 'w Route \<Rightarrow> 'w service_call" where
  "bind_route r rt =
     (let chain = ro_middlewares r;
          asyn = CtxHandler (rt_handler rt) chain (ro_asyncDispatcher r) (ro_asyncTaskTracker r);
          h = SyncHandler (rt_handler rt) chain
      in case rt_bodyFactory rt of
           Some factory \<Rightarrow> ServicePUT (rt_path rt) (StateHandler factory chain)
         | None \<Rightarrow>
             if rt_method rt = M_CUSTOM
             then ServiceHandle (rt_customMethod rt) (rt_path rt) (if rt_async rt then asyn else h)
             else if rt_async rt then ServiceGET (rt_path rt) asyn
             else case rt_method rt of
                    M_GET \<Rightarrow> ServiceGET (rt_path rt) h
                  | M_POST \<Rightarrow> ServicePOST (rt_path rt) h
                  | M_PUT \<Rightarrow> ServicePUT (rt_path rt) h
                  | M_DEL \<Rightarrow> ServiceDelete (rt_path rt) h
                  | M_PATCH \<Rightarrow> ServicePATCH (rt_path rt) h
                  | M_CUSTOM \<Rightarrow> ServiceHandle (rt_customMethod rt) (rt_path rt) h)"

definition Router_bind :: "'w Router \<Rightarrow> 'w HttpService \<Rightarrow> 'w HttpService" where
  "Router_bind r service =
     (let s1 = service\<lparr>sv_calls := sv_calls service @ map (bind_route r) (ro_routes r)\<rparr>;
          s2 = (case ro_postprocessor r of
                  Some pp \<Rightarrow> s1\<lparr>sv_postprocessor := Some (sync_callback pp)\<rparr> | None \<Rightarrow> s1)
      in case ro_errorHandler r of
           Some eh \<Rightarrow> s2\<lparr>sv_errorHandler := Some (sync_callback eh)\<rparr> | None \<Rightarrow> s2)"

section \<open>What a service callback leaves to the route\<close>

text \<open>
  The key-value store of a context ends with its callback: a value set there reads as the default in the
  first function of the route's chain, while a value set by a middleware of the chain reaches the handler.
\<close>

lemma service_callback_kv:
  assumes "sync_callback (\<lambda>c. (Inr 0, Context_set key val c)) req resp w = (Inr 0, c)"
  shows "makeSyncHandler (Some (\<lambda>c. (Inr (), c\<lparr>cx_world := f (Context_get key def c)\<rparr>))) [] (cx_req c) (cx_resp c) w
    = (Inr (response_status (Context_sync req resp w)), Context_sync req resp (f def))"
  using assms by (auto simp: sync_callback_def makeSyncHandler_def final_handler_def call_handler_def act_bind_def
    chain_execute_def chain_run.simps Context_set_def Context_get_def Context_sync_def response_status_def
    Context_status_def)

lemma chain_middleware_kv:
  "snd (makeSyncHandler (Some (\<lambda>c. (Inr (), c\<lparr>cx_world := f (Context_get key def c)\<rparr>)))
          (chain_use name (\<lambda>next c. next (Context_set key val c)) []) req resp w)
    = Context_set key val (Context_sync req resp (f val))"
  by (simp add: makeSyncHandler_def final_handler_def call_handler_def act_bind_def chain_use_def
    chain_execute_def chain_run.simps Context_set_def Context_get_def Context_sync_def response_status_def
    Context_status_def)

section \<open>Registration and binding\<close>

lemma add_route_use:
  "Router_use name m (add_route rt r) = add_route rt (Router_use name m r)"
  by (simp add: add_route_def Router_use_def)

lemma bind_calls:
  "sv_calls (Router_bind r s) = sv_calls s @ map (bind_route r) (ro_routes r)"
  by (simp add: Router_bind_def Let_def split: option.split)

text \<open>The routes of a program: what one registration makes the library serve.\<close>

definition serves :: "'w Router \<Rightarrow> 'w service_call \<Rightarrow> bool" where
  "serves r call \<longleftrightarrow> call \<in> set (sv_calls (Router_bind r
     \<lparr>sv_calls = [], sv_postprocessor = None, sv_errorHandler = None, sv_document_root = []\<rparr>))"

lemma serves_add_route:
  "serves (add_route rt r) call \<longleftrightarrow> call = bind_route r rt \<or> serves r call"
proof -
  have "bind_route (r\<lparr>ro_routes := rts\<rparr>) x = bind_route r x" for rts x
    by (simp add: bind_route_def)
  then have "bind_route (r\<lparr>ro_routes := rts\<rparr>) = bind_route r" for rts
    by (rule ext)
  then show ?thesis by (auto simp: serves_def bind_calls add_route_def)
qed

text \<open>
  Each registration adds exactly one route, under the right method of the library and with the
  middleware chain of the time of \<open>bind\<close>, so that it does not matter whether a middleware is registered
  before or after a route; asynchronous routes and streamed bodies get their own kind of handler.
\<close>

theorem Router_routes:
  "(serves (Router_get p h r) call \<longleftrightarrow> call = ServiceGET p (SyncHandler (Some h) (ro_middlewares r)) \<or> serves r call)
   \<and> (serves (Router_post p h r) call \<longleftrightarrow> call = ServicePOST p (SyncHandler (Some h) (ro_middlewares r)) \<or> serves r call)
   \<and> (serves (Router_put p h r) call \<longleftrightarrow> call = ServicePUT p (SyncHandler (Some h) (ro_middlewares r)) \<or> serves r call)
   \<and> (serves (Router_del p h r) call \<longleftrightarrow> call = ServiceDelete p (SyncHandler (Some h) (ro_middlewares r)) \<or> serves r call)
   \<and> (serves (Router_patch p h r) call \<longleftrightarrow> call = ServicePATCH p (SyncHandler (Some h) (ro_middlewares r)) \<or> serves r call)
   \<and> (serves (Router_getAsync p h r) call \<longleftrightarrow>
        call = ServiceGET p (CtxHandler (Some h) (ro_middlewares r) (ro_asyncDispatcher r) (ro_asyncTaskTracker r))
        \<or> serves r call)
   \<and> (serves (Router_custom m p h r) call \<longleftrightarrow> call = ServiceHandle m p (SyncHandler (Some h) (ro_middlewares r)) \<or> serves r call)
   \<and> (serves (Router_customAsync m p h r) call \<longleftrightarrow>
        call = ServiceHandle m p (CtxHandler (Some h) (ro_middlewares r) (ro_asyncDispatcher r) (ro_asyncTaskTracker r))
        \<or> serves r call)
   \<and> (serves (Router_putStream p factory r) call \<longleftrightarrow> call = ServicePUT p (StateHandler factory (ro_middlewares r)) \<or> serves r call)
   \<and> Router_use name mw (Router_get p h r) = Router_get p h (Router_use name mw r)
   \<and> Router_use name mw (Router_putStream p factory r) = Router_putStream p factory (Router_use name mw r)"
  by (simp add: Router_get_def Router_post_def Router_put_def Router_del_def Router_patch_def Router_getAsync_def
      Router_custom_def Router_customAsync_def Router_putStream_def serves_add_route add_route_use
      bind_route_def plain_route_def Let_def)

section \<open>The synchronous bridge\<close>

definition override_result :: "int \<Rightarrow> 'c middleware_fn \<Rightarrow> 'c middleware_fn" where
  "override_result n m = (\<lambda>next c. case m next c of (Inr _, c') \<Rightarrow> (Inr n, c') | (Inl e, c') \<Rightarrow> (Inl e, c'))"

definition refuse :: "int \<Rightarrow> 'c middleware_fn" where
  "refuse n = (\<lambda>next c. (Inr n, c))"

text \<open>
  The status of a synchronous response is what the handlers have put into the context, and 200 if that
  is 0.  The number that the outermost middleware returns is ignored: a middleware that refuses a request
  by returning a status other than 0, without \<open>next\<close>, still produces the response with the status of the
  untouched context.
\<close>

theorem Router_sync_status:
  "makeSyncHandler h (\<lparr>en_name = name, en_fn = override_result n m\<rparr> # es) req resp w
     = makeSyncHandler h (\<lparr>en_name = name, en_fn = m\<rparr> # es) req resp w
   \<and> fst (makeSyncHandler h (\<lparr>en_name = name, en_fn = refuse n\<rparr> # es) req resp w)
     = Inr (if hp_status_code resp = 0 then 200 else hp_status_code resp)
   \<and> fst (makeSyncHandler (Some (\<lambda>c. (Inr (), Context_setStatus n c))) [] req resp w) = Inr (if n = 0 then 200 else n)"
  by (auto simp: makeSyncHandler_def override_result_def refuse_def response_status_def Context_status_def
      Context_sync_def final_handler_def call_handler_def act_bind_def Context_setStatus_def with_resp_def
      split: prod.splits sum.splits)

section \<open>The asynchronous bridge\<close>

datatype 'w async_op =
    Arrive "exn option" "'w Handler option" http_objects
  | RunTask nat                              \<comment> \<open>the dispatcher runs one of its tasks\<close>
  | DropTask nat                             \<comment> \<open>it destroys one, as a pool does that is stopped\<close>

definition take_task :: "nat \<Rightarrow> 'w async_state \<Rightarrow> 'w async_state" where
  "take_task n s = s\<lparr>as_tasks := take n (as_tasks s) @ drop (n + 1) (as_tasks s)\<rparr>"

fun async_step ::
  "hv_lib \<Rightarrow> 'w Context MiddlewareChain \<Rightarrow> bool \<Rightarrow> bool \<Rightarrow> 'w async_op \<Rightarrow> 'w async_state \<Rightarrow> 'w async_state" where
  "async_step lib chain dispatcher tracker (Arrive thrown h objs) s =
     snd (makeAsyncHandler lib h chain dispatcher tracker thrown objs s)"
| "async_step lib chain dispatcher tracker (RunTask n) s =
     (if n < length (as_tasks s) then async_task lib chain tracker (as_tasks s ! n) (take_task n s) else s)"
| "async_step lib chain dispatcher tracker (DropTask n) s =
     (if n < length (as_tasks s) then (take_task n s)\<lparr>as_lost := as_lost s @ [as_tasks s ! n]\<rparr> else s)"

definition async_run ::
  "hv_lib \<Rightarrow> 'w Context MiddlewareChain \<Rightarrow> bool \<Rightarrow> bool \<Rightarrow> 'w async_op list \<Rightarrow> 'w async_state \<Rightarrow> 'w async_state" where
  "async_run lib chain dispatcher tracker ops s =
     foldl (\<lambda>s op. async_step lib chain dispatcher tracker op s) s ops"

definition async_empty :: "'w \<Rightarrow> 'w async_state" where
  "async_empty w = \<lparr>as_tasks = [], as_lost = [], as_tracked = [], as_done = [], as_world = w\<rparr>"

text \<open>
  What is expected: the requests that arrive, as tasks, and what their chains and handlers make of them
  when they run one after another, each in the world that the one before has left.
\<close>

fun arrivals :: "'w async_op list \<Rightarrow> 'w task list" where
  "arrivals [] = []"
| "arrivals (Arrive thrown h (req, resp, wr) # ops) = (h, mark_async req, resp, wr) # arrivals ops"
| "arrivals (_ # ops) = arrivals ops"

fun loses_task :: "'w async_op \<Rightarrow> bool" where
  "loses_task (Arrive thrown h objs) \<longleftrightarrow> thrown \<noteq> None"
| "loses_task (RunTask n) \<longleftrightarrow> False"
| "loses_task (DropTask n) \<longleftrightarrow> True"

definition serve_next ::
  "hv_lib \<Rightarrow> 'w Context MiddlewareChain \<Rightarrow> 'w Context list \<times> 'w \<Rightarrow> 'w task \<Rightarrow> 'w Context list \<times> 'w" where
  "serve_next lib chain = (\<lambda>(cs, w) task. let c = async_context lib chain (fst task) (snd task) w in (cs @ [c], cx_world c))"

definition served :: "hv_lib \<Rightarrow> 'w Context MiddlewareChain \<Rightarrow> 'w \<Rightarrow> 'w task list \<Rightarrow> 'w Context list \<times> 'w" where
  "served lib chain w order = foldl (serve_next lib chain) ([], w) order"

lemma served_snoc: "served lib chain w (order @ [task]) = serve_next lib chain (served lib chain w order) task"
  by (simp add: served_def)

text \<open>\<open>order\<close>: the tasks that have run; \<open>came\<close>: those that have arrived.\<close>

definition async_inv ::
  "hv_lib \<Rightarrow> 'w Context MiddlewareChain \<Rightarrow> bool \<Rightarrow> 'w \<Rightarrow> 'w task list \<Rightarrow> 'w task list \<Rightarrow> 'w async_state \<Rightarrow> bool" where
  "async_inv lib chain tracker w came order s \<longleftrightarrow>
     mset order + mset (as_tasks s) + mset (as_lost s) = mset came
     \<and> (as_done s, as_world s) = served lib chain w order
     \<and> sum_list (as_tracked s) = (if tracker then int (length (as_tasks s) + length (as_lost s)) else 0)"

lemma async_task_inv:
  assumes "mset order + mset (as_tasks s) + mset (as_lost s) + {#task#} = mset came"
    and "(as_done s, as_world s) = served lib chain w order"
    and "sum_list (as_tracked s) = (if tracker then int (length (as_tasks s) + length (as_lost s)) + 1 else 0)"
  shows "async_inv lib chain tracker w came (order @ [task]) (async_task lib chain tracker task s)"
  using assms by (auto simp: async_inv_def async_task_def track_def served_snoc serve_next_def Let_def
      assms(2) [symmetric] add_ac)

lemma take_task_mset:
  assumes "n < length (as_tasks s)"
  shows "mset (as_tasks s) = add_mset (as_tasks s ! n) (mset (as_tasks (take_task n s)))"
    and "length (as_tasks s) = Suc (length (as_tasks (take_task n s)))"
  using assms arg_cong [OF id_take_nth_drop [OF assms], of mset] by (simp_all add: take_task_def)

lemma take_task_fields [simp]:
  "as_lost (take_task n s) = as_lost s" "as_tracked (take_task n s) = as_tracked s"
  "as_done (take_task n s) = as_done s" "as_world (take_task n s) = as_world s"
  by (simp_all add: take_task_def)

lemma async_step_inv:
  assumes inv: "async_inv lib chain tracker w came order s"
  shows "\<exists>ran. async_inv lib chain tracker w (came @ arrivals [op]) (order @ ran) (async_step lib chain dispatcher tracker op s)
     \<and> (\<not> dispatcher \<and> as_tasks s = [] \<longrightarrow> ran = arrivals [op])"
proof (cases op)
  case (Arrive thrown h objs)
  obtain req resp wr where objs: "objs = (req, resp, wr)" by (rule prod_cases3)
  let ?task = "(h, mark_async req, resp, wr)"
  have step: "async_step lib chain dispatcher tracker op s =
      (let s1 = track tracker 1 s
       in if dispatcher then (case thrown of None \<Rightarrow> s1\<lparr>as_tasks := as_tasks s1 @ [?task]\<rparr>
            | Some e \<Rightarrow> s1\<lparr>as_lost := as_lost s1 @ [?task]\<rparr>)
          else async_task lib chain tracker ?task s1)"
    by (simp add: Arrive objs makeAsyncHandler_def Let_def split: option.split)
  show ?thesis
  proof (cases dispatcher)
    case True
    then have "async_inv lib chain tracker w (came @ arrivals [op]) (order @ []) (async_step lib chain dispatcher tracker op s)"
      using inv unfolding step async_inv_def
      by (auto simp: Arrive objs track_def Let_def split: option.split)
    then show ?thesis using True by blast
  next
    case False
    have "async_inv lib chain tracker w (came @ arrivals [op]) (order @ [?task])
        (async_task lib chain tracker ?task (track tracker 1 s))"
      using inv by (intro async_task_inv) (simp_all add: Arrive objs async_inv_def track_def)
    then show ?thesis using False unfolding step
      by (intro exI [of _ "[?task]"]) (simp add: Arrive objs)
  qed
next
  case (RunTask n)
  show ?thesis
  proof (cases "n < length (as_tasks s)")
    case True
    have "async_inv lib chain tracker w came (order @ [as_tasks s ! n])
        (async_task lib chain tracker (as_tasks s ! n) (take_task n s))"
      using inv take_task_mset [OF True] by (intro async_task_inv) (auto simp: async_inv_def)
    then show ?thesis using True RunTask by (intro exI [of _ "[as_tasks s ! n]"]) auto
  next
    case False
    then show ?thesis using inv RunTask by (intro exI [of _ "[]"]) simp
  qed
next
  case (DropTask n)
  then have "async_inv lib chain tracker w (came @ arrivals [op]) (order @ []) (async_step lib chain dispatcher tracker op s)"
    using inv take_task_mset [of n s] by (auto simp: async_inv_def)
  then show ?thesis using DropTask by (intro exI [of _ "[]"]) simp
qed

lemma async_step_sync: "as_tasks s = [] \<Longrightarrow> as_tasks (async_step lib chain False tracker op s) = []"
  by (cases op) (auto simp: makeAsyncHandler_def async_task_def track_def Let_def split: prod.splits)

lemma async_run_inv:
  assumes "async_inv lib chain tracker w came order s"
  shows "\<exists>ran. async_inv lib chain tracker w (came @ arrivals ops) (order @ ran) (async_run lib chain dispatcher tracker ops s)
     \<and> (\<not> dispatcher \<and> as_tasks s = [] \<longrightarrow> ran = arrivals ops)"
  using assms
proof (induction ops arbitrary: came order s)
  case Nil
  then show ?case by (intro exI [of _ "[]"]) (simp add: async_run_def)
next
  case (Cons op ops)
  let ?s = "async_step lib chain dispatcher tracker op s"
  obtain r1 where r1: "async_inv lib chain tracker w (came @ arrivals [op]) (order @ r1) ?s"
    "\<not> dispatcher \<and> as_tasks s = [] \<longrightarrow> r1 = arrivals [op]"
    using async_step_inv [OF Cons.prems, of op dispatcher] by blast
  obtain r2 where r2: "async_inv lib chain tracker w ((came @ arrivals [op]) @ arrivals ops) ((order @ r1) @ r2)
      (async_run lib chain dispatcher tracker ops ?s)"
    "\<not> dispatcher \<and> as_tasks ?s = [] \<longrightarrow> r2 = arrivals ops"
    using Cons.IH [OF r1(1)] by blast
  have split: "arrivals (op # ops) = arrivals [op] @ arrivals ops" by (cases op) auto
  have run: "async_run lib chain dispatcher tracker (op # ops) s = async_run lib chain dispatcher tracker ops ?s"
    by (simp add: async_run_def)
  show ?case
    using r1(2) r2 async_step_sync [of s lib chain tracker op]
    by (intro exI [of _ "r1 @ r2"]) (auto simp: split run)
qed

lemma async_run_lost:
  assumes "\<not> list_ex loses_task ops"
  shows "as_lost (async_run lib chain dispatcher tracker ops s) = as_lost s"
  using assms
proof (induction ops arbitrary: s)
  case (Cons op ops)
  have "as_lost (async_step lib chain dispatcher tracker op s) = as_lost s"
    using Cons.prems by (cases op)
      (auto simp: makeAsyncHandler_def async_task_def track_def Let_def split: prod.splits)
  then show ?case using Cons by (simp add: async_run_def)
qed (simp add: async_run_def)


text \<open>
  A task ends the response of a writer that has sent nothing, unless the handler has handed the stream
  over.  But a handler that hands the stream over and then throws has its response ended under the new
  owner, because the flag is read only when no exception occurred.
\<close>

theorem Router_async_end:
  assumes "lib_send_begin lib (wr_calls wr)"
  shows "cx_writer (async_context lib [] (Some (\<lambda>c. (Inr (), c))) (req, resp, Some wr) w)
      = Some (wr\<lparr>wr_calls := wr_calls wr @ [EndCall]\<rparr>)
    \<and> cx_writer (async_context lib [] (Some (\<lambda>c. (Inr (), Context_markStreamingHandoff c))) (req, resp, Some wr) w) = Some wr
    \<and> cx_writer (async_context lib [] (Some (\<lambda>c. (Inl e, Context_markStreamingHandoff c))) (req, resp, Some wr) w)
      = Some (wr\<lparr>wr_calls := wr_calls wr @ [EndCall]\<rparr>)"
  using assms
  by (simp add: async_context_def final_handler_def call_handler_def act_bind_def Context_async_def
      Context_isStreamingHandoff_def Context_markStreamingHandoff_def write_call_def)

lemma Router_async_end_witness:
  "cx_writer (async_context demo_lib [] (Some (\<lambda>c. (Inl OtherException, Context_markStreamingHandoff c)))
       (demo_request, demo_response, Some demo_writer) ())
     = Some (demo_writer\<lparr>wr_calls := [EndCall]\<rparr>)"
proof -
  have "lib_send_begin demo_lib (wr_calls demo_writer)" by (simp add: demo_lib_def demo_writer_def)
  from Router_async_end [OF this, of demo_request demo_response "()" OtherException]
  show ?thesis by (simp add: demo_writer_def)
qed

end
