(* ===== verification/Bridges.thy ===== *)
theory Bridges imports Router begin

text \<open>
  The synchronous and the asynchronous bridge of the router (\<open>makeSyncHandler\<close> and \<open>makeAsyncHandler\<close> in
  \<open>src/src/Router.cpp\<close>) compared: what a handler can tell apart, and that a handler that does not ask gets
  the same answer through both.
\<close>

section \<open>What differs between the bridges\<close>

text \<open>
  An asynchronous context has a response writer, and its request carries the header that \<open>mark_async\<close> sets.
  \<open>plain_view\<close> is a context without either.
\<close>

definition plain_request :: "HttpRequest \<Rightarrow> HttpRequest" where
  "plain_request req = req\<lparr>hr_headers := filter (\<lambda>h. h \<noteq> SetHeader ''X-Internal-Async'' ''1'') (hr_headers req)\<rparr>"

definition plain_view :: "'w Context \<Rightarrow> 'w Context" where
  "plain_view c = c\<lparr>cx_req := plain_request (cx_req c), cx_writer := None\<rparr>"

text \<open>An action that does the same on contexts with the same view, and makes no call on the writer.\<close>

definition bridge_free :: "('w Context, 'a) act \<Rightarrow> bool" where
  "bridge_free f \<longleftrightarrow> (\<forall>c. cx_writer (snd (f c)) = cx_writer c)
     \<and> (\<forall>c c'. plain_view c = plain_view c' \<longrightarrow> fst (f c) = fst (f c') \<and> plain_view (snd (f c)) = plain_view (snd (f c')))"

definition bridge_free_middleware :: "'w Context middleware_fn \<Rightarrow> bool" where
  "bridge_free_middleware m \<longleftrightarrow> (\<forall>next. bridge_free next \<longrightarrow> bridge_free (m next))"

named_theorems bridge_intros

lemma plain_view_eq:
  "plain_view c = plain_view c' \<longleftrightarrow> cx_resp c = cx_resp c' \<and> cx_data c = cx_data c'
     \<and> cx_streamingHandoff c = cx_streamingHandoff c' \<and> cx_world c = cx_world c'
     \<and> plain_request (cx_req c) = plain_request (cx_req c')"
  by (cases c; cases c') (auto simp: plain_view_def)

lemma bridge_free_D:
  assumes "bridge_free f"
  shows "cx_writer (snd (f c)) = cx_writer c"
    and "plain_view c = plain_view c' \<Longrightarrow> fst (f c) = fst (f c')"
    and "plain_view c = plain_view c' \<Longrightarrow> plain_view (snd (f c)) = plain_view (snd (f c'))"
  using assms unfolding bridge_free_def by blast+

lemma plain_body: "plain_view c = plain_view c' \<Longrightarrow> Context_body c = Context_body c'"
  unfolding plain_view_eq by (cases "cx_req c"; cases "cx_req c'") (simp add: Context_body_def plain_request_def)

lemma plain_marked [simp]: "plain_request (mark_async req) = plain_request req"
  by (simp add: plain_request_def mark_async_def)

section \<open>Actions that do not ask for the bridge\<close>

lemma bridge_free_resp [bridge_intros]: "bridge_free (\<lambda>c. (Inr x, with_resp f c))"
  by (auto simp: bridge_free_def with_resp_def plain_view_eq)

lemma bridge_free_set [bridge_intros]: "bridge_free (\<lambda>c. (Inr x, Context_set key val c))"
  by (auto simp: bridge_free_def Context_set_def plain_view_eq)

lemma bridge_free_status [bridge_intros]: "bridge_free (\<lambda>c. (Inr (response_status c), c))"
  by (auto simp: bridge_free_def response_status_def Context_status_def plain_view_eq)

lemma bridge_free_error [bridge_intros]: "bridge_free (\<lambda>c. (Inl e, c))"
  by (simp add: bridge_free_def)

lemma bridge_free_handoff [bridge_intros]: "bridge_free (\<lambda>c. (Inr x, Context_markStreamingHandoff c))"
  by (auto simp: bridge_free_def Context_markStreamingHandoff_def plain_view_eq)

lemma bridge_free_on_body:
  assumes "\<And>b. bridge_free (f b)"
  shows "bridge_free (\<lambda>c. f (Context_body c) c)"
  unfolding bridge_free_def
proof (intro conjI allI impI)
  show "cx_writer (snd (f (Context_body c) c)) = cx_writer c" for c by (rule bridge_free_D [OF assms])
  fix c c' :: "'a Context" assume eq: "plain_view c = plain_view c'"
  show "fst (f (Context_body c) c) = fst (f (Context_body c') c')"
    unfolding plain_body [OF eq] by (rule bridge_free_D(2) [OF assms eq])
  show "plain_view (snd (f (Context_body c) c)) = plain_view (snd (f (Context_body c') c'))"
    unfolding plain_body [OF eq] by (rule bridge_free_D(3) [OF assms eq])
qed

lemma act_bind_cases:
  "act_bind f g c = (case fst (f c) of Inl e \<Rightarrow> (Inl e, snd (f c)) | Inr x \<Rightarrow> g x (snd (f c)))"
  by (simp add: act_bind_def split: prod.split sum.split)

lemma bridge_free_bind [bridge_intros]:
  assumes f: "bridge_free f" and g: "\<And>x. bridge_free (g x)"
  shows "bridge_free (act_bind f g)"
  unfolding bridge_free_def
proof (intro conjI allI impI)
  show "cx_writer (snd (act_bind f g c)) = cx_writer c" for c
    unfolding act_bind_cases by (simp add: bridge_free_D(1) [OF f] bridge_free_D(1) [OF g] split: sum.split)
  fix c c' :: "'a Context" assume "plain_view c = plain_view c'"
  note eq = bridge_free_D(2,3) [OF f this]
  show "fst (act_bind f g c) = fst (act_bind f g c')"
    unfolding act_bind_cases eq(1) by (simp add: bridge_free_D(2) [OF g eq(2)] split: sum.split)
  show "plain_view (snd (act_bind f g c)) = plain_view (snd (act_bind f g c'))"
    unfolding act_bind_cases eq(1) by (simp add: bridge_free_D(3) [OF g eq(2)] eq(2) split: sum.split)
qed

lemma bridge_free_final [bridge_intros]:
  "bridge_free (call_handler h) \<Longrightarrow> bridge_free (final_handler h)"
  unfolding final_handler_def by (intro bridge_intros)

lemma bridge_free_around:
  assumes "bridge_free before" and "\<And>x. bridge_free (after x)"
  shows "bridge_free_middleware (around before after)"
  unfolding bridge_free_middleware_def around_def by (intro allI impI bridge_free_bind assms)

lemma bridge_free_guard:
  assumes "bridge_free refusal"
  shows "bridge_free_middleware (\<lambda>next c. (if ok (Context_body c) then next else refusal) c)"
  unfolding bridge_free_middleware_def
proof (intro allI impI)
  fix k :: "('a Context, int) act" assume k: "bridge_free k"
  show "bridge_free (\<lambda>c. (if ok (Context_body c) then k else refusal) c)"
    by (rule bridge_free_on_body [of "\<lambda>b. if ok b then k else refusal"]) (use k assms in simp)
qed

lemma bridge_free_chain:
  assumes "\<forall>e\<in>set chain. bridge_free_middleware (en_fn e)" and "bridge_free k"
  shows "bridge_free (chain_execute chain k)"
  using assms by (induction chain) (auto simp: bridge_free_middleware_def)

text \<open>A service for the witness: a handler that echoes the body behind a middleware that refuses an empty one.\<close>

definition echo :: "unit Handler" where
  "echo c = (Inr (), Context_json 200 (Context_body c) c)"

definition need_body :: "unit Context Entry" where
  "need_body = \<lparr>en_name = ''need_body'', en_fn = (\<lambda>next c.
     (if Context_body c \<noteq> [] then next else (\<lambda>c. (Inr 400, Context_error 400 ''no_body'' None c))) c)\<rparr>"

lemma echo_bridge_free: "bridge_free echo"
  unfolding echo_def [abs_def] Context_json_def
  by (rule bridge_free_on_body [of "\<lambda>b c. (Inr (), with_resp (\<lambda>r. (put_header ''Content-Type'' json_utf8
         (r\<lparr>hp_status_code := 200, hp_content := hp_content r @ [AssignApplicationJson]\<rparr>))\<lparr>hp_body := b\<rparr>) c)"])
    (rule bridge_free_resp)

lemma need_body_bridge_free: "bridge_free_middleware (en_fn need_body)"
proof -
  have "bridge_free (\<lambda>c :: unit Context. (Inr 400 :: exn + int, Context_error 400 ''no_body'' None c))"
    unfolding Context_error_def by (rule bridge_free_resp)
  from bridge_free_guard [OF this, of "\<lambda>b. b \<noteq> []"] show ?thesis by (simp add: need_body_def)
qed

section \<open>The two bridges agree\<close>

text \<open>
  C9: A handler and middleware that neither use the writer nor look for the mark of an asynchronous request
  give the same answer through both bridges: the same response object, stored values and effects.  The
  bridges differ only in the rest: the synchronous one returns the status (200 for 0) or lets the
  exception out; the asynchronous one swallows it and ends the response, exactly once, unless the handler
  has handed it over and has not thrown.
\<close>

theorem Router_bridges_agree:
  fixes w :: 'w
  assumes "\<forall>e\<in>set chain. bridge_free_middleware (en_fn e)" and "bridge_free h"
    and "lib_send_begin lib (wr_calls wr)"
  shows "case makeSyncHandler (Some h) chain req resp w of
      (result, c) \<Rightarrow>
        let c' = async_context lib chain (Some h) (mark_async req, resp, Some wr) w;
            ended = Some (wr\<lparr>wr_calls := wr_calls wr @ [EndCall]\<rparr>)
        in cx_resp c' = cx_resp c \<and> cx_data c' = cx_data c \<and> cx_world c' = cx_world c
           \<and> Context_isStreamingHandoff c' = Context_isStreamingHandoff c
           \<and> (case result of
                Inl e \<Rightarrow> cx_writer c' = ended
              | Inr status \<Rightarrow> status = (if hp_status_code (cx_resp c') = 0 then 200 else hp_status_code (cx_resp c'))
                  \<and> cx_writer c' = (if Context_isStreamingHandoff c then Some wr else ended))"
proof -
  let ?k = "final_handler (Some h)" and ?s = "Context_sync req resp w" and ?a = "Context_async (mark_async req) resp (Some wr) w"
  have "bridge_free ?k" using assms(2) by (intro bridge_intros) (simp add: call_handler_def)
  then have run: "bridge_free (chain_execute chain ?k)" by (rule bridge_free_chain [OF assms(1)])
  have "plain_view ?s = plain_view ?a" by (simp add: plain_view_eq Context_sync_def Context_async_def)
  note fst = bridge_free_D(2) [OF run this] and view = bridge_free_D(3) [OF run this]
  have wr: "cx_writer (snd (chain_execute chain ?k ?a)) = Some wr"
    unfolding bridge_free_D(1) [OF run] by (simp add: Context_async_def)
  obtain r c c1 where s: "chain_execute chain ?k ?s = (r, c)" and a: "chain_execute chain ?k ?a = (r, c1)"
    using fst by (metis prod.collapse)
  note fields = view [unfolded s a snd_conv plain_view_eq]
  have "cx_writer c1 = Some wr" using wr a by simp
  then show ?thesis
    using assms(3) fields
    by (cases r) (auto simp: makeSyncHandler_def async_context_def s a Let_def write_call_def response_status_def
        Context_status_def Context_isStreamingHandoff_def)
qed

lemma Router_bridges_agree_witness:
  "cx_writer (async_context demo_lib [need_body] (Some echo) (mark_async (demo_request\<lparr>hr_body := ''hi''\<rparr>), demo_response, Some demo_writer) ())
     = Some (demo_writer\<lparr>wr_calls := [EndCall]\<rparr>)
   \<and> cx_resp (async_context demo_lib [need_body] (Some echo) (mark_async (demo_request\<lparr>hr_body := ''hi''\<rparr>), demo_response, Some demo_writer) ())
     = cx_resp (snd (makeSyncHandler (Some echo) [need_body] (demo_request\<lparr>hr_body := ''hi''\<rparr>) demo_response ()))"
proof -
  have "\<forall>e\<in>set [need_body]. bridge_free_middleware (en_fn e)" using need_body_bridge_free by simp
  moreover have "lib_send_begin demo_lib (wr_calls demo_writer)" by (simp add: demo_lib_def demo_writer_def)
  moreover have "\<not> Context_isStreamingHandoff (snd (makeSyncHandler (Some echo) [need_body] (demo_request\<lparr>hr_body := ''hi''\<rparr>) demo_response ()))"
    by (simp add: makeSyncHandler_def final_handler_def call_handler_def need_body_def echo_def act_bind_def
        Context_sync_def Context_json_def Context_error_def with_resp_def Context_isStreamingHandoff_def
        split: prod.split sum.split)
  ultimately show ?thesis
    using Router_bridges_agree [OF _ echo_bridge_free, of "[need_body]" demo_lib demo_writer "demo_request\<lparr>hr_body := ''hi''\<rparr>" demo_response "()"]
    by (simp add: Let_def demo_writer_def split: prod.splits sum.splits)
qed

end
