(* ===== verification/Application.thy ===== *)
theory Application imports Router begin

text \<open>
  The two owners of a server: \<open>Application\<close> (\<open>src/src/Application.cpp\<close>) and \<open>HvServerTransport\<close>
  (\<open>src/src/HvTransport.cpp\<close>).  The server object of the library is a record of the members that the code
  reads and assigns; \<open>newSslCtx\<close> and \<open>start\<close> of the library are arguments (what they return).  \<open>cap\<close> is the
  size of the library's array \<open>host\<close>.
\<close>

section \<open>The server of the library\<close>

record hv_server =
  hs_host :: string
  hs_port :: int
  hs_https_port :: int
  hs_worker_threads :: int
  hs_ssl :: "(string \<times> string) option"     \<comment> \<open>certificate and key given to \<open>newSslCtx\<close>\<close>

definition copy_host :: "nat \<Rightarrow> string \<Rightarrow> hv_server \<Rightarrow> hv_server" where
  "copy_host cap host s = s\<lparr>hs_host := take (cap - 1) (c_str host)\<rparr>"

section \<open>\<open>Application\<close>\<close>

datatype static_call = Static string string | Proxy string string

record 'w Application =
  ap_service :: "'w HttpService"
  ap_server :: hv_server
  ap_httpsPort :: int
  ap_allowedServerNames :: "string set"
  ap_headerHandler :: "'w hv_callback option"
  ap_use :: "'w hv_callback list"
  ap_static :: "static_call list"
  ap_keepalive_timeout :: int
  ap_limit_rate :: int
  ap_proxy_timeouts :: "int \<times> int \<times> int"

definition Application_setHeaderHandler :: "('w Context, int) act \<Rightarrow> 'w Application \<Rightarrow> 'w Application" where
  "Application_setHeaderHandler fn a = a\<lparr>ap_headerHandler := Some (sync_callback fn)\<rparr>"

definition Application_use :: "('w Context, int) act \<Rightarrow> 'w Application \<Rightarrow> 'w Application" where
  "Application_use fn a = a\<lparr>ap_use := ap_use a @ [sync_callback fn]\<rparr>"

definition Application_setErrorHandler :: "('w Context, int) act \<Rightarrow> 'w Application \<Rightarrow> 'w Application" where
  "Application_setErrorHandler fn a = a\<lparr>ap_service := (ap_service a)\<lparr>sv_errorHandler := Some (sync_callback fn)\<rparr>\<rparr>"

definition Application_setPostprocessor :: "('w Context, int) act \<Rightarrow> 'w Application \<Rightarrow> 'w Application" where
  "Application_setPostprocessor fn a = a\<lparr>ap_service := (ap_service a)\<lparr>sv_postprocessor := Some (sync_callback fn)\<rparr>\<rparr>"

definition Application_setDocumentRoot :: "string \<Rightarrow> 'w Application \<Rightarrow> 'w Application" where
  "Application_setDocumentRoot p a = a\<lparr>ap_service := (ap_service a)\<lparr>sv_document_root := p\<rparr>\<rparr>"

definition Application_mountStatic :: "string \<Rightarrow> string \<Rightarrow> 'w Application \<Rightarrow> 'w Application" where
  "Application_mountStatic prefix dir a = a\<lparr>ap_static := ap_static a @ [Static prefix dir]\<rparr>"

definition Application_proxy :: "string \<Rightarrow> string \<Rightarrow> 'w Application \<Rightarrow> 'w Application" where
  "Application_proxy prefix target a = a\<lparr>ap_static := ap_static a @ [Proxy prefix target]\<rparr>"

definition Application_mount :: "'w Router \<Rightarrow> 'w Application \<Rightarrow> 'w Application" where
  "Application_mount r a = a\<lparr>ap_service := Router_bind r (ap_service a)\<rparr>"

definition Application_setHost :: "nat \<Rightarrow> string \<Rightarrow> 'w Application \<Rightarrow> 'w Application" where
  "Application_setHost cap host a = a\<lparr>ap_server := copy_host cap host (ap_server a)\<rparr>"

definition Application_setPort :: "int \<Rightarrow> 'w Application \<Rightarrow> 'w Application" where
  "Application_setPort port a = a\<lparr>ap_server := (ap_server a)\<lparr>hs_port := port\<rparr>\<rparr>"

definition Application_setHttpsPort :: "int \<Rightarrow> 'w Application \<Rightarrow> 'w Application" where
  "Application_setHttpsPort port a = a\<lparr>ap_httpsPort := port\<rparr>"

definition Application_setWorkerThreads :: "int \<Rightarrow> 'w Application \<Rightarrow> 'w Application" where
  "Application_setWorkerThreads n a = a\<lparr>ap_server := (ap_server a)\<lparr>hs_worker_threads := n\<rparr>\<rparr>"

definition Application_setKeepaliveTimeout :: "int \<Rightarrow> 'w Application \<Rightarrow> 'w Application" where
  "Application_setKeepaliveTimeout ms a = a\<lparr>ap_keepalive_timeout := ms\<rparr>"

definition Application_setLimitRate :: "int \<Rightarrow> 'w Application \<Rightarrow> 'w Application" where
  "Application_setLimitRate kbps a = a\<lparr>ap_limit_rate := kbps\<rparr>"

definition Application_setProxyTimeout :: "int \<Rightarrow> int \<Rightarrow> int \<Rightarrow> 'w Application \<Rightarrow> 'w Application" where
  "Application_setProxyTimeout connectMs readMs writeMs a = a\<lparr>ap_proxy_timeouts := (connectMs, readMs, writeMs)\<rparr>"

subsection \<open>Server names\<close>

text \<open>The tokens that \<open>std::getline(iss, token, ',')\<close> delivers.\<close>

function comma_tokens :: "string \<Rightarrow> string list" where
  "comma_tokens s =
     (if s = [] then []
      else takeWhile (\<lambda>ch. ch \<noteq> CHR '','') s # comma_tokens (drop 1 (dropWhile (\<lambda>ch. ch \<noteq> CHR '','') s)))"
  by pat_completeness auto

termination
proof (relation "measure length")
  fix s :: string
  assume "s \<noteq> []"
  then have "0 < length s" by simp
  then show "(drop 1 (dropWhile (\<lambda>ch. ch \<noteq> CHR '','') s), s) \<in> measure length"
    using length_dropWhile_le [of "\<lambda>ch. ch \<noteq> CHR '',''" s] by (simp only: in_measure length_drop)
qed simp

declare comma_tokens.simps [simp del]

definition trim_blank :: "string \<Rightarrow> string" where
  "trim_blank s = rev (dropWhile is_blank (rev (dropWhile is_blank s)))"

definition add_server_name :: "string \<Rightarrow> string set \<Rightarrow> string set" where
  "add_server_name token names =
     (if list_all is_blank token then names else insert (to_lower (trim_blank token)) names)"

definition Application_setServerName :: "string \<Rightarrow> 'w Application \<Rightarrow> 'w Application" where
  "Application_setServerName names a =
     a\<lparr>ap_allowedServerNames := fold add_server_name (comma_tokens names) {}\<rparr>"

definition strip_port :: "string \<Rightarrow> string" where
  "strip_port host =
     (case rfind_char (CHR '':'') host of
        None \<Rightarrow> host
      | Some colonPos \<Rightarrow>
          (case rfind_char (CHR '']'') host of
             None \<Rightarrow> take colonPos host
           | Some bracket \<Rightarrow> if bracket < colonPos then take colonPos host else host))"

definition isAllowedHost :: "'w Application \<Rightarrow> string \<Rightarrow> bool" where
  "isAllowedHost a hostHeader \<longleftrightarrow>
     (if ap_allowedServerNames a = {} then True
      else to_lower (strip_port hostHeader) \<in> ap_allowedServerNames a)"

subsection \<open>TLS and lifecycle\<close>

definition enableSsl :: "int \<Rightarrow> string \<Rightarrow> string \<Rightarrow> 'w Application \<Rightarrow> bool \<times> 'w Application" where
  "enableSsl newSslCtx certFile keyFile a =
     (let s1 = (ap_server a)\<lparr>hs_port := 0\<rparr>;
          s2 = s1\<lparr>hs_https_port := (if 0 < ap_httpsPort a then ap_httpsPort a else hs_port s1)\<rparr>
      in (newSslCtx = 0, a\<lparr>ap_server := s2\<lparr>hs_ssl := Some (c_str certFile, c_str keyFile)\<rparr>\<rparr>))"

definition Application_start :: "('w HttpService \<Rightarrow> hv_server \<Rightarrow> int) \<Rightarrow> 'w Application \<Rightarrow> int" where
  "Application_start lib_start a = lib_start (ap_service a) (ap_server a)"

text \<open>What \<open>stop\<close> of the library leaves of the server is an argument, and so is its number of connections.\<close>

definition Application_stop :: "(hv_server \<Rightarrow> hv_server) \<Rightarrow> 'w Application \<Rightarrow> 'w Application" where
  "Application_stop lib_stop a = a\<lparr>ap_server := lib_stop (ap_server a)\<rparr>"

definition int_of_size :: "size_t \<Rightarrow> int" where
  "int_of_size n = sint (ucast n :: 32 word)"

definition connectionNum :: "(hv_server \<Rightarrow> size_t) \<Rightarrow> 'w Application \<Rightarrow> int" where
  "connectionNum lib_connectionNum a = int_of_size (lib_connectionNum (ap_server a))"

definition workerThreadsCount :: "'w Application \<Rightarrow> int" where
  "workerThreadsCount a = hs_worker_threads (ap_server a)"

section \<open>\<open>HvServerTransport\<close>\<close>

record 'w HvServerTransport =
  ht_server :: hv_server
  ht_service :: "'w HttpService"
  ht_router :: "'w Router option"
  ht_port :: int
  ht_https :: bool
  ht_certPath :: string
  ht_keyPath :: string

definition HvServerTransport_ctor :: "nat \<Rightarrow> hv_server \<Rightarrow> 'w HttpService \<Rightarrow> 'w HvServerTransport" where
  "HvServerTransport_ctor cap server service =
     \<lparr>ht_server = copy_host cap ''0.0.0.0'' server, ht_service = service, ht_router = None, ht_port = 8080,
      ht_https = False, ht_certPath = [], ht_keyPath = []\<rparr>"

definition HvServerTransport_setHost :: "nat \<Rightarrow> string \<Rightarrow> 'w HvServerTransport \<Rightarrow> 'w HvServerTransport" where
  "HvServerTransport_setHost cap host t = t\<lparr>ht_server := copy_host cap host (ht_server t)\<rparr>"

definition HvServerTransport_setPort :: "int \<Rightarrow> 'w HvServerTransport \<Rightarrow> 'w HvServerTransport" where
  "HvServerTransport_setPort port t = t\<lparr>ht_port := port\<rparr>"

definition HvServerTransport_setHttps :: "string \<Rightarrow> string \<Rightarrow> 'w HvServerTransport \<Rightarrow> 'w HvServerTransport" where
  "HvServerTransport_setHttps cert key t = t\<lparr>ht_https := True, ht_certPath := cert, ht_keyPath := key\<rparr>"

definition HvServerTransport_setDocumentRoot :: "string \<Rightarrow> 'w HvServerTransport \<Rightarrow> 'w HvServerTransport" where
  "HvServerTransport_setDocumentRoot p t = t\<lparr>ht_service := (ht_service t)\<lparr>sv_document_root := p\<rparr>\<rparr>"

definition HvServerTransport_setRouter :: "'w Router option \<Rightarrow> 'w HvServerTransport \<Rightarrow> 'w HvServerTransport" where
  "HvServerTransport_setRouter r t = t\<lparr>ht_router := r\<rparr>"

definition HvServerTransport_start ::
  "int \<Rightarrow> ('w HttpService \<Rightarrow> hv_server \<Rightarrow> int) \<Rightarrow> 'w HvServerTransport \<Rightarrow> int \<times> 'w HvServerTransport" where
  "HvServerTransport_start newSslCtx lib_start t =
     (let service = (case ht_router t of None \<Rightarrow> ht_service t | Some r \<Rightarrow> Router_bind r (ht_service t));
          t1 = t\<lparr>ht_service := service\<rparr>
      in if ht_https t
         then
           (let s = (ht_server t)\<lparr>hs_port := 0, hs_https_port := ht_port t,
                       hs_ssl := Some (c_str (ht_certPath t), c_str (ht_keyPath t))\<rparr>;
                t2 = t1\<lparr>ht_server := s\<rparr>
            in if newSslCtx \<noteq> 0 then (-1, t2) else (lib_start service s, t2))
         else
           (let s = (ht_server t)\<lparr>hs_port := ht_port t, hs_https_port := 0\<rparr>
            in (lib_start service s, t1\<lparr>ht_server := s\<rparr>)))"

definition HvServerTransport_stop :: "(hv_server \<Rightarrow> hv_server) \<Rightarrow> 'w HvServerTransport \<Rightarrow> 'w HvServerTransport" where
  "HvServerTransport_stop lib_stop t = t\<lparr>ht_server := lib_stop (ht_server t)\<rparr>"

definition connectionCount :: "(hv_server \<Rightarrow> size_t) \<Rightarrow> 'w HvServerTransport \<Rightarrow> int" where
  "connectionCount lib_connectionNum t = int_of_size (lib_connectionNum (ht_server t))"

definition HvServerTransport_type :: "'w HvServerTransport \<Rightarrow> string" where
  "HvServerTransport_type t = (if ht_https t then ''https/1.1'' else ''http/1.1'')"

section \<open>Which hosts are allowed\<close>

fun join_commas :: "string list \<Rightarrow> string" where
  "join_commas [] = []"
| "join_commas [n] = n"
| "join_commas (n # m # ns) = n @ '','' @ join_commas (m # ns)"

definition server_name_ok :: "string \<Rightarrow> bool" where
  "server_name_ok n \<longleftrightarrow> n \<noteq> [] \<and> CHR '','' \<notin> set n \<and> (\<forall>ch\<in>set n. \<not> is_blank ch)"

lemma comma_tokens_last: "CHR '','' \<notin> set n \<Longrightarrow> n \<noteq> [] \<Longrightarrow> comma_tokens n = [n]"
proof -
  assume n: "CHR '','' \<notin> set n" "n \<noteq> []"
  then have "takeWhile (\<lambda>ch. ch \<noteq> CHR '','') n = n" "dropWhile (\<lambda>ch. ch \<noteq> CHR '','') n = []"
    by (auto simp: takeWhile_eq_all_conv dropWhile_eq_Nil_conv)
  then have "comma_tokens n = n # comma_tokens []" using n(2)
    by (subst comma_tokens.simps) (simp del: takeWhile_eq_all_conv dropWhile_eq_Nil_conv)
  then show ?thesis by (simp add: comma_tokens.simps [of "[]"])
qed

lemma comma_tokens_more: "CHR '','' \<notin> set n \<Longrightarrow> comma_tokens (n @ CHR '','' # s) = n # comma_tokens s"
proof -
  assume n: "CHR '','' \<notin> set n"
  then have "takeWhile (\<lambda>ch. ch \<noteq> CHR '','') (n @ CHR '','' # s) = n"
    "dropWhile (\<lambda>ch. ch \<noteq> CHR '','') (n @ CHR '','' # s) = CHR '','' # s"
    by (auto simp: takeWhile_append dropWhile_append)
  then show ?thesis by (subst comma_tokens.simps) simp
qed

lemma comma_tokens_join:
  "list_all server_name_ok ns \<Longrightarrow> comma_tokens (join_commas ns) = ns"
proof (induction ns rule: join_commas.induct)
  case 1
  then show ?case by (simp add: comma_tokens.simps)
next
  case (2 n)
  then show ?case by (simp add: comma_tokens_last server_name_ok_def)
next
  case (3 n m ns)
  then show ?case by (simp add: comma_tokens_more server_name_ok_def)
qed

lemma trim_blank_id: "\<forall>ch\<in>set n. \<not> is_blank ch \<Longrightarrow> trim_blank n = n"
proof -
  assume n: "\<forall>ch\<in>set n. \<not> is_blank ch"
  then have "dropWhile is_blank n = n" "dropWhile is_blank (rev n) = rev n"
    by (cases n; simp) (cases "rev n"; use n in \<open>auto simp: dropWhile_eq_self_iff dest: hd_in_set\<close>)
  then show ?thesis by (simp add: trim_blank_def)
qed

lemma add_server_names:
  "list_all server_name_ok ns \<Longrightarrow> fold add_server_name ns S = to_lower ` set ns \<union> S"
proof (induction ns arbitrary: S)
  case (Cons n ns)
  then have n: "server_name_ok n" by simp
  then have "\<not> list_all is_blank n"
    by (cases n) (auto simp: server_name_ok_def)
  then have "add_server_name n S = insert (to_lower n) S"
    using n by (simp add: add_server_name_def server_name_ok_def trim_blank_id)
  then show ?case using Cons by simp
qed simp

lemma blank_names: "list_all (list_all is_blank) ts \<Longrightarrow> fold add_server_name ts S = S"
  by (induction ts) (simp_all add: add_server_name_def)

lemma rfind_char_none: "ch \<notin> set s \<Longrightarrow> rfind_char ch s = None"
  by (auto simp: rfind_char_def)

lemma rfind_char_hit:
  assumes "ch \<notin> set t"
  shows "rfind_char ch (s @ ch # t) = Some (length s)"
proof -
  have "find_idx (\<lambda>x. x = ch) (rev t @ ch # rev s) = Some (length (rev t))"
    by (rule find_idx_hit) (use assms in auto)
  then show ?thesis by (simp add: rfind_char_def)
qed

lemma strip_port_bare: "CHR '':'' \<notin> set host \<Longrightarrow> strip_port host = host"
  by (simp add: strip_port_def rfind_char_none)

lemma rfind_char_before:
  assumes "ch \<notin> set t"
  shows "rfind_char ch (s @ t) = rfind_char ch s"
proof (cases "ch \<in> set s")
  case False
  then show ?thesis using assms by (simp add: rfind_char_none)
next
  case True
  then obtain u v where s: "s = u @ ch # v" "ch \<notin> set v" by (metis split_list_last)
  then show ?thesis using assms rfind_char_hit [of ch "v @ t" u] rfind_char_hit [of ch v u] by simp
qed

lemma rfind_char_length: "rfind_char ch s = Some i \<Longrightarrow> i < length s"
  by (auto simp: rfind_char_def find_idx_Some)

lemma strip_port_suffix:
  assumes "CHR '':'' \<notin> set port" and "CHR '']'' \<notin> set port"
  shows "strip_port (host @ CHR '':'' # port) = host"
proof -
  have "CHR '']'' \<notin> set (CHR '':'' # port)" using assms by simp
  then have "rfind_char (CHR '']'') (host @ CHR '':'' # port) = rfind_char (CHR '']'') host"
    by (rule rfind_char_before)
  then show ?thesis using rfind_char_length [of "CHR '']''" host]
    by (auto simp: strip_port_def rfind_char_hit assms split: option.splits)
qed

text \<open>
  C13: After \<open>setServerName\<close> with a comma-separated list, a \<open>Host\<close> header is accepted exactly if its host,
  without the port and in any case, is one of the names; a bracketed IPv6 address keeps its colons.  An
  argument of blanks and commas only leaves the list empty, and then every host is accepted.
\<close>

theorem Application_allowed_hosts:
  assumes "list_all server_name_ok ns" and "ns \<noteq> []" and "CHR '':'' \<notin> set host"
    and "CHR '':'' \<notin> set port" and "CHR '']'' \<notin> set port"
  shows "(isAllowedHost (Application_setServerName (join_commas ns) a) host
      \<longleftrightarrow> to_lower host \<in> to_lower ` set ns)
    \<and> (isAllowedHost (Application_setServerName (join_commas ns) a) (any @ CHR '':'' # port)
      \<longleftrightarrow> to_lower any \<in> to_lower ` set ns)
    \<and> strip_port (addr @ [CHR '']'']) = addr @ [CHR '']'']
    \<and> isAllowedHost (Application_setServerName '' , ,'' a) any"
proof -
  have names: "ap_allowedServerNames (Application_setServerName (join_commas ns) a) = to_lower ` set ns"
    using assms(1) by (simp add: Application_setServerName_def comma_tokens_join add_server_names)
  moreover have "to_lower ` set ns \<noteq> {}" using assms(2) by simp
  ultimately have allowed: "isAllowedHost (Application_setServerName (join_commas ns) a) h
      \<longleftrightarrow> to_lower (strip_port h) \<in> to_lower ` set ns" for h
    by (simp add: isAllowedHost_def)
  have bracket: "strip_port (addr @ [CHR '']'']) = addr @ [CHR '']'']"
    using rfind_char_hit [of "CHR '']''" "[]" addr] rfind_char_before [of "CHR '':''" "[CHR '']'']" addr]
      rfind_char_length [of "CHR '':''" addr]
    by (auto simp: strip_port_def split: option.splits dest: order.strict_trans)
  have "comma_tokens '' , ,'' = ['' '', '' '']"
    by (simp add: comma_tokens.simps)
  then have "ap_allowedServerNames (Application_setServerName '' , ,'' a) = {}"
    by (simp add: Application_setServerName_def add_server_name_def is_blank_def)
  then have "isAllowedHost (Application_setServerName '' , ,'' a) any" by (simp add: isAllowedHost_def)
  then show ?thesis
    by (simp add: allowed strip_port_bare assms strip_port_suffix bracket)
qed

definition demo_service :: "unit HttpService" where
  "demo_service = \<lparr>sv_calls = [], sv_postprocessor = None, sv_errorHandler = None, sv_document_root = []\<rparr>"

definition demo_server :: hv_server where
  "demo_server = \<lparr>hs_host = [], hs_port = 0, hs_https_port = 0, hs_worker_threads = 0, hs_ssl = None\<rparr>"

definition demo_application :: "unit Application" where
  "demo_application = \<lparr>ap_service = demo_service, ap_server = demo_server, ap_httpsPort = 0,
     ap_allowedServerNames = {}, ap_headerHandler = None, ap_use = [], ap_static = [], ap_keepalive_timeout = 75000,
     ap_limit_rate = -1, ap_proxy_timeouts = (0, 0, 0)\<rparr>"

lemma Application_allowed_hosts_witness:
  "isAllowedHost (Application_setServerName (join_commas [''Example.com'', ''b.org'']) demo_application) ''EXAMPLE.COM''
   \<and> isAllowedHost (Application_setServerName (join_commas [''Example.com'', ''b.org'']) demo_application)
       (''B.org'' @ CHR '':'' # ''9339'')
   \<and> \<not> isAllowedHost (Application_setServerName (join_commas [''Example.com'', ''b.org'']) demo_application)
       (''evil.com'' @ CHR '':'' # ''9339'')"
proof -
  have ok: "list_all server_name_ok [''Example.com'', ''b.org'']"
    by (simp add: server_name_ok_def is_blank_def)
  note r = Application_allowed_hosts [OF ok, of "''EXAMPLE.COM''" "''9339''" demo_application]
  have l: "to_lower ''EXAMPLE.COM'' = ''example.com''" "to_lower ''B.org'' = ''b.org''"
    "to_lower ''b.org'' = ''b.org''" "to_lower ''Example.com'' = ''example.com''" "to_lower ''evil.com'' = ''evil.com''"
    by code_simp+
  show ?thesis using r [of "''B.org''"] r [of "''evil.com''"]
    by (simp add: l)
qed

section \<open>The ports of a TLS server\<close>

text \<open>
  \<open>HvServerTransport\<close> serves on the configured port, with TLS or without, with all routes of the router
  bound, and does not start when the certificate is refused.  \<open>Application::enableSsl\<close> clears the plain port
  before it takes it as the default of the TLS port: without \<open>setHttpsPort\<close> the server is left with no
  port at all.
\<close>

theorem Server_tls_ports:
  "(case HvServerTransport_start n start (HvServerTransport_setHttps cert key
           (HvServerTransport_setRouter (Some r) (HvServerTransport_setPort p t))) of
      (ret, t') \<Rightarrow>
        ret = (if n = 0 then start (Router_bind r (ht_service t)) (ht_server t') else -1)
        \<and> hs_port (ht_server t') = 0 \<and> hs_https_port (ht_server t') = p
        \<and> hs_ssl (ht_server t') = Some (c_str cert, c_str key))
   \<and> (case HvServerTransport_start n start (HvServerTransport_setRouter (Some r)
           (HvServerTransport_setPort p (HvServerTransport_ctor cap server service))) of
        (ret, t') \<Rightarrow>
          ret = start (Router_bind r service) (ht_server t')
          \<and> hs_port (ht_server t') = p \<and> hs_https_port (ht_server t') = 0)
   \<and> (case enableSsl n cert key (Application_setPort p (Application_setHttpsPort q a)) of
        (ok, a') \<Rightarrow>
          (ok \<longleftrightarrow> n = 0) \<and> hs_port (ap_server a') = 0
          \<and> hs_https_port (ap_server a') = (if 0 < q then q else 0))"
  by (simp add: HvServerTransport_start_def HvServerTransport_setHttps_def HvServerTransport_setRouter_def
      HvServerTransport_setPort_def HvServerTransport_ctor_def enableSsl_def Application_setPort_def
      Application_setHttpsPort_def Let_def)

end
