(* ===== verification/FileHeaders.thy ===== *)
theory FileHeaders imports Context begin

text \<open>
  The \<open>Content-Disposition\<close> header of a download (\<open>src/src/FileTransferHeaders.hpp\<close>): a quoted fallback
  name in ASCII and the whole name percent-encoded after RFC 8187.
\<close>

definition hex_digit :: "nat \<Rightarrow> char" where
  "hex_digit n = ''0123456789ABCDEF'' ! n"

definition fallback_char :: "char \<Rightarrow> char" where
  "fallback_char ch =
     (if 0x20 \<le> byte ch \<and> byte ch < 0x7F \<and> ch \<noteq> CHR 0x22 \<and> ch \<noteq> CHR 0x5C then ch else CHR ''_'')"

definition attr_char :: "char \<Rightarrow> bool" where
  "attr_char ch \<longleftrightarrow> is_lower ch \<or> is_upper ch \<or> is_digit ch
     \<or> ch \<in> set [CHR ''!'', CHR ''#'', CHR ''$'', CHR ''&'', CHR ''+'', CHR ''-'', CHR ''.'', CHR 0x5E, CHR ''_'',
               CHR 0x60, CHR ''|'', CHR 0x7E]"

definition encode_char :: "char \<Rightarrow> string" where
  "encode_char ch =
     (if attr_char ch then [ch] else [CHR ''%'', hex_digit (byte ch div 16), hex_digit (byte ch mod 16)])"

definition fileContentDisposition :: "string \<Rightarrow> bool \<Rightarrow> string" where
  "fileContentDisposition name inlineDisposition =
     (if inlineDisposition then ''inline'' else ''attachment'') @ ''; filename='' @ [CHR 0x22]
       @ map fallback_char name @ [CHR 0x22] @ ''; filename*=UTF-8'' @ [CHR 0x27, CHR 0x27]
       @ concat (map encode_char name)"

section \<open>Reading it back\<close>

definition hex_value :: "char \<Rightarrow> nat" where
  "hex_value ch = (if is_digit ch then byte ch - 48 else byte ch - 55)"

text \<open>Percent-decoding of an extended value; a character that RFC 8187 does not allow makes it fail.\<close>

fun percent_decode :: "string \<Rightarrow> string option" where
  "percent_decode [] = Some []"
| "percent_decode (ch # s) =
     (if ch = CHR ''%''
      then (case s of
              a # b # s' \<Rightarrow> map_option (\<lambda>r. char_of (16 * hex_value a + hex_value b) # r) (percent_decode s')
            | _ \<Rightarrow> None)
      else if attr_char ch then map_option (\<lambda>r. ch # r) (percent_decode s) else None)"

text \<open>The two names of the header: what stands between the quotes, and what follows the two quote signs.\<close>

definition quoted_name :: "string \<Rightarrow> string" where
  "quoted_name s = takeWhile (\<lambda>ch. ch \<noteq> CHR 0x22) (drop 1 (dropWhile (\<lambda>ch. ch \<noteq> CHR 0x22) s))"

definition extended_name :: "string \<Rightarrow> string" where
  "extended_name s = drop 2 (dropWhile (\<lambda>ch. ch \<noteq> CHR 0x27)
     (drop 1 (dropWhile (\<lambda>ch. ch \<noteq> CHR 0x22) (drop 1 (dropWhile (\<lambda>ch. ch \<noteq> CHR 0x22) s)))))"

lemma hex_digit_facts:
  "n < 16 \<Longrightarrow> hex_value (hex_digit n) = n \<and> byte (hex_digit n) \<ge> 48 \<and> byte (hex_digit n) < 71"
proof -
  have "\<forall>n\<in>set [0..<16]. hex_value (hex_digit n) = n \<and> byte (hex_digit n) \<ge> 48 \<and> byte (hex_digit n) < 71"
    by (simp add: upt_rec hex_value_def hex_digit_def is_digit_def byte_def)
  moreover assume "n < 16"
  ultimately show ?thesis by simp
qed

lemma percent_not_attr: "\<not> attr_char (CHR ''%'')"
  by (simp add: attr_char_def is_lower_def is_upper_def is_digit_def byte_def)

lemma decode_encode: "percent_decode (concat (map encode_char name)) = Some name"
proof (induction name)
  case (Cons ch name)
  show ?case
  proof (cases "attr_char ch")
    case True
    then have "ch \<noteq> CHR ''%''" using percent_not_attr by auto
    then show ?thesis using True Cons by (simp add: encode_char_def)
  next
    case False
    have "byte ch div 16 < 16" "byte ch mod 16 < 16" using byte_less [of ch] by (simp_all add: less_mult_imp_div_less)
    then have "16 * hex_value (hex_digit (byte ch div 16)) + hex_value (hex_digit (byte ch mod 16)) = byte ch"
      using hex_digit_facts by simp
    moreover have "char_of (byte ch) = ch" by (simp add: byte_def)
    ultimately show ?thesis using False Cons by (simp add: encode_char_def)
  qed
qed simp

definition visible_char :: "char \<Rightarrow> bool" where
  "visible_char ch \<longleftrightarrow> 0x20 \<le> byte ch \<and> byte ch < 0x7F"

lemma attr_char_visible: "attr_char ch \<Longrightarrow> visible_char ch \<and> ch \<noteq> CHR 0x22 \<and> ch \<noteq> CHR 0x27"
  by (auto simp: attr_char_def visible_char_def is_lower_def is_upper_def is_digit_def byte_def)

lemma encode_char_visible: "list_all visible_char (encode_char ch)"
proof (cases "attr_char ch")
  case True
  then show ?thesis using attr_char_visible by (simp add: encode_char_def)
next
  case False
  have "byte ch div 16 < 16" "byte ch mod 16 < 16" using byte_less [of ch] by (simp_all add: less_mult_imp_div_less)
  then have "visible_char (hex_digit (byte ch div 16))" "visible_char (hex_digit (byte ch mod 16))"
    using hex_digit_facts [of "byte ch div 16"] hex_digit_facts [of "byte ch mod 16"] by (auto simp: visible_char_def)
  moreover have "visible_char (CHR ''%'')" by (simp add: visible_char_def byte_def)
  ultimately show ?thesis using False by (simp add: encode_char_def)
qed

lemma fallback_char_safe [simp]:
  "visible_char (fallback_char ch)" "fallback_char ch \<noteq> CHR 0x22" "fallback_char ch \<noteq> CHR 0x5C"
  by (simp_all add: fallback_char_def visible_char_def byte_def)

lemma dropWhile_until: "list_all (\<lambda>x. x \<noteq> c) xs \<Longrightarrow> dropWhile (\<lambda>x. x \<noteq> c) (xs @ c # ys) = c # ys"
  by (induction xs) auto

lemma takeWhile_until: "list_all (\<lambda>x. x \<noteq> c) xs \<Longrightarrow> takeWhile (\<lambda>x. x \<noteq> c) (xs @ c # ys) = xs"
  by (induction xs) auto

lemma disposition_quoted: "quoted_name (fileContentDisposition name i) = map fallback_char name"
proof -
  let ?kind = "(if i then ''inline'' else ''attachment'') @ ''; filename=''"
  let ?rest = "''; filename*=UTF-8'' @ [CHR 0x27, CHR 0x27] @ concat (map encode_char name)"
  have "fileContentDisposition name i = ?kind @ CHR 0x22 # map fallback_char name @ CHR 0x22 # ?rest"
    by (simp add: fileContentDisposition_def)
  moreover have "list_all (\<lambda>x. x \<noteq> CHR 0x22) ?kind" by simp
  moreover have "list_all (\<lambda>x. x \<noteq> CHR 0x22) (map fallback_char name)"
    by (simp add: list.pred_map comp_def list_all_iff)
  ultimately show ?thesis by (simp only: quoted_name_def dropWhile_until takeWhile_until drop0 drop_Suc_Cons One_nat_def)
qed

lemma disposition_extended:
  "extended_name (fileContentDisposition name i) = concat (map encode_char name)"
proof -
  let ?kind = "(if i then ''inline'' else ''attachment'') @ ''; filename=''"
  let ?enc = "CHR 0x27 # concat (map encode_char name)"
  have "fileContentDisposition name i
      = ?kind @ CHR 0x22 # map fallback_char name @ CHR 0x22 # ''; filename*=UTF-8'' @ CHR 0x27 # ?enc"
    by (simp add: fileContentDisposition_def)
  moreover have "list_all (\<lambda>x. x \<noteq> CHR 0x22) ?kind" by simp
  moreover have "list_all (\<lambda>x. x \<noteq> CHR 0x22) (map fallback_char name)"
    by (simp add: list.pred_map comp_def list_all_iff)
  moreover have "list_all (\<lambda>x. x \<noteq> CHR 0x27) ''; filename*=UTF-8''" by simp
  ultimately have "extended_name (fileContentDisposition name i) = drop 2 (CHR 0x27 # ?enc)"
    by (simp only: extended_name_def dropWhile_until drop0 drop_Suc_Cons One_nat_def)
  then show ?thesis by simp
qed

text \<open>
  C14: Every file name, whatever bytes it has, gives a header of visible ASCII characters only, without
  line breaks; its quoted part is the name with the unsafe bytes replaced one by one, never ends early
  and has no escapes, and the extended part decodes to exactly the name.
\<close>

theorem disposition_round_trip:
  "percent_decode (extended_name (fileContentDisposition name i)) = Some name
   \<and> quoted_name (fileContentDisposition name i) = map fallback_char name
   \<and> CHR 0x5C \<notin> set (map fallback_char name)
   \<and> list_all visible_char (fileContentDisposition name i)
   \<and> strip_crlf (fileContentDisposition name i) = fileContentDisposition name i"
proof -
  have "list_all visible_char (concat (map encode_char name))"
    using encode_char_visible by (induction name) auto
  moreover have "list_all visible_char (map fallback_char name)" by (simp add: list.pred_map comp_def list_all_iff)
  ultimately have v: "list_all visible_char (fileContentDisposition name i)"
    by (simp add: fileContentDisposition_def visible_char_def byte_def)
  have "\<not> list_ex is_crlf (fileContentDisposition name i)"
    using v by (auto simp: list_all_iff list_ex_iff visible_char_def is_crlf_def byte_def)
  then show ?thesis
    using v by (auto simp: disposition_quoted disposition_extended decode_encode strip_crlf_id)
      (metis fallback_char_safe(3))+
qed

end
