(* ===== verification/FileTransfer.thy ===== *)
theory FileTransfer imports FileHeaders Counters begin

text \<open>
  What the file transfer strategies share (\<open>src/include/intertwine/fw/IFileTransfer.hpp\<close>): the parameters of
  a transfer, the range that is sent, and the headers of the answer.  The file system is a function from
  paths to the bytes of the files that can be opened.
\<close>

record TransferParams =
  tp_physicalPath :: string
  tp_displayName :: string
  tp_inlineDisposition :: bool
  tp_fileSize :: int
  tp_rangeStart :: int
  tp_rangeEnd :: int
  tp_onComplete :: bool                 \<comment> \<open>is there a callback\<close>

definition TransferParams_ctor :: TransferParams where
  "TransferParams_ctor = \<lparr>tp_physicalPath = [], tp_displayName = [], tp_inlineDisposition = False, tp_fileSize = 0,
     tp_rangeStart = -1, tp_rangeEnd = -1, tp_onComplete = False\<rparr>"

type_synonym file_system = "string \<Rightarrow> string option"

definition isRange :: "TransferParams \<Rightarrow> bool" where
  "isRange p \<longleftrightarrow> 0 \<le> tp_rangeStart p \<and> 0 \<le> tp_rangeEnd p"

definition sendStart :: "TransferParams \<Rightarrow> int" where
  "sendStart p = (if isRange p then tp_rangeStart p else 0)"

definition sendLen :: "TransferParams \<Rightarrow> int" where
  "sendLen p = (if isRange p then tp_rangeEnd p - tp_rangeStart p + 1 else tp_fileSize p)"

definition content_range :: "TransferParams \<Rightarrow> string" where
  "content_range p = ''bytes '' @ dec_int (sendStart p) @ ''-'' @ dec_int (tp_rangeEnd p) @ ''/'' @ dec_int (tp_fileSize p)"

definition download_headers :: "TransferParams \<Rightarrow> 'w Context \<Rightarrow> 'w Context" where
  "download_headers p c =
     Context_setContentTypeByFilename (tp_displayName p)
       (Context_setHeader ''Accept-Ranges'' ''bytes''
         (Context_setHeader ''Content-Disposition''
            (fileContentDisposition (tp_displayName p) (tp_inlineDisposition p)) c))"

definition range_status :: "TransferParams \<Rightarrow> 'w Context \<Rightarrow> 'w Context" where
  "range_status p c =
     (if isRange p then Context_setHeader ''Content-Range'' (content_range p) (Context_setStatus 206 c)
      else Context_setStatus 200 c)"

definition internal_error :: "'w Context \<Rightarrow> 'w Context" where
  "internal_error = Context_error 500 ''internal'' None"

text \<open>The calls of \<open>onComplete\<close>.\<close>

definition complete_call :: "TransferParams \<Rightarrow> bool \<Rightarrow> bool list" where
  "complete_call p success = (if tp_onComplete p then [success] else [])"

text \<open>The bytes that a transfer is to send.\<close>

definition wanted :: "TransferParams \<Rightarrow> string \<Rightarrow> string" where
  "wanted p content = take (nat (sendLen p)) (drop (nat (sendStart p)) content)"

lemma download_headers_frame [simp, frame_simps]:
  "cx_writer (download_headers p c) = cx_writer c" "cx_world (download_headers p c) = cx_world c"
  "hp_body (cx_resp (download_headers p c)) = hp_body (cx_resp c)"
  "cx_streamingHandoff (download_headers p c) = cx_streamingHandoff c"
  by (simp_all add: download_headers_def Context_setContentTypeByFilename_def Context_setHeader_def with_resp_def
      put_header_def)

lemma range_status_frame [simp, frame_simps]:
  "cx_writer (range_status p c) = cx_writer c" "cx_world (range_status p c) = cx_world c"
  "hp_body (cx_resp (range_status p c)) = hp_body (cx_resp c)"
  "cx_streamingHandoff (range_status p c) = cx_streamingHandoff c"
  "Context_status (range_status p c) = (if isRange p then 206 else 200)"
  by (simp_all add: range_status_def Context_setStatus_def Context_setHeader_def with_resp_def put_header_def
      Context_status_def)

lemma internal_error_frame [simp, frame_simps]:
  "cx_writer (internal_error c) = cx_writer c" "Context_status (internal_error c) = 500"
  "cx_streamingHandoff (internal_error c) = cx_streamingHandoff c"
  by (simp_all add: internal_error_def Context_error_def with_resp_def put_header_def Context_status_def)

end
