(* ===== verification/PostedEvents.thy ===== *)
theory PostedEvents imports Prelude begin

text \<open>
  How both file transfers hand a function to the loop of a writer: \<open>postToWriterLoop\<close> and its callback in
  \<open>src/src/StreamTransfer.cpp\<close> and, word for word, in \<open>src/src/LegacyTransfer.cpp\<close>.  The payload is a block of
  the heap, allocated by the poster and freed by the callback; the queue of the loop holds its address.
  Using a freed block is the flag \<open>el_bad\<close>.
\<close>

record 'f event_loop =
  el_heap :: "nat \<Rightarrow> 'f option option"    \<comment> \<open>the payloads alive; the inner option: an empty function\<close>
  el_next :: nat
  el_queue :: "nat list"
  el_called :: "'f list"
  el_bad :: bool

definition event_loop_start :: "'f event_loop" where
  "event_loop_start = \<lparr>el_heap = Map.empty, el_next = 0, el_queue = [], el_called = [], el_bad = False\<rparr>"

text \<open>The writer: \<open>None\<close> for a null pointer, otherwise whether it has an io and its io a loop.\<close>

record writer_ref =
  wf_io :: bool
  wf_loop :: bool

definition postToWriterLoop :: "writer_ref option \<Rightarrow> 'f option \<Rightarrow> 'f event_loop \<Rightarrow> bool \<times> 'f event_loop" where
  "postToWriterLoop writer fn l =
     (case writer of
        None \<Rightarrow> (False, l)
      | Some w \<Rightarrow>
          if \<not> wf_io w then (False, l)
          else if \<not> wf_loop w then (False, l)
          else (True, l\<lparr>el_heap := (el_heap l)(el_next l \<mapsto> fn), el_next := el_next l + 1,
                         el_queue := el_queue l @ [el_next l]\<rparr>))"

definition postedEventCb :: "nat option \<Rightarrow> 'f event_loop \<Rightarrow> 'f event_loop" where
  "postedEventCb userdata l =
     (case userdata of
        None \<Rightarrow> l
      | Some payload \<Rightarrow>
          (case el_heap l payload of
             None \<Rightarrow> l\<lparr>el_bad := True\<rparr>
           | Some fn \<Rightarrow>
               (let l1 = l\<lparr>el_heap := (el_heap l)(payload := None)\<rparr>
                in case fn of None \<Rightarrow> l1 | Some f \<Rightarrow> l1\<lparr>el_called := el_called l1 @ [f]\<rparr>)))"

text \<open>What happens to a loop: a post, a turn that takes the first event, the destruction with what is queued.\<close>

datatype 'f loop_op = LoopPost "writer_ref option" "'f option" | LoopTurn | LoopFree

fun loop_apply :: "'f loop_op \<Rightarrow> 'f event_loop \<Rightarrow> 'f event_loop" where
  "loop_apply (LoopPost writer fn) l = snd (postToWriterLoop writer fn l)"
| "loop_apply LoopTurn l =
     (case el_queue l of [] \<Rightarrow> l | payload # rest \<Rightarrow> postedEventCb (Some payload) (l\<lparr>el_queue := rest\<rparr>))"
| "loop_apply LoopFree l = l\<lparr>el_queue := []\<rparr>"

text \<open>The functions that a run of operations posts, in order.\<close>

fun posted_fns :: "'f loop_op list \<Rightarrow> 'f list" where
  "posted_fns [] = []"
| "posted_fns (LoopPost (Some w) (Some f) # ops) = (if wf_io w \<and> wf_loop w then f # posted_fns ops else posted_fns ops)"
| "posted_fns (op # ops) = posted_fns ops"

definition queued_fns :: "'f event_loop \<Rightarrow> 'f list" where
  "queued_fns l = List.map_filter (\<lambda>p. Option.bind (el_heap l p) id) (el_queue l)"

text \<open>Every queued address is a payload of its own that is alive.\<close>

definition loop_inv :: "'f event_loop \<Rightarrow> bool" where
  "loop_inv l \<longleftrightarrow> \<not> el_bad l \<and> distinct (el_queue l) \<and> set (el_queue l) \<subseteq> dom (el_heap l)
     \<and> (\<forall>p\<in>dom (el_heap l). p < el_next l)"

lemma loop_inv_apply:
  assumes "loop_inv l"
  shows "loop_inv (loop_apply op l)"
proof (cases op)
  case (LoopPost writer fn)
  have "el_next l \<notin> set (el_queue l)" using assms by (auto simp: loop_inv_def)
  then show ?thesis using LoopPost assms
    by (auto simp: loop_inv_def postToWriterLoop_def less_Suc_eq split: option.split)
next
  case LoopTurn
  then show ?thesis using assms
    by (cases "el_queue l") (auto simp: loop_inv_def postedEventCb_def Let_def split: option.split)
qed (use assms in \<open>simp add: loop_inv_def\<close>)

lemma map_filter_cong: "(\<And>x. x \<in> set xs \<Longrightarrow> f x = g x) \<Longrightarrow> List.map_filter f xs = List.map_filter g xs"
  by (induction xs) (auto simp: List.map_filter_def)

lemma queued_step:
  assumes "loop_inv l" and "op \<noteq> LoopFree"
  shows "el_called (loop_apply op l) @ queued_fns (loop_apply op l) = el_called l @ queued_fns l @ posted_fns [op]"
proof (cases op)
  case (LoopPost writer fn)
  have "el_next l \<notin> set (el_queue l)" using assms(1) by (auto simp: loop_inv_def)
  then have "List.map_filter (\<lambda>p. Option.bind (((el_heap l)(el_next l \<mapsto> fn)) p) id) (el_queue l) = queued_fns l"
    unfolding queued_fns_def by (intro map_filter_cong) auto
  then show ?thesis using LoopPost
    by (cases writer; cases fn)
      (auto simp: postToWriterLoop_def queued_fns_def map_filter_simps List.map_filter_def)
next
  case LoopTurn
  show ?thesis
  proof (cases "el_queue l")
    case Nil
    then show ?thesis using LoopTurn by simp
  next
    case (Cons p rest)
    then obtain fn where fn: "el_heap l p = Some fn" "p \<notin> set rest" using assms(1) by (auto simp: loop_inv_def)
    then have "List.map_filter (\<lambda>q. Option.bind (((el_heap l)(p := None)) q) id) rest
        = List.map_filter (\<lambda>q. Option.bind (el_heap l q) id) rest"
      by (intro map_filter_cong) auto
    then show ?thesis using LoopTurn Cons fn
      by (cases fn) (simp_all add: postedEventCb_def queued_fns_def Let_def map_filter_simps)
  qed
qed (use assms in simp)

text \<open>
  As long as the loop lives, the functions called and then those still queued are exactly the posted ones, in
  order and each once, no payload is used after it was freed, and the payloads alive are those in the queue.
\<close>

lemma posted_fns_Cons: "posted_fns (op # ops) = posted_fns [op] @ posted_fns ops"
  by (cases "op # ops" rule: posted_fns.cases) simp_all

lemma posted_in_order:
  assumes "LoopFree \<notin> set ops"
  shows "\<not> el_bad (fold loop_apply ops event_loop_start)
    \<and> el_called (fold loop_apply ops event_loop_start) @ queued_fns (fold loop_apply ops event_loop_start) = posted_fns ops"
proof -
  have "loop_inv (fold loop_apply ops l)
      \<and> el_called (fold loop_apply ops l) @ queued_fns (fold loop_apply ops l) = el_called l @ queued_fns l @ posted_fns ops"
    if "loop_inv l" for l
    using that assms
  proof (induction ops arbitrary: l)
    case (Cons op ops)
    have "loop_inv (loop_apply op l)" using Cons.prems(1) by (rule loop_inv_apply)
    then show ?case using Cons.IH [of "loop_apply op l"] Cons.prems queued_step [of l op]
      by (auto simp: posted_fns_Cons [of op ops])
  qed simp
  moreover have "loop_inv (event_loop_start :: 'a event_loop)" by (simp add: loop_inv_def event_loop_start_def)
  ultimately show ?thesis by (simp add: loop_inv_def queued_fns_def event_loop_start_def List.map_filter_def)
qed

text \<open>
  When the loop is destroyed, what is queued is neither called nor freed: the payloads stay in the heap
  whatever happens afterwards, and so does everything their functions hold.
\<close>

lemma freed_loop_leaks:
  assumes "loop_inv l" and "p \<in> set (el_queue l)"
  shows "el_heap (fold loop_apply ops (loop_apply LoopFree l)) p \<noteq> None"
proof -
  have "p \<notin> set (el_queue (fold loop_apply ops k)) \<and> p < el_next (fold loop_apply ops k) \<and> el_heap (fold loop_apply ops k) p \<noteq> None"
    if "p \<notin> set (el_queue k)" "p < el_next k" "el_heap k p \<noteq> None" for k
    using that
  proof (induction ops arbitrary: k)
    case (Cons op ops)
    have "p \<notin> set (el_queue (loop_apply op k)) \<and> p < el_next (loop_apply op k) \<and> el_heap (loop_apply op k) p \<noteq> None"
      using Cons.prems
      by (cases op) (auto simp: postToWriterLoop_def postedEventCb_def Let_def split: option.split list.split)
    then show ?case using Cons.IH [of "loop_apply op k"] by simp
  qed simp
  moreover have "p < el_next l" "el_heap l p \<noteq> None" using assms by (auto simp: loop_inv_def)
  ultimately show ?thesis by simp
qed

end
