(* ===== verification/StreamTransfer.thy ===== *)
theory StreamTransfer imports FileTransfer PostedEvents begin

text \<open>
  The event-driven file transfer (\<open>src/src/StreamTransfer.cpp\<close>).  \<open>send\<close> prepares a \<open>TransferState\<close> and posts
  a task to the loop of the writer; from then on the loop drives it by three kinds of events: a posted
  task, the writer's \<open>onwrite\<close>, and the writer's \<open>onclose\<close>.  The state lives as long as a posted task or a
  closure of the writer holds it; the payload of a task is freed by its callback only, so a task that is
  dropped with its loop holds the state for ever.

  What the library and the clock answer during an event is the environment \<open>stream_env\<close>; the file is the
  list of the bytes that are left to read, fixed during the transfer.
\<close>

section \<open>The state\<close>

definition kChunkSize :: int where
  "kChunkSize = 256 * 1024"

datatype posted_task = PostStart int | PostEmpty | PostCleanup

record TransferState =
  st_file :: string
  st_remaining :: int
  st_calls :: "writer_call list"        \<comment> \<open>the calls on \<open>writer\<close>\<close>
  st_ownership :: bool
  st_params :: TransferParams
  st_completed :: "bool list"           \<comment> \<open>the calls of \<open>onComplete\<close>\<close>
  st_stats :: TransferStats
  st_startTime :: int64
  st_finished :: bool
  st_pumping :: bool
  st_cleanupScheduled :: bool
  st_onwrite :: bool                    \<comment> \<open>the closures that hold the state\<close>
  st_onclose :: bool
  st_posted :: "posted_task list"
  st_leaked :: bool                     \<comment> \<open>a payload that no callback will free holds the state\<close>
  st_live :: bool

text \<open>What happens inside a call of the library: nothing, or a closure of the writer is called.\<close>

datatype sync_call = NoCall | OnWrite | OnClose

record pump_tick =
  pk_connected :: bool
  pk_writeComplete :: bool
  pk_ret :: int
  pk_sync :: sync_call                  \<comment> \<open>during \<open>WriteBody\<close>\<close>
  pk_endSync :: sync_call               \<comment> \<open>during \<open>End\<close>\<close>

record stream_env =
  se_loop :: bool                       \<comment> \<open>the writer has an io and a loop\<close>
  se_now :: int64
  se_connected :: bool
  se_endHeaders :: int
  se_sync :: sync_call
  se_ticks :: "nat \<Rightarrow> pump_tick"         \<comment> \<open>one per turn of the pumping loop\<close>

section \<open>Finishing\<close>

definition st_complete :: "bool \<Rightarrow> TransferState \<Rightarrow> TransferState" where
  "st_complete success s = s\<lparr>st_completed := st_completed s @ complete_call (st_params s) success\<rparr>"

definition scheduleCleanup :: "stream_env \<Rightarrow> TransferState \<Rightarrow> TransferState" where
  "scheduleCleanup env s =
     (if st_cleanupScheduled s then s
      else (let s1 = s\<lparr>st_cleanupScheduled := True\<rparr>
            in if se_loop env then s1\<lparr>st_posted := st_posted s1 @ [PostCleanup]\<rparr> else s1\<lparr>st_ownership := False\<rparr>))"

definition stream_finish :: "stream_env \<Rightarrow> bool \<Rightarrow> TransferState \<Rightarrow> TransferState" where
  "stream_finish env success s =
     (if st_finished s then s
      else scheduleCleanup env (st_complete success
             (s\<lparr>st_finished := True, st_file := [],
                st_stats := recordEnd success (st_startTime s) (se_now env) (st_stats s)\<rparr>)))"

text \<open>The destructor, when neither a closure nor a posted task holds the state any more.\<close>

definition stream_release :: "stream_env \<Rightarrow> TransferState \<Rightarrow> TransferState" where
  "stream_release env s =
     (if st_onwrite s \<or> st_onclose s \<or> st_posted s \<noteq> [] \<or> st_leaked s then s
      else (let s1 = s\<lparr>st_live := False\<rparr>
            in if st_finished s then s1
               else st_complete False
                 (s1\<lparr>st_stats := recordEnd False (st_startTime s) (se_now env) (st_stats s)\<rparr>)))"

section \<open>Pumping\<close>

definition writer_do :: "writer_call \<Rightarrow> TransferState \<Rightarrow> TransferState" where
  "writer_do call s = s\<lparr>st_calls := st_calls s @ [call]\<rparr>"

text \<open>
  A write can call \<open>onwrite\<close>, which \<open>pumping\<close> turns into a \<open>pump\<close> without effect, or \<open>onclose\<close>.
\<close>

definition chunk_of :: "TransferState \<Rightarrow> string" where
  "chunk_of s = take (nat (if st_remaining s < kChunkSize then st_remaining s else kChunkSize)) (st_file s)"

definition chunk_written :: "stream_env \<Rightarrow> sync_call \<Rightarrow> TransferState \<Rightarrow> TransferState" where
  "chunk_written env sync s =
     (let got = chunk_of s;
          s1 = writer_do (WriteBody got)
                 (s\<lparr>st_file := drop (length got) (st_file s), st_remaining := st_remaining s - int (length got)\<rparr>)
      in if sync = OnClose \<and> st_onclose s then stream_finish env False s1 else s1)"

lemma stream_finish_file: "length (st_file (stream_finish env b s)) \<le> length (st_file s)"
  by (simp add: stream_finish_def scheduleCleanup_def st_complete_def Let_def)

lemma chunk_written_file:
  assumes "chunk_of s \<noteq> []"
  shows "length (st_file (chunk_written env sync s)) < length (st_file s)"
proof -
  have "length (drop (length (chunk_of s)) (st_file s)) < length (st_file s)"
    using assms by (cases "st_file s") (auto simp: chunk_of_def)
  then show ?thesis
    using stream_finish_file [of env False "writer_do (WriteBody (chunk_of s))
      (s\<lparr>st_file := drop (length (chunk_of s)) (st_file s),
         st_remaining := st_remaining s - int (length (chunk_of s))\<rparr>)"]
    by (auto simp: chunk_written_def Let_def writer_do_def)
qed

definition end_response :: "stream_env \<Rightarrow> sync_call \<Rightarrow> TransferState \<Rightarrow> TransferState" where
  "end_response env sync s =
     (if sync = OnClose \<and> st_onclose s then stream_finish env False (writer_do EndCall s) else writer_do EndCall s)"

function pump_loop :: "stream_env \<Rightarrow> nat \<Rightarrow> TransferState \<Rightarrow> TransferState" where
  "pump_loop env k s =
     (let tick = se_ticks env k
      in if st_finished s then s
         else if \<not> pk_connected tick then stream_finish env False s
         else if \<not> pk_writeComplete tick then s
         else if chunk_of s = [] then stream_finish env False s
         else
           (let s1 = chunk_written env (pk_sync tick) s
            in if pk_ret tick < 0 then stream_finish env False s1
               else if st_remaining s1 \<le> 0 then stream_finish env True (end_response env (pk_endSync tick) s1)
               else pump_loop env (k + 1) s1))"
  by pat_completeness auto

termination
  by (relation "measure (\<lambda>(env, k, s). length (st_file s))") (simp_all add: chunk_written_file)

declare pump_loop.simps [simp del]

definition pump :: "stream_env \<Rightarrow> TransferState \<Rightarrow> TransferState" where
  "pump env s =
     (if st_finished s then s
      else if st_pumping s then s
      else (pump_loop env 0 (s\<lparr>st_pumping := True\<rparr>))\<lparr>st_pumping := False\<rparr>)"

definition startStreaming :: "stream_env \<Rightarrow> int \<Rightarrow> TransferState \<Rightarrow> TransferState" where
  "startStreaming env len s =
     (if st_finished s then s
      else if \<not> se_connected env then stream_finish env False s
      else
        (let s1 = writer_do (EndHeaders ''Content-Length'' len) (s\<lparr>st_onwrite := True, st_onclose := True\<rparr>);
             s2 = (case se_sync env of NoCall \<Rightarrow> s1 | OnWrite \<Rightarrow> pump env s1 | OnClose \<Rightarrow> stream_finish env False s1)
         in if se_endHeaders env < 0 then stream_finish env False s2 else s2))"

text \<open>The task for a transfer of no bytes.\<close>

definition startEmpty :: "stream_env \<Rightarrow> TransferState \<Rightarrow> TransferState" where
  "startEmpty env s =
     (if \<not> se_connected env then stream_finish env False s
      else stream_finish env True (writer_do EndCall (writer_do (EndHeaders ''Content-Length'' 0) s)))"

section \<open>\<open>send\<close>\<close>

text \<open>
  \<open>Inl\<close>: the transfer was refused; the context and the calls of \<open>onComplete\<close>.  \<open>Inr\<close>: the context and the
  state with the posted task.  \<open>seek\<close> is what \<open>seekg\<close> answers, \<open>posts\<close> whether the post finds the loop.
\<close>

definition StreamTransfer_send ::
  "file_system \<Rightarrow> stream_env \<Rightarrow> bool \<Rightarrow> bool \<Rightarrow> TransferStats \<Rightarrow> TransferParams \<Rightarrow> 'w Context \<Rightarrow>
   'w Context \<times> (bool list + TransferState)" where
  "StreamTransfer_send files env seek posts stats p c =
     (let refuse = (internal_error c, Inl (complete_call p False))
      in if Context_writerOwnership c = None then refuse
         else if \<not> se_loop env then refuse
         else
           case files (tp_physicalPath p) of
             None \<Rightarrow> refuse
           | Some content \<Rightarrow>
               if isRange p \<and> \<not> seek then refuse
               else
                 (let len = sendLen p;
                      s0 = \<lparr>st_file = drop (nat (sendStart p)) content, st_remaining = len, st_calls = [],
                            st_ownership = True, st_params = p, st_completed = [],
                            st_stats = recordStart (word_of_int len) stats, st_startTime = se_now env,
                            st_finished = False, st_pumping = False, st_cleanupScheduled = False,
                            st_onwrite = False, st_onclose = False, st_posted = [], st_leaked = False, st_live = True\<rparr>;
                      c1 = Context_markStreamingHandoff (range_status p (download_headers p c));
                      task = (if len = 0 then PostEmpty else PostStart len);
                      s1 = (if posts then s0\<lparr>st_posted := [task]\<rparr> else stream_finish env False s0)
                  in (c1, Inr (stream_release env s1))))"

section \<open>The events of the loop\<close>

datatype stream_event =
    EvPosted stream_env                  \<comment> \<open>the loop runs the first posted task\<close>
  | EvWrite stream_env                   \<comment> \<open>\<open>onwrite\<close>\<close>
  | EvClose stream_env                   \<comment> \<open>\<open>onclose\<close>\<close>
  | EvLoopGone                           \<comment> \<open>the loop is destroyed; what was posted never runs\<close>

fun run_posted :: "stream_env \<Rightarrow> posted_task \<Rightarrow> TransferState \<Rightarrow> TransferState" where
  "run_posted env (PostStart len) s = startStreaming env len s"
| "run_posted env PostEmpty s = startEmpty env s"
| "run_posted env PostCleanup s = s\<lparr>st_onwrite := False, st_onclose := False, st_ownership := False\<rparr>"

fun stream_step :: "stream_event \<Rightarrow> TransferState \<Rightarrow> TransferState" where
  "stream_step (EvPosted env) s =
     (case st_posted s of
        [] \<Rightarrow> s
      | task # rest \<Rightarrow> stream_release env (run_posted env task (s\<lparr>st_posted := rest\<rparr>)))"
| "stream_step (EvWrite env) s = (if st_onwrite s then pump env s else s)"
| "stream_step (EvClose env) s = (if st_onclose s then stream_finish env False s else s)"
| "stream_step EvLoopGone s = s\<lparr>st_leaked := st_leaked s \<or> st_posted s \<noteq> [], st_posted := []\<rparr>"

definition stream_run :: "stream_event list \<Rightarrow> TransferState \<Rightarrow> TransferState" where
  "stream_run evs s = foldl (\<lambda>s ev. stream_step ev s) s evs"

section \<open>What a transfer does\<close>

text \<open>
  All relative to the state \<open>s0\<close> that \<open>send\<close> has prepared: its file holds the bytes to send and
  \<open>st_remaining s0\<close> is the length announced to the peer.
\<close>

definition chunks_ok :: "TransferState \<Rightarrow> string list \<Rightarrow> bool" where
  "chunks_ok s0 chunks \<longleftrightarrow> concat chunks = take (length (concat chunks)) (st_file s0)
     \<and> length (concat chunks) \<le> nat (st_remaining s0)
     \<and> list_all (\<lambda>ch. 0 < length ch \<and> int (length ch) \<le> kChunkSize) chunks"

definition wire :: "TransferState \<Rightarrow> string list \<Rightarrow> writer_call list \<Rightarrow> writer_call list" where
  "wire s0 chunks tail = EndHeaders ''Content-Length'' (st_remaining s0) # map WriteBody chunks @ tail"

definition wire_ok :: "TransferState \<Rightarrow> writer_call list \<Rightarrow> bool" where
  "wire_ok s0 calls \<longleftrightarrow> calls = []
     \<or> (\<exists>chunks. chunks_ok s0 chunks \<and> (calls = wire s0 chunks [] \<or> calls = wire s0 chunks [EndCall]))"

definition wire_full :: "TransferState \<Rightarrow> writer_call list \<Rightarrow> bool" where
  "wire_full s0 calls \<longleftrightarrow> (\<exists>chunks. chunks_ok s0 chunks \<and> calls = wire s0 chunks [EndCall]
     \<and> int (length (concat chunks)) = st_remaining s0)"

text \<open>The transfer is open, or it has ended with a result that has been reported once.\<close>

definition still_open :: "TransferState \<Rightarrow> TransferState \<Rightarrow> bool" where
  "still_open s0 s \<longleftrightarrow> \<not> st_finished s \<and> st_live s \<and> st_params s = st_params s0
     \<and> st_startTime s = st_startTime s0 \<and> st_stats s = st_stats s0 \<and> st_completed s = []"

definition ended :: "TransferState \<Rightarrow> bool \<Rightarrow> TransferState \<Rightarrow> bool" where
  "ended s0 b s \<longleftrightarrow> wire_ok s0 (st_calls s) \<and> list_all (\<lambda>t. t = PostCleanup) (st_posted s)
     \<and> (st_finished s \<or> \<not> st_live s \<and> \<not> st_onwrite s \<and> \<not> st_onclose s \<and> st_posted s = [])
     \<and> st_completed s = complete_call (st_params s0) b
     \<and> (\<exists>now. st_stats s = recordEnd b (st_startTime s0) now (st_stats s0))
     \<and> (if b then wire_full s0 (st_calls s) else True)"

definition waiting :: "TransferState \<Rightarrow> TransferState \<Rightarrow> bool" where
  "waiting s0 s \<longleftrightarrow> still_open s0 s \<and> st_calls s = [] \<and> \<not> st_onwrite s \<and> \<not> st_onclose s \<and> \<not> st_pumping s
     \<and> \<not> st_cleanupScheduled s \<and> st_file s = st_file s0 \<and> st_remaining s = st_remaining s0
     \<and> st_posted s = [if st_remaining s0 = 0 then PostEmpty else PostStart (st_remaining s0)]"

definition flowing_at :: "TransferState \<Rightarrow> string list \<Rightarrow> TransferState \<Rightarrow> bool" where
  "flowing_at s0 chunks s \<longleftrightarrow> still_open s0 s \<and> st_posted s = [] \<and> st_onwrite s \<and> st_onclose s
     \<and> st_calls s = wire s0 chunks [] \<and> chunks_ok s0 chunks \<and> concat chunks @ st_file s = st_file s0
     \<and> st_remaining s = st_remaining s0 - int (length (concat chunks))"

lemma still_open_pumping [simp]:
  "still_open s0 (s\<lparr>st_pumping := b\<rparr>) = still_open s0 s" "flowing_at s0 chunks (s\<lparr>st_pumping := b\<rparr>) = flowing_at s0 chunks s"
  "ended s0 r (s\<lparr>st_pumping := b\<rparr>) = ended s0 r s"
  by (simp_all add: still_open_def flowing_at_def ended_def)

lemma finish_finished [simp]: "st_finished s \<Longrightarrow> stream_finish env b s = s"
  by (simp add: stream_finish_def)

lemma finish_result [simp]: "st_finished (stream_finish env b s)"
  by (simp add: stream_finish_def scheduleCleanup_def st_complete_def Let_def)

lemma finish_frame [simp, frame_simps]:
  "st_calls (stream_finish env b s) = st_calls s" "st_remaining (stream_finish env b s) = st_remaining s"
  "st_live (stream_finish env b s) = st_live s"
  by (simp_all add: stream_finish_def scheduleCleanup_def st_complete_def Let_def)

lemma finish_ended:
  assumes "still_open s0 s" and "wire_ok s0 (st_calls s)" and "list_all (\<lambda>t. t = PostCleanup) (st_posted s)"
    and "b \<Longrightarrow> wire_full s0 (st_calls s)"
  shows "ended s0 b (stream_finish env b s)"
  using assms
  by (auto simp: ended_def stream_finish_def scheduleCleanup_def st_complete_def Let_def still_open_def)

lemma wire_ok_chunks: "chunks_ok s0 chunks \<Longrightarrow> wire_ok s0 (wire s0 chunks [])"
  by (auto simp: wire_ok_def)

lemma flowing_fails: "flowing_at s0 chunks s \<Longrightarrow> ended s0 False (stream_finish env False s)"
  by (rule finish_ended) (simp_all add: flowing_at_def wire_ok_chunks)

lemma chunk_of_bounds:
  assumes "chunk_of s \<noteq> []"
  shows "0 < st_remaining s" and "int (length (chunk_of s)) \<le> kChunkSize"
    and "int (length (chunk_of s)) \<le> st_remaining s" and "chunk_of s @ drop (length (chunk_of s)) (st_file s) = st_file s"
proof -
  show r: "0 < st_remaining s" using assms by (simp add: chunk_of_def split: if_splits)
  then show "int (length (chunk_of s)) \<le> kChunkSize" "int (length (chunk_of s)) \<le> st_remaining s"
    by (auto simp: chunk_of_def kChunkSize_def min_def)
  show "chunk_of s @ drop (length (chunk_of s)) (st_file s) = st_file s"
    by (simp add: chunk_of_def min_def)
qed

lemma chunks_ok_snoc:
  assumes "flowing_at s0 chunks s" and "chunk_of s \<noteq> []"
  shows "chunks_ok s0 (chunks @ [chunk_of s])"
    and "concat (chunks @ [chunk_of s]) @ drop (length (chunk_of s)) (st_file s) = st_file s0"
proof -
  note b = chunk_of_bounds [OF assms(2)]
  show c: "concat (chunks @ [chunk_of s]) @ drop (length (chunk_of s)) (st_file s) = st_file s0"
    using assms(1) b(4) by (simp add: flowing_at_def)
  then have "take (length (concat (chunks @ [chunk_of s]))) (st_file s0) = concat (chunks @ [chunk_of s])"
    by (metis append_eq_conv_conj)
  then show "chunks_ok s0 (chunks @ [chunk_of s])"
    using assms b(2,3) by (simp add: chunks_ok_def flowing_at_def)
qed

lemma chunk_written_cases:
  assumes "flowing_at s0 chunks s" and "chunk_of s \<noteq> []"
  shows "flowing_at s0 (chunks @ [chunk_of s]) (chunk_written env sync s)
    \<or> (ended s0 False (chunk_written env sync s) \<and> st_finished (chunk_written env sync s)
       \<and> st_calls (chunk_written env sync s) = wire s0 (chunks @ [chunk_of s]) [])"
proof -
  define s1 where "s1 = writer_do (WriteBody (chunk_of s))
    (s\<lparr>st_file := drop (length (chunk_of s)) (st_file s), st_remaining := st_remaining s - int (length (chunk_of s))\<rparr>)"
  have f: "flowing_at s0 (chunks @ [chunk_of s]) s1"
    using assms(1) chunks_ok_snoc [OF assms]
    by (simp add: flowing_at_def s1_def writer_do_def still_open_def wire_def)
  have "chunk_written env sync s = (if sync = OnClose then stream_finish env False s1 else s1)"
    using assms(1) by (simp add: chunk_written_def s1_def Let_def writer_do_def flowing_at_def)
  then show ?thesis using f flowing_fails [OF f] by (simp add: flowing_at_def)
qed

lemma flowing_full:
  assumes "flowing_at s0 chunks s" and "st_remaining s \<le> 0" and "0 \<le> st_remaining s0"
  shows "ended s0 True (stream_finish env True (writer_do EndCall s))"
proof -
  have ok: "chunks_ok s0 chunks" and r: "st_remaining s = st_remaining s0 - int (length (concat chunks))"
    and calls: "st_calls (writer_do EndCall s) = wire s0 chunks [EndCall]"
    using assms(1) by (simp_all add: flowing_at_def writer_do_def wire_def)
  have "length (concat chunks) \<le> nat (st_remaining s0)" using ok unfolding chunks_ok_def by blast
  then have "int (length (concat chunks)) = st_remaining s0" using r assms(2,3) by linarith
  then have w: "wire_full s0 (st_calls (writer_do EndCall s))" using ok calls unfolding wire_full_def by blast
  then have "wire_ok s0 (st_calls (writer_do EndCall s))" unfolding wire_full_def wire_ok_def by blast
  then show ?thesis
    using assms(1) w by (intro finish_ended) (simp_all add: flowing_at_def still_open_def writer_do_def)
qed

lemma end_cases:
  assumes "flowing_at s0 chunks s" and "st_remaining s \<le> 0" and "0 \<le> st_remaining s0"
  shows "\<exists>b. ended s0 b (stream_finish env True (end_response env sync s))"
    and "sync \<noteq> OnClose \<Longrightarrow> ended s0 True (stream_finish env True (end_response env sync s))"
proof -
  have "ended s0 False (stream_finish env False (writer_do EndCall s))"
    by (rule finish_ended)
      (use assms(1) in \<open>auto simp: flowing_at_def still_open_def writer_do_def wire_ok_def wire_def\<close>)
  then show "\<exists>b. ended s0 b (stream_finish env True (end_response env sync s))"
    using flowing_full [OF assms, of env] by (auto simp: end_response_def)
  show "sync \<noteq> OnClose \<Longrightarrow> ended s0 True (stream_finish env True (end_response env sync s))"
    using flowing_full [OF assms, of env] by (simp add: end_response_def)
qed

lemma end_response_finished: "st_finished s \<Longrightarrow> end_response env sync s = writer_do EndCall s"
  by (simp add: end_response_def writer_do_def)

lemma pump_loop_cases:
  assumes "flowing_at s0 chunks s"
  shows "(\<exists>chunks'. flowing_at s0 chunks' (pump_loop env k s)) 
    \<or> (\<exists>b. ended s0 b (pump_loop env k s) \<and> st_finished (pump_loop env k s))"
  using assms
proof (induction env k s arbitrary: chunks rule: pump_loop.induct)
  case (1 env k s)
  let ?tick = "se_ticks env k"
  let ?s1 = "chunk_written env (pk_sync ?tick) s"
  have nf: "\<not> st_finished s" using 1(2) by (simp add: flowing_at_def still_open_def)
  consider "\<not> pk_connected ?tick \<or> \<not> pk_writeComplete ?tick \<or> chunk_of s = []"
    | (more) "pk_connected ?tick" "pk_writeComplete ?tick" "chunk_of s \<noteq> []" by blast
  then show ?case
  proof cases
    case 1
    then show ?thesis using flowing_fails [OF \<open>flowing_at s0 chunks s\<close>, of env] \<open>flowing_at s0 chunks s\<close> nf
      by (subst (1 2 3) pump_loop.simps) (auto simp: Let_def)
  next
    case more
    note c = chunk_written_cases [OF 1(2) more(3), of env "pk_sync ?tick"]
    have calls: "st_calls ?s1 = wire s0 (chunks @ [chunk_of s]) []" using c by (auto simp: flowing_at_def)
    note ok = chunks_ok_snoc(1) [OF 1(2) more(3)]
    have step: "pump_loop env k s =
       (if pk_ret ?tick < 0 then stream_finish env False ?s1
        else if st_remaining ?s1 \<le> 0 then stream_finish env True (end_response env (pk_endSync ?tick) ?s1)
        else pump_loop env (k + 1) ?s1)"
      using nf more by (subst pump_loop.simps) (simp add: Let_def)
    have fail: "ended s0 False (stream_finish env False ?s1)"
      using c flowing_fails by auto
    have full: "\<exists>b. ended s0 b (stream_finish env True (end_response env (pk_endSync ?tick) ?s1))" if "st_remaining ?s1 \<le> 0"
      using c
    proof
      assume f: "flowing_at s0 (chunks @ [chunk_of s]) ?s1"
      have "0 \<le> st_remaining s0"
        using chunk_of_bounds(1) [OF more(3)] 1(2) unfolding flowing_at_def by linarith
      then show ?thesis using end_cases(1) [OF f that] by blast
    next
      assume e: "ended s0 False ?s1 \<and> st_finished ?s1 \<and> st_calls ?s1 = wire s0 (chunks @ [chunk_of s]) []"
      then have "wire_ok s0 (st_calls ?s1 @ [EndCall])" using ok by (auto simp: wire_ok_def wire_def)
      then have "ended s0 False (writer_do EndCall ?s1)" using e by (simp add: ended_def writer_do_def)
      then show ?thesis using e by (auto simp: end_response_finished writer_do_def)
    qed
    show ?thesis
    proof (cases "pk_ret ?tick < 0 \<or> st_remaining ?s1 \<le> 0")
      case True
      then show ?thesis using step fail full by auto
    next
      case False
      then have eq: "pump_loop env k s = pump_loop env (k + 1) ?s1" using step by simp
      from c show ?thesis
      proof
        assume f: "flowing_at s0 (chunks @ [chunk_of s]) ?s1"
        have "pump_loop env (k + 1) ?s1 = pump_loop env (k + 1) ?s1" ..
        then show ?thesis using "1.IH" [OF refl nf _ _ more(3) refl _ _ f] more False eq by simp
      next
        assume e: "ended s0 False ?s1 \<and> st_finished ?s1 \<and> st_calls ?s1 = wire s0 (chunks @ [chunk_of s]) []"
        then have "pump_loop env (k + 1) ?s1 = ?s1" by (subst pump_loop.simps) simp
        then show ?thesis using e eq by auto
      qed
    qed
  qed
qed

text \<open>The first task was dropped with its loop.\<close>

definition lost :: "TransferState \<Rightarrow> TransferState \<Rightarrow> bool" where
  "lost s0 s \<longleftrightarrow> still_open s0 s \<and> st_calls s = [] \<and> st_posted s = [] \<and> \<not> st_onwrite s \<and> \<not> st_onclose s \<and> st_leaked s"

lemma lost_step: "lost s0 s \<Longrightarrow> lost s0 (stream_step ev s)"
  by (cases ev) (simp_all add: lost_def still_open_def)

lemma lost_run: "lost s0 s \<Longrightarrow> lost s0 (stream_run evs s)"
  unfolding stream_run_def by (induction evs arbitrary: s) (simp_all add: lost_step)

lemma waiting_lost: "waiting s0 s \<Longrightarrow> lost s0 (stream_step EvLoopGone s)"
  by (simp add: waiting_def lost_def still_open_def)

definition transfer_inv :: "TransferState \<Rightarrow> TransferState \<Rightarrow> bool" where
  "transfer_inv s0 s \<longleftrightarrow> waiting s0 s \<or> (\<exists>chunks. flowing_at s0 chunks s) \<or> (\<exists>b. ended s0 b s) \<or> lost s0 s"

lemma pump_cases:
  assumes "flowing_at s0 chunks s"
  shows "(\<exists>chunks'. flowing_at s0 chunks' (pump env s)) \<or> (\<exists>b. ended s0 b (pump env s) \<and> st_finished (pump env s))"
proof (cases "st_finished s \<or> st_pumping s")
  case True
  then show ?thesis using assms by (auto simp: pump_def)
next
  case False
  then show ?thesis
    using pump_loop_cases [of s0 chunks "s\<lparr>st_pumping := True\<rparr>" env 0] assms by (auto simp: pump_def)
qed

lemma release_flowing [simp]: "flowing_at s0 chunks s \<Longrightarrow> stream_release env s = s"
  by (simp add: stream_release_def flowing_at_def)

lemma release_done:
  "ended s0 b s \<Longrightarrow> st_finished s \<Longrightarrow> ended s0 b (stream_release env s)"
  by (simp add: stream_release_def ended_def Let_def)

lemma start_inv:
  assumes "waiting s0 s" and "st_remaining s0 \<noteq> 0"
  shows "transfer_inv s0 (stream_release env (startStreaming env (st_remaining s0) (s\<lparr>st_posted := []\<rparr>)))"
proof -
  let ?s = "s\<lparr>st_posted := []\<rparr>"
  have o: "still_open s0 ?s" "st_calls ?s = []" using assms(1) by (simp_all add: waiting_def still_open_def)
  show ?thesis
  proof (cases "se_connected env")
    case False
    have "ended s0 False (stream_finish env False ?s)" by (rule finish_ended) (use o in \<open>simp_all add: wire_ok_def\<close>)
    then have "ended s0 False (stream_release env (stream_finish env False ?s))" by (rule release_done) simp
    then show ?thesis using False o by (auto simp: startStreaming_def transfer_inv_def still_open_def)
  next
    case True
    define s1 where "s1 = writer_do (EndHeaders ''Content-Length'' (st_remaining s0))
      (?s\<lparr>st_onwrite := True, st_onclose := True\<rparr>)"
    have f: "flowing_at s0 [] s1"
      using assms(1) by (simp add: s1_def writer_do_def flowing_at_def waiting_def still_open_def wire_def chunks_ok_def)
    define s2 where "s2 = (case se_sync env of NoCall \<Rightarrow> s1 | OnWrite \<Rightarrow> pump env s1 | OnClose \<Rightarrow> stream_finish env False s1)"
    have s2: "(\<exists>chunks. flowing_at s0 chunks s2) \<or> (\<exists>b. ended s0 b s2 \<and> st_finished s2)"
    proof (cases "se_sync env")
      case OnWrite
      then show ?thesis using pump_cases [OF f, of env] by (simp add: s2_def)
    next
      case OnClose
      then show ?thesis using flowing_fails [OF f, of env] by (auto simp: s2_def)
    qed (use f in \<open>auto simp: s2_def\<close>)
    then have "\<exists>b. ended s0 b (stream_finish env False s2)" using flowing_fails [of s0 _ s2 env] by auto
    then have "(\<exists>chunks. flowing_at s0 chunks (if se_endHeaders env < 0 then stream_finish env False s2 else s2))
        \<or> (\<exists>b. ended s0 b (if se_endHeaders env < 0 then stream_finish env False s2 else s2)
               \<and> st_finished (if se_endHeaders env < 0 then stream_finish env False s2 else s2))"
      using s2 by (cases "se_endHeaders env < 0") auto
    moreover have "startStreaming env (st_remaining s0) ?s = (if se_endHeaders env < 0 then stream_finish env False s2 else s2)"
      using True o by (simp add: startStreaming_def s2_def s1_def Let_def still_open_def cong: sync_call.case_cong)
    ultimately show ?thesis using release_done by (fastforce simp: transfer_inv_def)
  qed
qed

lemma empty_inv:
  assumes "waiting s0 s" and "st_remaining s0 = 0"
  shows "transfer_inv s0 (stream_release env (startEmpty env (s\<lparr>st_posted := []\<rparr>)))"
proof -
  let ?s = "s\<lparr>st_posted := []\<rparr>"
  let ?s2 = "writer_do EndCall (writer_do (EndHeaders ''Content-Length'' 0) ?s)"
  have o: "still_open s0 ?s" "st_calls ?s = []" using assms(1) by (simp_all add: waiting_def still_open_def)
  have "\<exists>b. ended s0 b (startEmpty env ?s) \<and> st_finished (startEmpty env ?s)"
  proof (cases "se_connected env")
    case False
    have "ended s0 False (stream_finish env False ?s)" by (rule finish_ended) (use o in \<open>simp_all add: wire_ok_def\<close>)
    then show ?thesis using False by (auto simp: startEmpty_def)
  next
    case True
    have c: "chunks_ok s0 []" "st_calls ?s2 = wire s0 [] [EndCall]"
      using o assms(2) by (simp_all add: chunks_ok_def wire_def writer_do_def)
    have "ended s0 True (stream_finish env True ?s2)"
    proof (rule finish_ended)
      show "still_open s0 ?s2" using o by (simp add: still_open_def writer_do_def)
      show "list_all (\<lambda>t. t = PostCleanup) (st_posted ?s2)" by (simp add: writer_do_def)
      show "wire_ok s0 (st_calls ?s2)" using c unfolding wire_ok_def by blast
      show "wire_full s0 (st_calls ?s2)" using c assms(2) unfolding wire_full_def by auto
    qed
    then show ?thesis using True by (auto simp: startEmpty_def)
  qed
  then show ?thesis using release_done unfolding transfer_inv_def by blast
qed

lemma ended_step:
  assumes "ended s0 b s"
  shows "ended s0 b (stream_step ev s)"
proof (cases ev)
  case (EvPosted env)
  show ?thesis
  proof (cases "st_posted s")
    case Nil
    then show ?thesis using assms EvPosted by simp
  next
    case (Cons task rest)
    then have t: "task = PostCleanup" "st_finished s" using assms by (auto simp: ended_def)
    let ?s = "s\<lparr>st_posted := rest, st_onwrite := False, st_onclose := False, st_ownership := False\<rparr>"
    have "ended s0 b ?s" using assms t Cons by (simp add: ended_def)
    then have "ended s0 b (stream_release env ?s)" by (rule release_done) (simp add: t)
    then show ?thesis using EvPosted Cons t by simp
  qed
qed (use assms in \<open>auto simp: ended_def pump_def\<close>)

lemma ended_run: "ended s0 b s \<Longrightarrow> ended s0 b (stream_run evs s)"
  unfolding stream_run_def by (induction evs arbitrary: s) (simp_all add: ended_step del: stream_step.simps)

lemma stream_step_inv:
  assumes "transfer_inv s0 s"
  shows "transfer_inv s0 (stream_step ev s)"
proof -
  from assms consider "waiting s0 s" | (flowing) chunks where "flowing_at s0 chunks s" | (ended) b where "ended s0 b s" | "lost s0 s"
    unfolding transfer_inv_def by blast
  then show ?thesis
  proof cases
    case 1
    then have w: "st_posted s = [if st_remaining s0 = 0 then PostEmpty else PostStart (st_remaining s0)]"
      "\<not> st_onwrite s" "\<not> st_onclose s" "st_live s" "\<not> st_finished s"
      by (simp_all add: waiting_def still_open_def)
    show ?thesis
    proof (cases ev)
      case (EvPosted env)
      then show ?thesis using start_inv [OF 1, of env] empty_inv [OF 1, of env] w by simp
    next
      case EvLoopGone
      then show ?thesis using waiting_lost [OF 1] unfolding transfer_inv_def by blast
    qed (use 1 w in \<open>auto simp: transfer_inv_def\<close>)
  next
    case flowing
    then have f: "st_posted s = []" "st_onwrite s" "st_onclose s" "st_live s"
      by (simp_all add: flowing_at_def still_open_def)
    show ?thesis
    proof (cases ev)
      case (EvWrite env)
      then show ?thesis using pump_cases [OF flowing, of env] f by (auto simp: transfer_inv_def)
    next
      case (EvClose env)
      then show ?thesis using flowing_fails [OF flowing, of env] f by (auto simp: transfer_inv_def)
    next
      case EvLoopGone
      have "s\<lparr>st_leaked := st_leaked s, st_posted := []\<rparr> = s" using f by (cases s) simp
      then have "stream_step ev s = s" using EvLoopGone f by simp
      then show ?thesis using flowing by (auto simp: transfer_inv_def)
    qed (use flowing f in \<open>auto simp: transfer_inv_def\<close>)
  next
    case ended
    then show ?thesis using ended_step unfolding transfer_inv_def by blast
  next
    case 4
    then show ?thesis using lost_step unfolding transfer_inv_def by blast
  qed
qed

lemma stream_run_inv: "transfer_inv s0 s \<Longrightarrow> transfer_inv s0 (stream_run evs s)"
  unfolding stream_run_def by (induction evs arbitrary: s) (simp_all add: stream_step_inv)

section \<open>The outcome\<close>

fun sent_bytes :: "writer_call list \<Rightarrow> string" where
  "sent_bytes [] = []"
| "sent_bytes (WriteBody buf # calls) = buf @ sent_bytes calls"
| "sent_bytes (call # calls) = sent_bytes calls"

fun body_chunks :: "writer_call list \<Rightarrow> string list" where
  "body_chunks [] = []"
| "body_chunks (WriteBody buf # calls) = buf # body_chunks calls"
| "body_chunks (call # calls) = body_chunks calls"

lemma sent_wire [simp]: "sent_bytes (wire s0 chunks []) = concat chunks" "sent_bytes (wire s0 chunks [EndCall]) = concat chunks"
proof -
  have "sent_bytes (map WriteBody chunks @ calls) = concat chunks @ sent_bytes calls" for calls
    by (induction chunks) auto
  then show "sent_bytes (wire s0 chunks []) = concat chunks" "sent_bytes (wire s0 chunks [EndCall]) = concat chunks"
    by (simp_all add: wire_def) (metis append_Nil2 sent_bytes.simps(1))+
qed

lemma chunks_wire [simp]: "body_chunks (wire s0 chunks []) = chunks" "body_chunks (wire s0 chunks [EndCall]) = chunks"
proof -
  have "body_chunks (map WriteBody chunks @ calls) = chunks @ body_chunks calls" for calls
    by (induction chunks) auto
  then show "body_chunks (wire s0 chunks []) = chunks" "body_chunks (wire s0 chunks [EndCall]) = chunks"
    by (simp_all add: wire_def) (metis append_Nil2 body_chunks.simps(1))+
qed

definition prepared :: "stream_env \<Rightarrow> TransferStats \<Rightarrow> TransferParams \<Rightarrow> string \<Rightarrow> TransferState" where
  "prepared env stats p content =
     \<lparr>st_file = drop (nat (sendStart p)) content, st_remaining = sendLen p, st_calls = [],
      st_ownership = True, st_params = p, st_completed = [],
      st_stats = recordStart (word_of_int (sendLen p)) stats, st_startTime = se_now env,
      st_finished = False, st_pumping = False, st_cleanupScheduled = False,
      st_onwrite = False, st_onclose = False, st_posted = [], st_leaked = False, st_live = True\<rparr>"

lemma prepared_simps [simp]:
  "st_file (prepared env stats p content) = drop (nat (sendStart p)) content"
  "st_remaining (prepared env stats p content) = sendLen p" "st_params (prepared env stats p content) = p"
  "st_stats (prepared env stats p content) = recordStart (word_of_int (sendLen p)) stats"
  "st_startTime (prepared env stats p content) = se_now env" "st_completed (prepared env stats p content) = []"
  "st_calls (prepared env stats p content) = []" "st_live (prepared env stats p content)"
  "\<not> st_finished (prepared env stats p content)" "\<not> st_pumping (prepared env stats p content)"
  "\<not> st_onwrite (prepared env stats p content)" "\<not> st_onclose (prepared env stats p content)"
  "st_posted (prepared env stats p content) = []" "\<not> st_cleanupScheduled (prepared env stats p content)"
  by (simp_all add: prepared_def)

lemma send_file:
  "snd (StreamTransfer_send files env seek posts stats p c) = Inr s \<Longrightarrow> \<exists>content. files (tp_physicalPath p) = Some content"
  by (auto simp: StreamTransfer_send_def Let_def split: option.splits if_splits)

lemma send_prepared:
  assumes "StreamTransfer_send files env seek posts stats p c = (c', Inr s)" and "files (tp_physicalPath p) = Some content"
  shows "posts \<Longrightarrow> waiting (prepared env stats p content) s" and "transfer_inv (prepared env stats p content) s"
    and "c' = Context_markStreamingHandoff (range_status p (download_headers p c))"
    and "\<not> posts \<Longrightarrow> ended (prepared env stats p content) False s"
proof -
  let ?s0 = "prepared env stats p content"
  let ?task = "if sendLen p = 0 then PostEmpty else PostStart (sendLen p)"
  have s: "s = stream_release env (if posts then ?s0\<lparr>st_posted := [?task]\<rparr> else stream_finish env False ?s0)"
    and c': "c' = Context_markStreamingHandoff (range_status p (download_headers p c))"
    using assms by (auto simp: StreamTransfer_send_def prepared_def Let_def split: if_splits)
  show "c' = Context_markStreamingHandoff (range_status p (download_headers p c))" by (rule c')
  have o: "still_open ?s0 ?s0" by (simp add: still_open_def)
  show w: "waiting ?s0 s" if posts
    using that by (simp add: s stream_release_def waiting_def still_open_def)
  show e: "ended ?s0 False s" if "\<not> posts"
  proof -
    have "ended ?s0 False (stream_finish env False ?s0)" by (rule finish_ended [OF o]) (simp_all add: wire_ok_def)
    then show ?thesis using that release_done [of ?s0 False "stream_finish env False ?s0" env] by (simp add: s)
  qed
  show "transfer_inv ?s0 s" using w e unfolding transfer_inv_def by blast
qed

lemma wire_ok_sent:
  assumes "wire_ok s0 calls"
  shows "sent_bytes calls = take (length (sent_bytes calls)) (take (nat (st_remaining s0)) (st_file s0))
    \<and> list_all (\<lambda>ch. 0 < length ch \<and> int (length ch) \<le> kChunkSize) (body_chunks calls)"
proof -
  have "concat chunks = take (length (concat chunks)) (take (nat (st_remaining s0)) (st_file s0))" if "chunks_ok s0 chunks" for chunks
    using that unfolding chunks_ok_def by (simp add: min_absorb1)
  then show ?thesis using assms by (auto simp: wire_ok_def chunks_ok_def)
qed

lemma wire_full_sent:
  assumes "wire_full s0 calls"
  shows "sent_bytes calls = take (nat (st_remaining s0)) (st_file s0) \<and> int (length (sent_bytes calls)) = st_remaining s0
    \<and> hd calls = EndHeaders ''Content-Length'' (st_remaining s0) \<and> last calls = EndCall"
proof -
  obtain chunks where c: "chunks_ok s0 chunks" "calls = wire s0 chunks [EndCall]" "int (length (concat chunks)) = st_remaining s0"
    using assms unfolding wire_full_def by blast
  then have "nat (st_remaining s0) = length (concat chunks)" by linarith
  moreover have "sent_bytes calls = concat chunks" using c by simp
  moreover have "concat chunks = take (length (concat chunks)) (st_file s0)" using c(1) unfolding chunks_ok_def by blast
  moreover have "hd calls = EndHeaders ''Content-Length'' (st_remaining s0) \<and> last calls = EndCall"
    using c(2) by (simp add: wire_def)
  ultimately show ?thesis using c(3) by simp
qed

text \<open>
  C18: Whatever the loop, the peer and the disk do after \<open>send\<close> has accepted a transfer, its result is
  reported at most once, to the callback and to the statistics alike, at the moment the transfer
  finishes or its state is destroyed, and nothing changes it afterwards.  But if the loop is destroyed before
  the first task has run, the task's payload leaks with the state, and no result is ever reported.
\<close>

theorem StreamTransfer_reports_once:
  assumes "StreamTransfer_send files env seek posts stats p c = (c', Inr s)"
    and "files (tp_physicalPath p) = Some content"
  shows "((\<not> st_finished (stream_run evs s) \<and> st_live (stream_run evs s) \<and> st_completed (stream_run evs s) = []
      \<and> st_stats (stream_run evs s) = recordStart (word_of_int (sendLen p)) stats)
    \<or> (\<exists>b now. st_completed (stream_run (evs @ evs') s) = complete_call p b
         \<and> st_stats (stream_run (evs @ evs') s) = recordEnd b (se_now env) now (recordStart (word_of_int (sendLen p)) stats)
         \<and> st_completed (stream_run evs s) = complete_call p b))
    \<and> st_completed (stream_run (EvLoopGone # evs) s) = (if posts then [] else complete_call p False)"
proof (rule conjI)
  let ?s0 = "prepared env stats p content" and ?t = "stream_run evs s"
  have "transfer_inv ?s0 ?t" by (rule stream_run_inv [OF send_prepared(2) [OF assms]])
  then consider "still_open ?s0 ?t" | (ended) b where "ended ?s0 b ?t"
    unfolding transfer_inv_def waiting_def flowing_at_def lost_def by blast
  then show "(\<not> st_finished ?t \<and> st_live ?t \<and> st_completed ?t = []
      \<and> st_stats ?t = recordStart (word_of_int (sendLen p)) stats)
    \<or> (\<exists>b now. st_completed (stream_run (evs @ evs') s) = complete_call p b
         \<and> st_stats (stream_run (evs @ evs') s) = recordEnd b (se_now env) now (recordStart (word_of_int (sendLen p)) stats)
         \<and> st_completed ?t = complete_call p b)"
  proof cases
    case 1
    then show ?thesis by (simp add: still_open_def)
  next
    case ended
    have "stream_run (evs @ evs') s = stream_run evs' ?t" by (simp add: stream_run_def)
    then show ?thesis using ended_run [OF ended, of evs'] ended by (auto simp: ended_def)
  qed
  have run: "stream_run (EvLoopGone # evs) s = stream_run evs (stream_step EvLoopGone s)"
    by (simp add: stream_run_def del: stream_step.simps)
  show "st_completed (stream_run (EvLoopGone # evs) s) = (if posts then [] else complete_call p False)"
  proof (cases posts)
    case True
    then have "lost ?s0 (stream_run (EvLoopGone # evs) s)"
      unfolding run using lost_run [OF waiting_lost] send_prepared(1) [OF assms] by blast
    then show ?thesis using True by (simp add: lost_def still_open_def)
  next
    case False
    then have "ended ?s0 False (stream_run (EvLoopGone # evs) s)"
      unfolding run using ended_run [OF ended_step] send_prepared(4) [OF assms] by blast
    then show ?thesis using False by (simp add: ended_def)
  qed
qed

definition stream_ready :: stream_env where
  "stream_ready = \<lparr>se_loop = True, se_now = 7, se_connected = True, se_endHeaders = 0, se_sync = NoCall,
     se_ticks = (\<lambda>k. \<lparr>pk_connected = True, pk_writeComplete = True, pk_ret = 0, pk_sync = NoCall, pk_endSync = NoCall\<rparr>)\<rparr>"

definition demo_params :: TransferParams where
  "demo_params = TransferParams_ctor\<lparr>tp_physicalPath := ''f'', tp_fileSize := 3, tp_onComplete := True\<rparr>"

definition demo_files :: file_system where
  "demo_files = [''f'' \<mapsto> ''abc'']"

abbreviation "demo_async \<equiv> Context_async demo_request demo_response (Some demo_writer) ()"

definition demo_stream :: TransferState where
  "demo_stream = (prepared stream_ready TransferStats_ctor demo_params ''abc'')\<lparr>st_posted := [PostStart 3]\<rparr>"

lemma demo_send:
  "StreamTransfer_send demo_files stream_ready True True TransferStats_ctor demo_params demo_async
     = (Context_markStreamingHandoff (range_status demo_params (download_headers demo_params demo_async)), Inr demo_stream)"
  by (simp add: StreamTransfer_send_def Context_writerOwnership_def Context_async_def stream_ready_def demo_files_def
      demo_params_def TransferParams_ctor_def isRange_def sendLen_def demo_stream_def prepared_def stream_release_def Let_def)

lemma StreamTransfer_reports_once_witness:
  "(\<not> st_finished (stream_run [EvPosted stream_ready] demo_stream) \<and> st_live (stream_run [EvPosted stream_ready] demo_stream)
      \<and> st_completed (stream_run [EvPosted stream_ready] demo_stream) = []
      \<and> st_stats (stream_run [EvPosted stream_ready] demo_stream) = recordStart (word_of_int (sendLen demo_params)) TransferStats_ctor)
    \<or> (\<exists>b now. st_completed (stream_run [EvPosted stream_ready, EvClose stream_ready] demo_stream) = complete_call demo_params b
         \<and> st_stats (stream_run [EvPosted stream_ready, EvClose stream_ready] demo_stream)
             = recordEnd b (se_now stream_ready) now (recordStart (word_of_int (sendLen demo_params)) TransferStats_ctor)
         \<and> st_completed (stream_run [EvPosted stream_ready] demo_stream) = complete_call demo_params b)"
  using StreamTransfer_reports_once [OF demo_send, of "''abc''" "[EvPosted stream_ready]" "[EvClose stream_ready]"]
  by (simp add: demo_params_def TransferParams_ctor_def demo_files_def)

text \<open>
  C19: At every moment the bytes written are a prefix of the requested range of the file, in chunks of at
  most 256 KB; and success is reported only after the whole range, of exactly the length announced in
  \<open>Content-Length\<close>, and the end of the response have been written.
\<close>

theorem StreamTransfer_sends_range:
  assumes "StreamTransfer_send files env seek posts stats p c = (c', Inr s)"
    and "files (tp_physicalPath p) = Some content"
  shows "(let calls = st_calls (stream_run evs s)
     in sent_bytes calls = take (length (sent_bytes calls)) (wanted p content)
        \<and> list_all (\<lambda>ch. 0 < length ch \<and> length ch \<le> 262144) (body_chunks calls)
        \<and> (True \<in> set (st_completed (stream_run evs s)) \<longrightarrow>
             sent_bytes calls = wanted p content \<and> int (length (sent_bytes calls)) = sendLen p
             \<and> hd calls = EndHeaders ''Content-Length'' (sendLen p) \<and> last calls = EndCall))"
proof -
  let ?s0 = "prepared env stats p content" and ?t = "stream_run evs s"
  have w: "take (nat (st_remaining ?s0)) (st_file ?s0) = wanted p content" by (simp add: wanted_def)
  have inv: "transfer_inv ?s0 ?t" by (rule stream_run_inv [OF send_prepared(2) [OF assms]])
  then have "wire_ok ?s0 (st_calls ?t)"
    by (auto simp: transfer_inv_def waiting_def flowing_at_def ended_def lost_def wire_ok_def)
  note sent = wire_ok_sent [OF this, unfolded w]
  have full: "wire_full ?s0 (st_calls ?t)" if "True \<in> set (st_completed ?t)"
    using inv that
    by (auto simp: transfer_inv_def waiting_def flowing_at_def lost_def still_open_def ended_def complete_call_def split: if_splits)
  have "True \<in> set (st_completed ?t) \<longrightarrow>
     sent_bytes (st_calls ?t) = wanted p content \<and> int (length (sent_bytes (st_calls ?t))) = sendLen p
     \<and> hd (st_calls ?t) = EndHeaders ''Content-Length'' (sendLen p) \<and> last (st_calls ?t) = EndCall"
    using wire_full_sent [OF full] unfolding wanted_def prepared_simps by (rule impI)
  moreover have "list_all (\<lambda>ch. 0 < length ch \<and> length ch \<le> 262144) (body_chunks (st_calls ?t))"
    using sent by (auto simp: kChunkSize_def list_all_iff)
  ultimately show ?thesis using sent unfolding Let_def by blast
qed

lemma StreamTransfer_sends_range_witness:
  "(let calls = st_calls (stream_run [EvPosted stream_ready, EvWrite stream_ready] demo_stream)
     in sent_bytes calls = take (length (sent_bytes calls)) (wanted demo_params ''abc'')
        \<and> list_all (\<lambda>ch. 0 < length ch \<and> length ch \<le> 262144) (body_chunks calls))"
proof -
  have "demo_files (tp_physicalPath demo_params) = Some ''abc''"
    by (simp add: demo_files_def demo_params_def TransferParams_ctor_def)
  from StreamTransfer_sends_range [OF demo_send this, of "[EvPosted stream_ready, EvWrite stream_ready]"]
  show ?thesis unfolding Let_def by blast
qed

section \<open>Progress\<close>

text \<open>A connection that stays up and whose writes succeed; the first query finds the buffer drained.\<close>

definition good_env :: "stream_env \<Rightarrow> bool" where
  "good_env env \<longleftrightarrow> pk_writeComplete (se_ticks env 0)
     \<and> (\<forall>k. pk_connected (se_ticks env k) \<and> 0 \<le> pk_ret (se_ticks env k) \<and> pk_sync (se_ticks env k) \<noteq> OnClose
         \<and> pk_endSync (se_ticks env k) \<noteq> OnClose)"

text \<open>A transfer in flight whose file still holds all the bytes to be sent.\<close>

definition flowing_well :: "TransferState \<Rightarrow> TransferState \<Rightarrow> bool" where
  "flowing_well s0 s \<longleftrightarrow> (\<exists>chunks. flowing_at s0 chunks s) \<and> 0 < st_remaining s
     \<and> st_remaining s \<le> int (length (st_file s))"

lemma chunk_of_good:
  assumes "flowing_well s0 s"
  shows "chunk_of s \<noteq> []" and "int (length (chunk_of s)) = min (st_remaining s) kChunkSize"
proof -
  have "0 < st_remaining s" "st_remaining s \<le> int (length (st_file s))" using assms by (simp_all add: flowing_well_def)
  then have l: "length (chunk_of s) = nat (min (st_remaining s) kChunkSize)"
    by (auto simp: chunk_of_def kChunkSize_def)
  then show "int (length (chunk_of s)) = min (st_remaining s) kChunkSize"
    using \<open>0 < st_remaining s\<close> by (simp add: kChunkSize_def)
  then show "chunk_of s \<noteq> []" using \<open>0 < st_remaining s\<close> by (auto simp: kChunkSize_def)
qed

lemma chunk_written_good:
  assumes "flowing_well s0 s" and "sync \<noteq> OnClose"
  shows "flowing_well s0 (chunk_written env sync s) \<or>
      ((\<exists>chunks. flowing_at s0 chunks (chunk_written env sync s)) \<and> st_remaining (chunk_written env sync s) \<le> 0)"
    and "st_remaining (chunk_written env sync s) = st_remaining s - min (st_remaining s) kChunkSize"
proof -
  let ?s1 = "chunk_written env sync s"
  obtain chunks where f: "flowing_at s0 chunks s" using assms(1) by (auto simp: flowing_well_def)
  note g = chunk_of_good [OF assms(1)]
  have s1: "?s1 = writer_do (WriteBody (chunk_of s)) (s\<lparr>st_file := drop (length (chunk_of s)) (st_file s),
      st_remaining := st_remaining s - int (length (chunk_of s))\<rparr>)"
    using assms(2) by (simp add: chunk_written_def Let_def)
  show r: "st_remaining ?s1 = st_remaining s - min (st_remaining s) kChunkSize"
    using g(2) by (simp add: s1 writer_do_def)
  have "\<not> st_finished ?s1" using f by (simp add: s1 writer_do_def flowing_at_def still_open_def)
  then have "flowing_at s0 (chunks @ [chunk_of s]) ?s1" using chunk_written_cases [OF f g(1), of env sync] by blast
  moreover have "st_remaining ?s1 \<le> int (length (st_file ?s1))"
    using assms(1) by (simp add: s1 writer_do_def flowing_well_def) linarith
  ultimately show "flowing_well s0 ?s1 \<or> ((\<exists>chunks. flowing_at s0 chunks ?s1) \<and> st_remaining ?s1 \<le> 0)"
    unfolding flowing_well_def by (cases "0 < st_remaining ?s1") auto
qed

lemma pump_loop_good:
  assumes "flowing_well s0 s" and "good_env env" and "0 \<le> st_remaining s0"
  shows "ended s0 True (pump_loop env k s) \<or>
    (flowing_well s0 (pump_loop env k s)
     \<and> st_remaining (pump_loop env k s) \<le> st_remaining s - (if pk_writeComplete (se_ticks env k) then kChunkSize else 0))"
  using assms
proof (induction env k s rule: pump_loop.induct)
  case (1 env k s)
  let ?tick = "se_ticks env k"
  let ?s1 = "chunk_written env (pk_sync ?tick) s"
  obtain chunks where f: "flowing_at s0 chunks s" using 1(2) by (auto simp: flowing_well_def)
  then have nf: "\<not> st_finished s" by (simp add: flowing_at_def still_open_def)
  have tick: "pk_connected ?tick" "\<not> pk_ret ?tick < 0" "pk_sync ?tick \<noteq> OnClose" "pk_endSync ?tick \<noteq> OnClose"
    using 1(3) by (simp_all add: good_env_def not_less)
  show ?case
  proof (cases "pk_writeComplete ?tick")
    case False
    then have "pump_loop env k s = s" using tick by (subst pump_loop.simps) (simp add: Let_def)
    then show ?thesis using False 1(2) by simp
  next
    case True
    note c = chunk_of_good [OF 1(2)]
    note w = chunk_written_good [OF 1(2) tick(3), of env]
    have step: "pump_loop env k s =
       (if st_remaining ?s1 \<le> 0 then stream_finish env True (end_response env (pk_endSync ?tick) ?s1) else pump_loop env (k + 1) ?s1)"
      using nf tick True c(1) by (subst pump_loop.simps) (simp add: Let_def)
    show ?thesis
    proof (cases "st_remaining ?s1 \<le> 0")
      case le: True
      then obtain chunks' where "flowing_at s0 chunks' ?s1" using w(1) by (auto simp: flowing_well_def)
      from end_cases(2) [OF this le 1(4) tick(4)] show ?thesis using step le by simp
    next
      case gt: False
      then have fw: "flowing_well s0 ?s1" using w(1) by blast
      have "min (st_remaining s) kChunkSize = kChunkSize" using gt w(2) by (auto simp: min_def split: if_splits)
      then have r: "st_remaining ?s1 = st_remaining s - kChunkSize" using w(2) by simp
      have "ended s0 True (pump_loop env (k + 1) ?s1) \<or>
        (flowing_well s0 (pump_loop env (k + 1) ?s1) \<and> st_remaining (pump_loop env (k + 1) ?s1) \<le> st_remaining ?s1
           - (if pk_writeComplete (se_ticks env (k + 1)) then kChunkSize else 0))"
        using "1.IH" [OF refl nf _ _ c(1) refl] tick True gt fw 1(3,4) by simp
      then show ?thesis using step gt True r by (auto simp: kChunkSize_def split: if_splits)
    qed
  qed
qed

lemma writes_good:
  assumes "flowing_well s0 s" and "\<not> st_pumping s" and "0 \<le> st_remaining s0" and "list_all good_env envs"
    and "st_remaining s \<le> kChunkSize * int (length envs)"
  shows "ended s0 True (stream_run (map EvWrite envs) s)"
  using assms
proof (induction envs arbitrary: s)
  case Nil
  then show ?case by (simp add: flowing_well_def)
next
  case (Cons env envs)
  let ?s1 = "stream_step (EvWrite env) s"
  let ?p = "pump_loop env 0 (s\<lparr>st_pumping := True\<rparr>)"
  have w: "flowing_well s0 (s\<lparr>st_pumping := True\<rparr>)" using Cons.prems(1) by (simp add: flowing_well_def)
  have "\<not> st_finished s" "st_onwrite s"
    using Cons.prems(1) by (auto simp: flowing_well_def flowing_at_def still_open_def)
  then have s1: "?s1 = ?p\<lparr>st_pumping := False\<rparr>" using Cons.prems(2) by (simp add: pump_def)
  have "pk_writeComplete (se_ticks env 0)" "good_env env" using Cons.prems(4) by (simp_all add: good_env_def)
  then have "ended s0 True ?p \<or> (flowing_well s0 ?p \<and> st_remaining ?p \<le> st_remaining s - kChunkSize)"
    using pump_loop_good [OF w _ Cons.prems(3), of env 0] by simp
  then consider "ended s0 True ?s1" | "flowing_well s0 ?s1" "st_remaining ?s1 \<le> st_remaining s - kChunkSize"
    unfolding s1 by (auto simp: flowing_well_def)
  then show ?case
  proof cases
    case 1
    then have "ended s0 True (stream_run (map EvWrite envs) ?s1)" by (rule ended_run)
    then show ?thesis by (simp add: stream_run_def del: stream_step.simps)
  next
    case 2
    have "kChunkSize * int (length (env # envs)) = kChunkSize * int (length envs) + kChunkSize"
      by (simp add: algebra_simps)
    then have "ended s0 True (stream_run (map EvWrite envs) ?s1)"
      using Cons.IH [OF 2(1) _ Cons.prems(3)] Cons.prems(4,5) 2(2) s1 by simp
    then show ?thesis by (simp add: stream_run_def del: stream_step.simps)
  qed
qed

text \<open>
  C20: If the file holds the requested range, the connection stays up and every write succeeds, then as
  many write events as the range has chunks of 256 KB are enough: the transfer then has reported success,
  and so has sent the whole range.
\<close>

theorem StreamTransfer_completes:
  assumes "StreamTransfer_send files env seek True stats p c = (c', Inr s)"
    and "files (tp_physicalPath p) = Some content"
    and "0 < sendLen p" and "sendStart p + sendLen p \<le> int (length content)"
    and "se_connected env0" and "0 \<le> se_endHeaders env0" and "se_sync env0 = NoCall"
    and "list_all good_env envs" and "sendLen p \<le> 262144 * int (length envs)"
  shows "st_completed (stream_run (EvPosted env0 # map EvWrite envs) s) = complete_call p True
    \<and> sent_bytes (st_calls (stream_run (EvPosted env0 # map EvWrite envs) s)) = wanted p content"
proof -
  let ?s0 = "prepared env stats p content"
  have w: "waiting ?s0 s" using send_prepared(1) [OF assms(1,2)] by simp
  define s1 where "s1 = stream_step (EvPosted env0) s"
  have s1: "s1 = stream_release env0 (writer_do (EndHeaders ''Content-Length'' (sendLen p))
      (s\<lparr>st_posted := [], st_onwrite := True, st_onclose := True\<rparr>))"
    using w assms(3,5-7) by (simp add: s1_def waiting_def still_open_def startStreaming_def Let_def)
  have start: "0 \<le> sendStart p" by (simp add: sendStart_def isRange_def)
  have "flowing_at ?s0 [] s1"
    using w by (simp add: s1 stream_release_def flowing_at_def waiting_def still_open_def writer_do_def wire_def chunks_ok_def)
  moreover have "st_remaining s1 = sendLen p" "st_file s1 = drop (nat (sendStart p)) content" "\<not> st_pumping s1"
    using w by (simp_all add: s1 stream_release_def writer_do_def waiting_def)
  ultimately have "flowing_well ?s0 s1" "\<not> st_pumping s1" "st_remaining s1 \<le> kChunkSize * int (length envs)"
    using assms(3,4,9) start by (auto simp: flowing_well_def kChunkSize_def)
  then have e: "ended ?s0 True (stream_run (map EvWrite envs) s1)"
    using writes_good [of ?s0 s1 envs] assms(3,8) by simp
  have run: "stream_run (EvPosted env0 # map EvWrite envs) s = stream_run (map EvWrite envs) s1"
    by (simp add: stream_run_def s1_def)
  have "wire_full ?s0 (st_calls (stream_run (map EvWrite envs) s1))" using e by (simp add: ended_def)
  from wire_full_sent [OF this] show ?thesis using e unfolding run by (simp add: ended_def wanted_def)
qed

lemma StreamTransfer_completes_witness:
  "st_completed (stream_run (EvPosted stream_ready # map EvWrite [stream_ready]) demo_stream) = complete_call demo_params True
   \<and> sent_bytes (st_calls (stream_run (EvPosted stream_ready # map EvWrite [stream_ready]) demo_stream))
       = wanted demo_params ''abc''"
  by (rule StreamTransfer_completes [OF demo_send])
    (simp_all add: demo_files_def demo_params_def TransferParams_ctor_def sendLen_def sendStart_def isRange_def
      stream_ready_def good_env_def)

end
