(* ===== verification/TransferService.thy ===== *)
theory TransferService imports StreamTransfer begin

text \<open>
  One \<open>StreamTransfer\<close> object with many transfers: each \<open>TransferState\<close> keeps a pointer to the statistics
  of its strategy (src/StreamTransfer.cpp, \<open>state->stats = &m_stats\<close>; \<open>IFileTransfer\<close> in
  include/intertwine/fw/IFileTransfer.hpp), so the events of all transfers update one block of counters.
  A run is any sequence of calls of \<open>send\<close> and events of the transfers.
\<close>

section \<open>The strategy and its transfers\<close>

record stream_service =
  sv_stats :: TransferStats
  sv_transfers :: "TransferState list"     \<comment> \<open>what was accepted; \<open>st_stats\<close> stands for the pointer\<close>
  sv_params :: "TransferParams list"        \<comment> \<open>their parameters\<close>

definition stream_service_start :: stream_service where
  "stream_service_start = \<lparr>sv_stats = TransferStats_ctor, sv_transfers = [], sv_params = []\<rparr>"

datatype 'w service_event =
    Send file_system stream_env bool bool TransferParams "'w Context"
  | Step nat stream_event

text \<open>A step reads and writes the shared counters through the pointer.\<close>

fun service_step :: "'w service_event \<Rightarrow> stream_service \<Rightarrow> stream_service" where
  "service_step (Send files env seek posts p c) v =
     (case snd (StreamTransfer_send files env seek posts (sv_stats v) p c) of
        Inl refused \<Rightarrow> v
      | Inr s \<Rightarrow> \<lparr>sv_stats = st_stats s, sv_transfers = sv_transfers v @ [s], sv_params = sv_params v @ [p]\<rparr>)"
| "service_step (Step i ev) v =
     (if i < length (sv_transfers v)
      then let s = stream_step ev ((sv_transfers v ! i)\<lparr>st_stats := sv_stats v\<rparr>)
           in v\<lparr>sv_stats := st_stats s, sv_transfers := (sv_transfers v)[i := s]\<rparr>
      else v)"

definition service_run :: "'w service_event list \<Rightarrow> stream_service \<Rightarrow> stream_service" where
  "service_run evs v = foldl (\<lambda>v ev. service_step ev v) v evs"

section \<open>A step of one transfer under any statistics\<close>

definition with_stats :: "TransferStats \<Rightarrow> TransferState \<Rightarrow> TransferState" where
  "with_stats st s = s\<lparr>st_stats := st\<rparr>"

lemma with_stats_simps [simp]:
  "with_stats a (with_stats b s) = with_stats a s" "st_stats (with_stats a s) = a"
  "st_completed (with_stats a s) = st_completed s" "st_startTime (with_stats a s) = st_startTime s"
  "st_params (with_stats a s) = st_params s" "with_stats (st_stats s) s = s"
  by (simp_all add: with_stats_def)

lemma wire_with_stats [simp]:
  "wire_ok (with_stats a s0) = wire_ok s0" "wire_full (with_stats a s0) = wire_full s0"
  "wire (with_stats a s0) = wire s0" "chunks_ok (with_stats a s0) = chunks_ok s0"
  by (auto simp: with_stats_def wire_ok_def wire_full_def wire_def chunks_ok_def fun_eq_iff)

text \<open>A transfer without a result, and one with the result \<open>b\<close>.\<close>

definition pending :: "TransferState \<Rightarrow> TransferState \<Rightarrow> bool" where
  "pending s0 s = (waiting s0 s \<or> (\<exists>chunks. flowing_at s0 chunks s) \<or> lost s0 s)"

definition settled :: "TransferState \<Rightarrow> bool \<Rightarrow> TransferState \<Rightarrow> bool" where
  "settled s0 b s = (\<exists>x y. ended (with_stats x s0) b (with_stats y s))"

lemma pending_with_stats: "pending (with_stats x s0) (with_stats x s) \<Longrightarrow> pending (with_stats y s0) (with_stats y s)"
  by (auto simp: pending_def waiting_def flowing_at_def lost_def still_open_def with_stats_def
      chunks_ok_def wire_def)

lemma pending_open: "pending s0 s \<Longrightarrow> st_stats s = st_stats s0 \<and> st_completed s = []"
  by (auto simp: pending_def waiting_def flowing_at_def lost_def still_open_def)

lemma ended_with_stats:
  "ended s0 b s \<Longrightarrow> settled s0 b s" "ended (with_stats x s0) b s \<Longrightarrow> settled s0 b s"
  unfolding settled_def by (metis with_stats_simps(6), metis with_stats_simps(6))

text \<open>A settled transfer leaves the statistics alone.\<close>

lemma ended_stats: "ended s0 b s \<Longrightarrow> st_stats (stream_step ev s) = st_stats s"
  by (cases ev) (auto simp: ended_def pump_def stream_release_def Let_def split: list.splits)

text \<open>Which block of counters it is settled against does not matter, since every block is what some end left.\<close>

lemma recordEnd_surj: "\<exists>x. X = recordEnd b start now x"
proof
  show "X = recordEnd b start now (X\<lparr>ts_activeCount := ts_activeCount X + 1,
      ts_errorCount := (if b then ts_errorCount X else ts_errorCount X - 1),
      ts_totalDurationMs := ts_totalDurationMs X - elapsed_ms start now\<rparr>)"
    by (simp add: recordEnd_def)
qed

lemma settled_any:
  assumes "settled s0 b s"
  shows "\<exists>x. ended (with_stats x s0) b (with_stats X s)"
proof -
  obtain x y where e: "ended (with_stats x s0) b (with_stats y s)" using assms by (auto simp: settled_def)
  obtain z where "X = recordEnd b (st_startTime s0) 0 z" using recordEnd_surj by blast
  then have "ended (with_stats z s0) b (with_stats X s)"
    using e by (auto simp: ended_def with_stats_def wire_ok_def wire_full_def wire_def chunks_ok_def)
  then show ?thesis by blast
qed

lemma settled_step:
  assumes "settled s0 b s"
  shows "settled s0 b (stream_step ev (with_stats X s)) \<and> st_stats (stream_step ev (with_stats X s)) = X"
proof -
  obtain x where e: "ended (with_stats x s0) b (with_stats X s)" using settled_any [OF assms] by blast
  show ?thesis
    using ended_with_stats(2) [OF ended_step [OF e]] ended_stats [OF e] by simp
qed

lemma pending_step:
  assumes "pending (with_stats x s0) (with_stats x s)"
  shows "(pending (with_stats X s0) (stream_step ev (with_stats X s)) \<and> st_stats (stream_step ev (with_stats X s)) = X)
    \<or> (\<exists>b now. settled s0 b (stream_step ev (with_stats X s))
         \<and> st_stats (stream_step ev (with_stats X s)) = recordEnd b (st_startTime s0) now X)"
proof -
  have "transfer_inv (with_stats X s0) (with_stats X s)"
    using pending_with_stats [OF assms] by (auto simp: pending_def transfer_inv_def)
  from stream_step_inv [OF this, of ev]
  consider "pending (with_stats X s0) (stream_step ev (with_stats X s))"
    | (ended) b where "ended (with_stats X s0) b (stream_step ev (with_stats X s))"
    unfolding transfer_inv_def pending_def by blast
  then show ?thesis
  proof cases
    case 1
    then show ?thesis using pending_open by fastforce
  next
    case ended
    then obtain now where "st_stats (stream_step ev (with_stats X s)) = recordEnd b (st_startTime s0) now X"
      by (auto simp: ended_def)
    then show ?thesis using ended_with_stats(2) [OF ended] by blast
  qed
qed

section \<open>The shared counters\<close>

text \<open>
  \<open>rs\<close> lists the results of the transfers so far, \<open>None\<close> for one that has none yet; \<open>s0s\<close> the states that
  \<open>send\<close> prepared.
\<close>

definition transfer_ok :: "bool option \<Rightarrow> TransferState \<Rightarrow> TransferState \<Rightarrow> bool" where
  "transfer_ok r s0 s = (case r of None \<Rightarrow> \<exists>x. pending (with_stats x s0) (with_stats x s) | Some b \<Rightarrow> settled s0 b s)"

lemma transfer_ok_result:
  assumes "transfer_ok r s0 s"
  shows "r = None \<longleftrightarrow> \<not> st_finished s \<and> st_live s"
    and "st_completed s = (case r of None \<Rightarrow> [] | Some b \<Rightarrow> complete_call (st_params s0) b)"
  using assms
  by (cases r; auto simp: transfer_ok_def pending_def waiting_def flowing_at_def lost_def still_open_def with_stats_def
      settled_def ended_def)+

definition balanced :: "bool option list \<Rightarrow> TransferParams list \<Rightarrow> TransferStats \<Rightarrow> bool" where
  "balanced rs ps st =
     (ts_totalCount st = of_nat (length rs) \<and> ts_totalBytes st = (\<Sum>p\<leftarrow>ps. word_of_int (sendLen p))
      \<and> ts_activeCount st = of_nat (count_list rs None) \<and> ts_errorCount st = of_nat (count_list rs (Some False)))"

definition service_inv :: "bool option list \<Rightarrow> TransferState list \<Rightarrow> stream_service \<Rightarrow> bool" where
  "service_inv rs s0s v =
     (length s0s = length rs \<and> length (sv_transfers v) = length rs \<and> map st_params s0s = sv_params v \<and> balanced rs (sv_params v) (sv_stats v)
      \<and> (\<forall>i < length rs. transfer_ok (rs ! i) (s0s ! i) (sv_transfers v ! i)))"

lemma count_list_update:
  "i < length xs \<Longrightarrow> count_list (xs[i := x]) y + (if xs ! i = y then 1 else 0) = count_list xs y + (if x = y then 1 else 0)"
proof (induction xs arbitrary: i)
  case (Cons z xs)
  show ?case using Cons.prems Cons.IH [of "i - 1"] by (cases i) (simp_all split: if_splits)
qed simp

text \<open>A new result is counted once.\<close>

lemma balanced_end:
  assumes "balanced rs ps st" and "i < length rs" and "rs ! i = None"
  shows "balanced (rs[i := Some b]) ps (recordEnd b start now st)"
proof -
  have "count_list rs None = count_list (rs[i := Some b]) None + 1"
    "count_list (rs[i := Some b]) (Some False) = count_list rs (Some False) + (if b then 0 else 1)"
    using count_list_update [OF assms(2), of "Some b" None] count_list_update [OF assms(2), of "Some b" "Some False"]
      assms(3) by auto
  then show ?thesis using assms(1) by (simp add: balanced_def recordEnd_def)
qed

lemma service_inv_event:
  assumes inv: "service_inv rs s0s v"
  shows "\<exists>rs'. service_inv rs' s0s (service_step (Step i ev) v)"
proof (cases "i < length rs")
  case False
  then show ?thesis using inv by (intro exI [of _ rs]) (simp add: service_inv_def)
next
  case i: True
  define s where "s = stream_step ev (with_stats (sv_stats v) (sv_transfers v ! i))"
  have step: "service_step (Step i ev) v = v\<lparr>sv_stats := st_stats s, sv_transfers := (sv_transfers v)[i := s]\<rparr>"
    using inv i by (simp add: service_inv_def s_def with_stats_def Let_def)
  have ok: "transfer_ok (rs ! i) (s0s ! i) (sv_transfers v ! i)" and bal: "balanced rs (sv_params v) (sv_stats v)"
    using inv i by (auto simp: service_inv_def)
  have put: "service_inv (rs[i := r]) s0s (service_step (Step i ev) v)"
    if "transfer_ok r (s0s ! i) s" "balanced (rs[i := r]) (sv_params v) (st_stats s)" for r
    using inv i that unfolding step by (auto simp: service_inv_def nth_list_update)
  have same: "rs[i := rs ! i] = rs" by simp
  show ?thesis
  proof (cases "rs ! i")
    case (Some b)
    then have "settled (s0s ! i) b s \<and> st_stats s = sv_stats v"
      using settled_step [of "s0s ! i" b "sv_transfers v ! i"] ok by (simp add: transfer_ok_def s_def)
    then have "service_inv (rs[i := rs ! i]) s0s (service_step (Step i ev) v)"
      using bal Some same by (intro put) (auto simp: transfer_ok_def)
    then show ?thesis by blast
  next
    case None
    then obtain x where "pending (with_stats x (s0s ! i)) (with_stats x (sv_transfers v ! i))"
      using ok by (auto simp: transfer_ok_def)
    from pending_step [OF this, of "sv_stats v" ev, folded s_def]
    consider "pending (with_stats (sv_stats v) (s0s ! i)) s" "st_stats s = sv_stats v"
      | (ended) b now where "settled (s0s ! i) b s" "st_stats s = recordEnd b (st_startTime (s0s ! i)) now (sv_stats v)"
      by blast
    then show ?thesis
    proof cases
      case 1
      then have "pending (with_stats (sv_stats v) (s0s ! i)) (with_stats (sv_stats v) s)"
        using with_stats_simps(6) [of s] by simp
      then have "transfer_ok (rs ! i) (s0s ! i) s" using None by (auto simp: transfer_ok_def)
      then have "service_inv (rs[i := rs ! i]) s0s (service_step (Step i ev) v)"
        using bal 1(2) by (intro put) simp_all
      then show ?thesis by blast
    next
      case ended
      then have "service_inv (rs[i := Some b]) s0s (service_step (Step i ev) v)"
        using balanced_end [OF bal i None] by (intro put) (simp_all add: transfer_ok_def)
      then show ?thesis by blast
    qed
  qed
qed

text \<open>A transfer that is accepted is counted, and again if it has ended within \<open>send\<close>.\<close>

lemma service_inv_send:
  assumes inv: "service_inv rs s0s v"
  shows "\<exists>rs' s0s'. service_inv rs' s0s' (service_step (Send files env seek posts p c) v)"
proof (cases "snd (StreamTransfer_send files env seek posts (sv_stats v) p c)")
  case (Inl refused)
  then have "service_inv rs s0s (service_step (Send files env seek posts p c) v)" using inv by simp
  then show ?thesis by blast
next
  case (Inr s)
  obtain c' where send: "StreamTransfer_send files env seek posts (sv_stats v) p c = (c', Inr s)"
    using Inr by (cases "StreamTransfer_send files env seek posts (sv_stats v) p c") auto
  obtain content where content: "files (tp_physicalPath p) = Some content" using send_file [OF Inr] by blast
  let ?s0 = "prepared env (sv_stats v) p content"
  have step: "service_step (Send files env seek posts p c) v
      = \<lparr>sv_stats = st_stats s, sv_transfers = sv_transfers v @ [s], sv_params = sv_params v @ [p]\<rparr>"
    using Inr by simp
  have bal: "balanced (rs @ [None]) (sv_params v @ [p]) (recordStart (word_of_int (sendLen p)) (sv_stats v))"
    using inv by (simp add: service_inv_def balanced_def recordStart_def)
  have put: "service_inv (rs @ [r]) (s0s @ [?s0]) (service_step (Send files env seek posts p c) v)"
    if "transfer_ok r ?s0 s" "balanced (rs @ [r]) (sv_params v @ [p]) (st_stats s)" for r
    using inv that unfolding step by (auto simp: service_inv_def nth_append less_Suc_eq)
  show ?thesis
  proof (cases posts)
    case True
    then have w: "waiting ?s0 s" using send_prepared(1) [OF send content] by simp
    have "transfer_ok None ?s0 s"
      using pending_with_stats [of "st_stats s" ?s0 s] w unfolding transfer_ok_def
      by (auto simp: pending_def waiting_def still_open_def with_stats_def)
    then show ?thesis using put [of None] w bal by (auto simp: waiting_def still_open_def)
  next
    case False
    then have e: "ended ?s0 False s" using send_prepared(4) [OF send content] by simp
    then obtain now where "st_stats s = recordEnd False (st_startTime ?s0) now (st_stats ?s0)"
      by (auto simp: ended_def)
    moreover have "balanced ((rs @ [None])[length rs := Some False]) (sv_params v @ [p])
      (recordEnd False (st_startTime ?s0) now (recordStart (word_of_int (sendLen p)) (sv_stats v)))"
      by (rule balanced_end [OF bal]) simp_all
    ultimately show ?thesis
      using put [of "Some False"] ended_with_stats(1) [OF e] by (auto simp: transfer_ok_def)
  qed
qed

lemma service_inv_run: "service_inv rs s0s v \<Longrightarrow> \<exists>rs' s0s'. service_inv rs' s0s' (service_run evs v)"
proof (induction evs arbitrary: rs s0s v)
  case Nil
  then show ?case by (auto simp: service_run_def)
next
  case (Cons e evs)
  have "\<exists>rs' s0s'. service_inv rs' s0s' (service_step e v)"
    using service_inv_send [OF Cons.prems] service_inv_event [OF Cons.prems] by (cases e) blast+
  then show ?case using Cons.IH by (auto simp: service_run_def simp del: service_step.simps)
qed

lemma service_inv_start: "service_inv [] [] stream_service_start"
  by (simp add: service_inv_def balanced_def stream_service_start_def TransferStats_ctor_def)

section \<open>Properties\<close>

text \<open>
  C16: Whatever transfers a \<open>StreamTransfer\<close> object accepts and in whatever order their events come, the
  shared counters always agree with the transfers: each accepted one is counted once, with its bytes; the
  active ones are exactly those without a result; each failure is counted once; and a result is counted
  exactly when the callback, if there is one, has got it.
\<close>

theorem TransferService_balanced:
  "\<exists>rs. map (\<lambda>r. r = None) rs
       = map (\<lambda>s. \<not> st_finished s \<and> st_live s) (sv_transfers (service_run evs stream_service_start))
     \<and> map st_completed (sv_transfers (service_run evs stream_service_start))
       = map2 (\<lambda>r p. case r of None \<Rightarrow> [] | Some b \<Rightarrow> complete_call p b) rs
           (sv_params (service_run evs stream_service_start))
     \<and> balanced rs (sv_params (service_run evs stream_service_start)) (sv_stats (service_run evs stream_service_start))"
proof -
  let ?v = "service_run evs stream_service_start"
  obtain rs s0s where "service_inv rs s0s ?v" using service_inv_run [OF service_inv_start] by blast
  then have len: "length s0s = length rs" "length (sv_transfers ?v) = length rs" "map st_params s0s = sv_params ?v"
    and ok: "\<And>i. i < length rs \<Longrightarrow> transfer_ok (rs ! i) (s0s ! i) (sv_transfers ?v ! i)"
    and bal: "balanced rs (sv_params ?v) (sv_stats ?v)"
    by (auto simp: service_inv_def)
  have "map (\<lambda>r. r = None) rs = map (\<lambda>s. \<not> st_finished s \<and> st_live s) (sv_transfers ?v)"
    using len(2) transfer_ok_result(1) [OF ok] by (intro nth_equalityI) simp_all
  moreover have "map st_completed (sv_transfers ?v) = map2 (\<lambda>r p. case r of None \<Rightarrow> [] | Some b \<Rightarrow> complete_call p b) rs (sv_params ?v)"
  proof (rule nth_equalityI)
    fix i assume "i < length (map st_completed (sv_transfers ?v))"
    then show "map st_completed (sv_transfers ?v) ! i
      = map2 (\<lambda>r p. case r of None \<Rightarrow> [] | Some b \<Rightarrow> complete_call p b) rs (sv_params ?v) ! i"
      using len(1,2) transfer_ok_result(2) [OF ok] by (simp add: len(3) [symmetric])
  qed (simp add: len(1,2) len(3) [symmetric])
  ultimately show ?thesis using bal by blast
qed

end
