(* ===== verification/WriterLoop.thy ===== *)
theory WriterLoop imports Prelude begin

text \<open>
  \<open>runOnWriterLoopSync\<close> of \<open>src/src/LegacyTransfer.cpp\<close>: a worker thread hands a function to the loop of the
  writer and waits for it, with a time limit for the start.  The two threads share a \<open>SyncWriterCall\<close>; every
  section under its mutex is one step, and the call of the function itself is a step of the loop.
\<close>

record SyncWriterCall =
  sc_fn :: bool                          \<comment> \<open>\<open>fn\<close> is not empty\<close>
  sc_started :: bool
  sc_done :: bool

datatype loop_pc =
    LoopPosted                           \<comment> \<open>the event is in the queue of the loop\<close>
  | LoopRuns bool                        \<comment> \<open>\<open>localFn\<close> has been taken, empty or not\<close>
  | LoopStores
  | LoopLeft

datatype caller_pc = CallerWaits | CallerReturned bool

record sync_state =
  sy_call :: SyncWriterCall
  sy_loop :: loop_pc
  sy_caller :: caller_pc
  sy_ran :: nat                          \<comment> \<open>how often the function has been called\<close>

text \<open>
  How the call begins: it fails without an io or a loop, on the loop's own thread the function is called at
  once if it is not empty, and otherwise the task is posted, which starts the two-thread system below.
\<close>

datatype sync_entry = NoLoop | CalledHere bool | TaskPosted

definition sync_enter :: "bool \<Rightarrow> bool \<Rightarrow> bool \<Rightarrow> bool \<Rightarrow> sync_entry" where
  "sync_enter has_io has_loop on_loop_thread fn =
     (if \<not> has_io then NoLoop
      else if \<not> has_loop then NoLoop
      else if on_loop_thread then CalledHere fn
      else TaskPosted)"

text \<open>The task on the loop.\<close>

inductive sync_loop :: "sync_state \<Rightarrow> sync_state \<Rightarrow> bool" where
  take_fn: "sy_loop s = LoopPosted \<Longrightarrow>
     sync_loop s (s\<lparr>sy_call := (sy_call s)\<lparr>sc_started := True\<rparr>, sy_loop := LoopRuns (sc_fn (sy_call s))\<rparr>)"
| call_fn: "sy_loop s = LoopRuns b \<Longrightarrow>
     sync_loop s (s\<lparr>sy_ran := sy_ran s + (if b then 1 else 0), sy_loop := LoopStores\<rparr>)"
| store_done: "sy_loop s = LoopStores \<Longrightarrow>
     sync_loop s (s\<lparr>sy_call := (sy_call s)\<lparr>sc_fn := False, sc_done := True\<rparr>, sy_loop := LoopLeft\<rparr>)"

text \<open>
  The waiting loop of the caller: it leaves when \<open>done\<close> is set; a wait that ends without a timeout goes
  back to the test; a timeout before the start withdraws the function.
\<close>

inductive sync_caller :: "sync_state \<Rightarrow> sync_state \<Rightarrow> bool" where
  sees_done: "sy_caller s = CallerWaits \<Longrightarrow> sc_done (sy_call s) \<Longrightarrow>
     sync_caller s (s\<lparr>sy_caller := CallerReturned True\<rparr>)"
| woken: "sy_caller s = CallerWaits \<Longrightarrow> sync_caller s s"
| timed_out: "sy_caller s = CallerWaits \<Longrightarrow> \<not> sc_started (sy_call s) \<Longrightarrow>
     sync_caller s (s\<lparr>sy_call := (sy_call s)\<lparr>sc_fn := False, sc_done := True\<rparr>, sy_caller := CallerReturned False\<rparr>)"

inductive_cases sync_loopE: "sync_loop s s'"
inductive_cases sync_callerE: "sync_caller s s'"

definition sync_start :: sync_state where
  "sync_start = \<lparr>sy_call = \<lparr>sc_fn = True, sc_started = False, sc_done = False\<rparr>, sy_loop = LoopPosted,
     sy_caller = CallerWaits, sy_ran = 0\<rparr>"

inductive sync_reach :: "sync_state \<Rightarrow> bool" where
  sync_reach_start: "sync_reach sync_start"
| sync_reach_loop: "sync_reach s \<Longrightarrow> sync_loop s s' \<Longrightarrow> sync_reach s'"
| sync_reach_caller: "sync_reach s \<Longrightarrow> sync_caller s s' \<Longrightarrow> sync_reach s'"

definition sync_inv :: "sync_state \<Rightarrow> bool" where
  "sync_inv s \<longleftrightarrow>
     (case sy_caller s of
        CallerReturned False \<Rightarrow> sy_ran s = 0 \<and> \<not> sc_fn (sy_call s) \<and> sy_loop s \<noteq> LoopRuns True
      | caller \<Rightarrow>
          (sc_done (sy_call s) \<longleftrightarrow> sy_loop s = LoopLeft) \<and> (caller = CallerReturned True \<longrightarrow> sc_done (sy_call s))
          \<and> (case sy_loop s of
               LoopPosted \<Rightarrow> sy_ran s = 0 \<and> sc_fn (sy_call s) \<and> \<not> sc_started (sy_call s)
             | LoopRuns b \<Rightarrow> b \<and> sy_ran s = 0 \<and> sc_started (sy_call s)
             | _ \<Rightarrow> sy_ran s = 1 \<and> sc_started (sy_call s)))"

lemma sync_inv_loop: "sync_inv s \<Longrightarrow> sync_loop s s' \<Longrightarrow> sync_inv s'"
  by (erule sync_loopE)
    (auto simp: sync_inv_def split: caller_pc.splits bool.splits loop_pc.splits)

lemma sync_inv_caller: "sync_inv s \<Longrightarrow> sync_caller s s' \<Longrightarrow> sync_inv s'"
  by (erule sync_callerE)
    (auto simp: sync_inv_def split: caller_pc.splits bool.splits loop_pc.splits)

lemma sync_reach_inv: "sync_reach s \<Longrightarrow> sync_inv s"
proof (induction rule: sync_reach.induct)
  case sync_reach_start
  show ?case by (simp add: sync_start_def sync_inv_def)
qed (blast intro: sync_inv_loop sync_inv_caller)+

text \<open>
  C21: In every interleaving of the two threads, a call that returns \<open>true\<close> has run the function exactly
  once before it returns, and a call that has returned \<open>false\<close> has not run it and never will, so that
  nothing the function refers to on the caller's stack is used after the return.
\<close>

theorem runOnWriterLoopSync_once:
  assumes "sync_reach s" and "sy_caller s = CallerReturned r"
  shows "sy_ran s = (if r then 1 else 0)"
  using sync_reach_inv [OF assms(1)] assms(2)
  by (auto simp: sync_inv_def split: bool.splits loop_pc.splits)

lemma runOnWriterLoopSync_once_witness:
  "\<exists>s. sync_reach s \<and> sy_caller s = CallerReturned False \<and> sy_loop s = LoopLeft \<and> sy_ran s = 0"
proof -
  define s1 where "s1 = sync_start\<lparr>sy_call := \<lparr>sc_fn = False, sc_started = False, sc_done = True\<rparr>,
    sy_caller := CallerReturned False\<rparr>"
  define s2 where "s2 = s1\<lparr>sy_call := \<lparr>sc_fn = False, sc_started = True, sc_done = True\<rparr>, sy_loop := LoopRuns False\<rparr>"
  define s3 where "s3 = s2\<lparr>sy_loop := LoopStores\<rparr>"
  define s4 where "s4 = s3\<lparr>sy_loop := LoopLeft\<rparr>"
  have "sync_caller sync_start s1"
    using sync_caller.timed_out [of sync_start] by (simp add: s1_def sync_start_def)
  moreover have "sync_loop s1 s2" using sync_loop.take_fn [of s1] by (simp add: s2_def s1_def sync_start_def)
  moreover have "sync_loop s2 s3" using sync_loop.call_fn [of s2 False] by (simp add: s3_def s2_def)
  moreover have "sync_loop s3 s4" using sync_loop.store_done [of s3] by (simp add: s4_def s3_def s2_def)
  ultimately have r: "sync_reach s4" by (meson sync_reach.intros)
  have "sy_caller s4 = CallerReturned False" by (simp add: s4_def s3_def s2_def s1_def)
  from runOnWriterLoopSync_once [OF r this] show ?thesis
    using r by (auto simp: s4_def s3_def s2_def s1_def)
qed

end
