(* ===== verification/LegacyTransfer.thy ===== *)
theory LegacyTransfer imports FileTransfer WriterLoop PostedEvents begin

text \<open>
  The blocking file transfer (\<open>src/src/LegacyTransfer.cpp\<close>), and the two small parts beside it: the transfer
  by redirection (\<open>src/src/AccelTransfer.cpp\<close>) and the factory (\<open>src/src/FileTransferFactory.cpp\<close>).

  A call on the writer goes through \<open>runOnWriterLoopSync\<close>; what one such call does is an option: \<open>None\<close> if
  it returned false, and then the function has not run (theory \<open>WriterLoop\<close>), otherwise what the library
  answered.  Sleeping is one turn of the polling loop.
\<close>


section \<open>Posting to the loop\<close>

text \<open>
  The copies of \<open>postToWriterLoop\<close> and of its callback in this file; only the name of the payload's type
  differs from those of \<open>PostedEvents\<close>.
\<close>

definition legacy_postToWriterLoop :: "writer_ref option \<Rightarrow> 'f option \<Rightarrow> 'f event_loop \<Rightarrow> bool \<times> 'f event_loop" where
  "legacy_postToWriterLoop writer fn l =
     (case writer of
        None \<Rightarrow> (False, l)
      | Some w \<Rightarrow>
          if \<not> wf_io w \<or> \<not> wf_loop w then (False, l)
          else (True, l\<lparr>el_heap := (el_heap l)(el_next l \<mapsto> fn), el_next := el_next l + 1,
                         el_queue := el_queue l @ [el_next l]\<rparr>))"

definition postedLegacyEventCb :: "nat option \<Rightarrow> 'f event_loop \<Rightarrow> 'f event_loop" where
  "postedLegacyEventCb userdata l =
     (case userdata of
        None \<Rightarrow> l
      | Some payload \<Rightarrow>
          (case el_heap l payload of
             None \<Rightarrow> l\<lparr>el_bad := True\<rparr>
           | Some fn \<Rightarrow>
               (let l1 = l\<lparr>el_heap := (el_heap l)(payload := None)\<rparr>
                in case fn of None \<Rightarrow> l1 | Some f \<Rightarrow> l1\<lparr>el_called := el_called l1 @ [f]\<rparr>)))"

lemma legacy_posting [simp]:
  "legacy_postToWriterLoop = postToWriterLoop" "postedLegacyEventCb = postedEventCb"
  by (auto simp: fun_eq_iff legacy_postToWriterLoop_def postToWriterLoop_def postedLegacyEventCb_def
      postedEventCb_def split: option.split)

section \<open>Constants and environment\<close>

definition kStreamThreshold :: int where "kStreamThreshold = 4 * 1024 * 1024"
definition kStreamChunkSize :: int where "kStreamChunkSize = 256 * 1024"
definition kBackpressureThreshold :: int where "kBackpressureThreshold = 4 * 1024 * 1024"
definition kBackpressureWaitMs :: int where "kBackpressureWaitMs = 10"
definition kBackpressureTimeoutMs :: int where "kBackpressureTimeoutMs = 60 * 1000"

text \<open>Buffer size and connection, as one query of the writer finds them.\<close>

type_synonym writer_poll = "(int \<times> bool) option"

record legacy_tick =
  lt_polls :: "nat \<Rightarrow> writer_poll"
  lt_write :: "(int \<times> bool) option"     \<comment> \<open>result of \<open>writeBody\<close>, connected afterwards\<close>

record legacy_env =
  le_loop :: bool                        \<comment> \<open>the writer has an io and a loop\<close>
  le_start :: int64
  le_end :: int64
  le_seek :: bool
  le_headers :: "int option"
  le_ticks :: "nat \<Rightarrow> legacy_tick"
  le_finish :: bool                      \<comment> \<open>the last call, of \<open>end\<close>, is run\<close>
  le_memory :: "int \<Rightarrow> bool"             \<comment> \<open>there is memory for a string of so many bytes\<close>

section \<open>Back-pressure\<close>

text \<open>
  The inner loop: wait until the buffer has drained.  The result is \<open>timedOut\<close> and \<open>connected\<close>.
\<close>

function backpressure :: "(nat \<Rightarrow> writer_poll) \<Rightarrow> nat \<Rightarrow> int \<Rightarrow> int \<Rightarrow> bool \<Rightarrow> bool \<times> bool" where
  "backpressure polls k waitedMs pendingBytes connected =
     (if \<not> (kBackpressureThreshold < pendingBytes \<and> connected) then (False, connected)
      else
        (let waited = waitedMs + kBackpressureWaitMs
         in if kBackpressureTimeoutMs \<le> waited then (True, connected)
            else case polls (k + 1) of
                   None \<Rightarrow> (False, False)
                 | Some (p, c) \<Rightarrow> backpressure polls (k + 1) waited p c))"
  by pat_completeness auto

termination
  by (relation "measure (\<lambda>(polls, k, w, p, c). nat (kBackpressureTimeoutMs - w))")
    (auto simp: kBackpressureTimeoutMs_def kBackpressureWaitMs_def)

declare backpressure.simps [simp del]

section \<open>The sending loop\<close>

definition legacy_chunk :: "int \<Rightarrow> string \<Rightarrow> string" where
  "legacy_chunk remaining bytes = take (nat (if remaining < kStreamChunkSize then remaining else kStreamChunkSize)) bytes"

text \<open>
  The result: what remains, \<open>timedOut\<close>, and the chunks written.  A read that finds fewer bytes than asked
  for leaves \<open>ifs.good()\<close> false.
\<close>

function legacy_loop :: "legacy_env \<Rightarrow> nat \<Rightarrow> int \<Rightarrow> bool \<Rightarrow> string \<Rightarrow> int \<times> bool \<times> string list" where
  "legacy_loop env k remaining good bytes =
     (let tick = le_ticks env k; got = legacy_chunk remaining bytes
      in if \<not> (0 < remaining \<and> good) then (remaining, False, [])
         else case lt_polls tick 0 of
                None \<Rightarrow> (remaining, False, [])
              | Some (p, c) \<Rightarrow>
                  (let (timedOut, connected) = backpressure (lt_polls tick) 0 0 p c
                   in if timedOut \<or> \<not> connected then (remaining, timedOut, [])
                      else if got = [] then (remaining, False, [])
                      else case lt_write tick of
                             None \<Rightarrow> (remaining, False, [])
                           | Some (ret, connectedAfterWrite) \<Rightarrow>
                               if ret < 0 \<or> \<not> connectedAfterWrite then (remaining, False, [got])
                               else
                                 (let (r, t, chunks) = legacy_loop env (k + 1) (remaining - int (length got))
                                        (int (length got) = (if remaining < kStreamChunkSize then remaining else kStreamChunkSize))
                                        (drop (length got) bytes)
                                  in (r, t, got # chunks))))"
  by pat_completeness auto

termination
  by (relation "measure (\<lambda>(env, k, remaining, good, bytes). nat remaining)") (auto simp: legacy_chunk_def split: if_splits)

declare legacy_loop.simps [simp del]

section \<open>\<open>send\<close>\<close>

record 'w legacy_result =
  lr_ctx :: "'w Context"
  lr_stats :: TransferStats
  lr_completed :: "bool list"
  lr_thrown :: bool                      \<comment> \<open>an exception of the allocation leaves \<open>send\<close>\<close>

definition legacy_done :: "legacy_env \<Rightarrow> TransferParams \<Rightarrow> bool \<Rightarrow> 'w Context \<Rightarrow> TransferStats \<Rightarrow> 'w legacy_result" where
  "legacy_done env p success c stats =
     \<lparr>lr_ctx = c, lr_stats = recordEnd success (le_start env) (le_end env) stats,
      lr_completed = complete_call p success, lr_thrown = False\<rparr>"

text \<open>
  \<open>std::string(static_cast<size_t>(sendLen), 0)\<close>: \<open>std::length_error\<close> for a negative number, which the cast
  makes huge, and \<open>std::bad_alloc\<close> without memory.  Nothing catches either.
\<close>

definition body_alloc :: "legacy_env \<Rightarrow> TransferParams \<Rightarrow> bool" where
  "body_alloc env p \<longleftrightarrow> 0 \<le> sendLen p \<and> le_memory env (sendLen p)"

definition legacy_throw :: "'w Context \<Rightarrow> TransferStats \<Rightarrow> 'w legacy_result" where
  "legacy_throw c stats = \<lparr>lr_ctx = c, lr_stats = stats, lr_completed = [], lr_thrown = True\<rparr>"

definition legacy_small ::
  "hv_lib \<Rightarrow> file_system \<Rightarrow> legacy_env \<Rightarrow> TransferParams \<Rightarrow> 'w Context \<Rightarrow> TransferStats \<Rightarrow> 'w legacy_result" where
  "legacy_small lib files env p c stats =
     (if isRange p
      then case files (tp_physicalPath p) of
             None \<Rightarrow> legacy_done env p False (internal_error c) stats
           | Some content \<Rightarrow>
               if \<not> le_seek env then legacy_done env p False (internal_error c) stats
               else if \<not> body_alloc env p then legacy_throw c stats
               else
                 (let rangeBody = wanted p content
                  in if int (length rangeBody) = sendLen p
                     then legacy_done env p True
                            (Context_setBody rangeBody
                              (Context_setHeader ''Content-Range'' (content_range p) (Context_setStatus 206 c))) stats
                     else legacy_done env p False (internal_error c) stats)
      else legacy_done env p True
             (Context_setContentTypeByFilename (tp_displayName p)
               (Context_serveFile lib (Some (tp_physicalPath p)) c)) stats)"

text \<open>Without a writer, a large range is read into a body of \<open>sendLen\<close> zero bytes.\<close>

definition legacy_fallback ::
  "hv_lib \<Rightarrow> file_system \<Rightarrow> legacy_env \<Rightarrow> TransferParams \<Rightarrow> 'w Context \<Rightarrow> TransferStats \<Rightarrow> 'w legacy_result" where
  "legacy_fallback lib files env p c stats =
     (if isRange p
      then if \<not> body_alloc env p then legacy_throw c stats
           else
             (let got = (case files (tp_physicalPath p) of
                           None \<Rightarrow> [] | Some content \<Rightarrow> if le_seek env then wanted p content else [])
              in legacy_done env p True
                   (Context_setStatus (if isRange p then 206 else 200)
                     (Context_setBody (got @ replicate (nat (sendLen p) - length got) (CHR 0x00)) c)) stats)
      else legacy_done env p True
             (Context_setContentTypeByFilename (tp_displayName p)
               (Context_serveFile lib (Some (tp_physicalPath p)) c)) stats)"

definition legacy_stream ::
  "legacy_env \<Rightarrow> TransferParams \<Rightarrow> string \<Rightarrow> 'w Context \<Rightarrow> TransferStats \<Rightarrow> 'w legacy_result" where
  "legacy_stream env p content c stats =
     (let c1 = range_status p c
      in case le_headers env of
           None \<Rightarrow> legacy_done env p False c1 stats
         | Some ret \<Rightarrow>
             (let c2 = snd (Context_endHeaders ret ''Content-Length'' (sendLen p) c1)
              in if ret < 0 then legacy_done env p False c2 stats
                 else
                   (let (remaining, timedOut, chunks) =
                          legacy_loop env 0 (sendLen p) True (drop (nat (sendStart p)) content);
                        c3 = fold (\<lambda>buf c. snd (Context_writeBody 0 buf c)) chunks c2;
                        c4 = (if le_finish env then snd (Context_end 0 c3) else c3)
                    in legacy_done env p (remaining = 0 \<and> \<not> timedOut) c4 stats)))"

definition LegacyTransfer_send ::
  "hv_lib \<Rightarrow> file_system \<Rightarrow> legacy_env \<Rightarrow> TransferStats \<Rightarrow> TransferParams \<Rightarrow> 'w Context \<Rightarrow> 'w legacy_result" where
  "LegacyTransfer_send lib files env stats0 p c0 =
     (let stats = recordStart (word_of_int (sendLen p)) stats0;
          c = download_headers p c0
      in if sendLen p < kStreamThreshold then legacy_small lib files env p c stats
         else if \<not> Context_hasWriter c then legacy_fallback lib files env p c stats
         else if \<not> le_loop env then legacy_done env p False (internal_error c) stats
         else case files (tp_physicalPath p) of
                None \<Rightarrow> legacy_done env p False (internal_error c) stats
              | Some content \<Rightarrow>
                  if isRange p \<and> \<not> le_seek env then legacy_done env p False (internal_error c) stats
                  else legacy_stream env p content c stats)"

section \<open>Accel and the factory\<close>

definition file_id :: "string \<Rightarrow> string" where
  "file_id path = (case rfind_char (CHR ''/'') path of Some pos \<Rightarrow> drop (pos + 1) path | None \<Rightarrow> path)"

definition AccelTransfer_send ::
  "string \<Rightarrow> int64 \<Rightarrow> int64 \<Rightarrow> TransferStats \<Rightarrow> TransferParams \<Rightarrow> 'w Context \<Rightarrow> 'w legacy_result" where
  "AccelTransfer_send prefix now1 now2 stats p c =
     \<lparr>lr_ctx = Context_setBody []
        (Context_setStatus 200
          (Context_setHeader ''Content-Disposition''
             (fileContentDisposition (tp_displayName p) (tp_inlineDisposition p))
            (Context_setContentTypeByFilename (tp_displayName p)
              (Context_setHeader ''X-Accel-Redirect'' (prefix @ file_id (tp_physicalPath p)) c)))),
      lr_stats = recordEnd True now1 now2 (recordStart (word_of_int (sendLen p)) stats),
      lr_completed = complete_call p True, lr_thrown = False\<rparr>"

datatype IFileTransfer = Legacy | Accel string | Stream

definition FileTransferFactory_create :: "string \<Rightarrow> string \<Rightarrow> IFileTransfer option" where
  "FileTransferFactory_create mode accelPrefix =
     (let lower = to_lower mode
      in if lower = ''legacy'' then Some Legacy
         else if lower = ''accel'' then Some (Accel accelPrefix)
         else if lower = ''stream'' \<or> lower = ''auto'' \<or> lower = [] then Some Stream
         else None)"

fun transfer_name :: "IFileTransfer \<Rightarrow> string" where
  "transfer_name Legacy = ''legacy''"
| "transfer_name (Accel prefix) = ''accel''"
| "transfer_name Stream = ''stream''"

section \<open>The bytes of the sending loop\<close>

definition legacy_ok :: "int \<Rightarrow> string \<Rightarrow> int \<times> bool \<times> string list \<Rightarrow> bool" where
  "legacy_ok remaining bytes res = (case res of (r, t, chunks) \<Rightarrow>
     concat chunks = take (length (concat chunks)) bytes \<and> int (length (concat chunks)) \<le> remaining
     \<and> list_all (\<lambda>ch. 0 < length ch \<and> int (length ch) \<le> kStreamChunkSize) chunks
     \<and> 0 \<le> r \<and> (r \<noteq> 0 \<or> int (length (concat chunks)) = remaining))"

lemma legacy_ok_none [simp]: "0 < remaining \<Longrightarrow> legacy_ok remaining bytes (remaining, t, [])"
  by (simp add: legacy_ok_def)

lemma legacy_chunk_bounds:
  assumes "0 < remaining"
  shows "int (length (legacy_chunk remaining bytes)) \<le> kStreamChunkSize"
    and "int (length (legacy_chunk remaining bytes)) \<le> remaining"
    and "legacy_chunk remaining bytes = take (length (legacy_chunk remaining bytes)) bytes"
  using assms by (auto simp: legacy_chunk_def kStreamChunkSize_def min_def)

lemma legacy_ok_failed:
  assumes "0 < remaining" and "legacy_chunk remaining bytes \<noteq> []"
  shows "legacy_ok remaining bytes (remaining, t, [legacy_chunk remaining bytes])"
  using legacy_chunk_bounds [OF assms(1), of bytes] assms by (simp add: legacy_ok_def)

lemma legacy_ok_more:
  assumes "0 < remaining" and "legacy_chunk remaining bytes = got" and "got \<noteq> []"
    and "legacy_ok (remaining - int (length got)) (drop (length got) bytes) (r, t, chunks)"
  shows "legacy_ok remaining bytes (r, t, got # chunks)"
proof -
  note b = legacy_chunk_bounds [OF assms(1), of bytes, unfolded assms(2)]
  have m: "concat chunks = take (length (concat chunks)) (drop (length got) bytes)"
    and l: "int (length (concat chunks)) \<le> remaining - int (length got)"
    and c: "list_all (\<lambda>ch. 0 < length ch \<and> int (length ch) \<le> kStreamChunkSize) chunks"
    and r: "0 \<le> r" "r \<noteq> 0 \<or> int (length (concat chunks)) = remaining - int (length got)"
    using assms(4) unfolding legacy_ok_def prod.case by blast+
  have e: "concat (got # chunks) = take (length (concat (got # chunks))) bytes"
    using m b(3) by (metis concat.simps(2) length_append take_add)
  have "int (length (concat (got # chunks))) = int (length got) + int (length (concat chunks))" by simp
  then have "int (length (concat (got # chunks))) \<le> remaining" "r \<noteq> 0 \<or> int (length (concat (got # chunks))) = remaining"
    using l r(2) by linarith+
  moreover have "list_all (\<lambda>ch. 0 < length ch \<and> int (length ch) \<le> kStreamChunkSize) (got # chunks)"
    using c assms(3) b(1) by simp
  ultimately show ?thesis using e r(1) unfolding legacy_ok_def prod.case by blast
qed

lemma legacy_loop_ok:
  assumes "0 \<le> remaining"
  shows "legacy_ok remaining bytes (legacy_loop env k remaining good bytes)"
  using assms
proof (induction env k remaining good bytes rule: legacy_loop.induct)
  case (1 env k remaining good bytes)
  let ?tick = "le_ticks env k" and ?got = "legacy_chunk remaining bytes"
  let ?full = "int (length ?got) = (if remaining < kStreamChunkSize then remaining else kStreamChunkSize)"
  let ?rec = "legacy_loop env (k + 1) (remaining - int (length ?got)) ?full (drop (length ?got) bytes)"
  show ?case
  proof (cases "0 < remaining \<and> good")
    case False
    then show ?thesis using 1(2) by (subst legacy_loop.simps) (auto simp: Let_def legacy_ok_def)
  next
    case run: True
    show ?thesis
    proof (cases "lt_polls ?tick 0")
      case None
      then show ?thesis using run by (subst legacy_loop.simps) (simp add: Let_def)
    next
      case (Some poll)
      obtain p c where poll: "poll = (p, c)" by fastforce
      obtain timedOut connected where bp: "backpressure (lt_polls ?tick) 0 0 p c = (timedOut, connected)" by fastforce
      show ?thesis
      proof (cases "timedOut \<or> \<not> connected \<or> ?got = [] \<or> lt_write ?tick = None")
        case True
        then show ?thesis using run Some poll bp by (subst legacy_loop.simps) (auto simp: Let_def)
      next
        case go: False
        then obtain ret after where wr: "lt_write ?tick = Some (ret, after)" by auto
        show ?thesis
        proof (cases "ret < 0 \<or> \<not> after")
          case True
          then have "legacy_loop env k remaining good bytes = (remaining, False, [?got])"
            using run Some poll bp go wr by (subst legacy_loop.simps) (simp add: Let_def)
          then show ?thesis using legacy_ok_failed run go by simp
        next
          case False
          obtain r t chunks where rec: "?rec = (r, t, chunks)" by (rule prod_cases3)
          then have eq: "legacy_loop env k remaining good bytes = (r, t, ?got # chunks)"
            using run Some poll bp go wr False by (subst legacy_loop.simps) (simp add: Let_def)
          have "0 \<le> remaining - int (length ?got)" using legacy_chunk_bounds(2) [of remaining bytes] run by simp
          then have "legacy_ok (remaining - int (length ?got)) (drop (length ?got) bytes) ?rec"
            using "1.IH" [OF refl refl _ Some poll [symmetric] refl bp [symmetric] _ _ wr refl] run go False by simp
          then show ?thesis using legacy_ok_more [OF _ refl _ _] run go eq rec by simp
        qed
      qed
    qed
  qed
qed

lemma write_chunks:
  assumes "cx_writer c = Some wr"
  shows "cx_writer (fold (\<lambda>buf c. snd (Context_writeBody 0 buf c)) chunks c)
    = Some (wr\<lparr>wr_calls := wr_calls wr @ map WriteBody chunks\<rparr>)"
  using assms
  by (induction chunks arbitrary: c wr) (simp_all add: Context_writeBody_def Context_hasWriter_def write_call_def)

definition smooth :: "legacy_env \<Rightarrow> bool" where
  "smooth env \<longleftrightarrow> le_loop env \<and> le_seek env \<and> le_headers env = Some 0
     \<and> (\<forall>k. lt_polls (le_ticks env k) 0 = Some (0, True) \<and> lt_write (le_ticks env k) = Some (0, True))"

lemma legacy_loop_smooth:
  assumes "smooth env" and "0 \<le> remaining" and "remaining \<le> int (length bytes)" and good
  shows "\<exists>chunks. legacy_loop env k remaining good bytes = (0, False, chunks)"
  using assms
proof (induction env k remaining good bytes rule: legacy_loop.induct)
  case (1 env k remaining good bytes)
  let ?got = "legacy_chunk remaining bytes"
  let ?n = "if remaining < kStreamChunkSize then remaining else kStreamChunkSize"
  have tick: "lt_polls (le_ticks env k) 0 = Some (0, True)" "lt_write (le_ticks env k) = Some (0, True)"
    using 1(2) by (simp_all add: smooth_def)
  have bp: "backpressure (lt_polls (le_ticks env k)) 0 0 0 True = (False, True)"
    by (subst backpressure.simps) (simp add: kBackpressureThreshold_def)
  show ?case
  proof (cases "0 < remaining")
    case False
    then show ?thesis using 1(3) by (subst legacy_loop.simps) (auto simp: Let_def)
  next
    case True
    then have len: "int (length ?got) = ?n" "?got \<noteq> []"
      using 1(4) by (auto simp: legacy_chunk_def kStreamChunkSize_def)
    have rest: "0 \<le> remaining - int (length ?got)" "remaining - int (length ?got) \<le> int (length (drop (length ?got) bytes))"
      using 1(4) len(1) by (auto simp: kStreamChunkSize_def split: if_splits)
    obtain chunks where "legacy_loop env (k + 1) (remaining - int (length ?got)) (int (length ?got) = ?n)
        (drop (length ?got) bytes) = (0, False, chunks)"
      using "1.IH" [OF refl refl _ tick(1) refl refl bp [symmetric] _ _ tick(2) refl] True 1(2,5) rest len by auto
    then show ?thesis using True 1(5) tick bp len by (subst legacy_loop.simps) (simp add: Let_def)
  qed
qed

lemma write_chunks_resp: "cx_resp (fold (\<lambda>buf c. snd (Context_writeBody 0 buf c)) chunks c) = cx_resp c"
  by (induction chunks arbitrary: c) (simp_all add: Context_writeBody_def write_call_def)

text \<open>The part of the streaming branch after the headers.\<close>

lemma legacy_stream_writes:
  assumes "cx_writer c = Some wr" and "0 \<le> sendLen p" and "le_headers env = Some ret" and "0 \<le> ret"
  shows "\<exists>chunks success. concat chunks = take (length (concat chunks)) (wanted p content)
    \<and> list_all (\<lambda>ch. 0 < length ch \<and> length ch \<le> 262144) chunks
    \<and> cx_writer (lr_ctx (legacy_stream env p content c stats))
        = Some (wr\<lparr>wr_calls := wr_calls wr @ EndHeaders ''Content-Length'' (sendLen p) # map WriteBody chunks
                     @ (if le_finish env then [EndCall] else [])\<rparr>)
    \<and> Context_status (lr_ctx (legacy_stream env p content c stats)) = (if isRange p then 206 else 200)
    \<and> lr_completed (legacy_stream env p content c stats) = complete_call p success
    \<and> (success \<longrightarrow> concat chunks = wanted p content \<and> int (length (concat chunks)) = sendLen p)
    \<and> (fst (legacy_loop env 0 (sendLen p) True (drop (nat (sendStart p)) content)) = 0
        \<and> \<not> fst (snd (legacy_loop env 0 (sendLen p) True (drop (nat (sendStart p)) content))) \<longrightarrow> success)"
proof -
  let ?bytes = "drop (nat (sendStart p)) content"
  obtain r t chunks where loop: "legacy_loop env 0 (sendLen p) True ?bytes = (r, t, chunks)" by (rule prod_cases3)
  have ok: "legacy_ok (sendLen p) ?bytes (r, t, chunks)"
    using legacy_loop_ok [OF assms(2), of ?bytes env 0 True] loop by simp
  then have m: "concat chunks = take (length (concat chunks)) ?bytes" and n: "int (length (concat chunks)) \<le> sendLen p"
    and b: "list_all (\<lambda>ch. 0 < length ch \<and> length ch \<le> 262144) chunks"
    and full: "r = 0 \<Longrightarrow> int (length (concat chunks)) = sendLen p"
    unfolding legacy_ok_def by (auto simp: kStreamChunkSize_def list_all_iff)
  have "length (concat chunks) \<le> nat (sendLen p)" using n by linarith
  then have pre: "concat chunks = take (length (concat chunks)) (wanted p content)"
    using m by (simp add: wanted_def min_def)
  have all: "concat chunks = wanted p content" if "r = 0"
  proof -
    have "nat (sendLen p) = length (concat chunks)" using full [OF that] by linarith
    then show ?thesis using m by (simp add: wanted_def)
  qed
  let ?c2 = "snd (Context_endHeaders ret ''Content-Length'' (sendLen p) (range_status p c))"
  let ?c3 = "fold (\<lambda>buf c. snd (Context_writeBody 0 buf c)) chunks ?c2"
  have c2: "cx_writer ?c2 = Some (wr\<lparr>wr_calls := wr_calls wr @ [EndHeaders ''Content-Length'' (sendLen p)]\<rparr>)"
    using assms(1) by (simp add: Context_endHeaders_def Context_hasWriter_def write_call_def)
  have res: "legacy_stream env p content c stats
      = legacy_done env p (r = 0 \<and> \<not> t) (if le_finish env then snd (Context_end 0 ?c3) else ?c3) stats"
    using assms(3,4) loop by (simp add: legacy_stream_def Let_def)
  have "Context_status (lr_ctx (legacy_stream env p content c stats)) = (if isRange p then 206 else 200)"
    by (simp add: res legacy_done_def Context_status_def Context_end_def write_call_def write_chunks_resp
        Context_endHeaders_def range_status_frame [unfolded Context_status_def])
  moreover have "cx_writer (lr_ctx (legacy_stream env p content c stats))
     = Some (wr\<lparr>wr_calls := wr_calls wr @ EndHeaders ''Content-Length'' (sendLen p) # map WriteBody chunks
                  @ (if le_finish env then [EndCall] else [])\<rparr>)"
    using write_chunks [OF c2, of chunks]
    by (simp add: res legacy_done_def Context_end_def Context_hasWriter_def write_call_def)
  moreover have "lr_completed (legacy_stream env p content c stats) = complete_call p (r = 0 \<and> \<not> t)"
    by (simp add: res legacy_done_def)
  ultimately show ?thesis
    using pre b all full by (intro exI [of _ chunks] exI [of _ "r = 0 \<and> \<not> t"]) (simp add: loop)
qed

definition legacy_started :: "legacy_env \<Rightarrow> TransferParams \<Rightarrow> bool" where
  "legacy_started env p \<longleftrightarrow> le_loop env \<and> (isRange p \<longrightarrow> le_seek env)
     \<and> (case le_headers env of None \<Rightarrow> False | Some ret \<Rightarrow> 0 \<le> ret)"

text \<open>
  C22: The blocking transfer of a large file over a writer reports one result.  Once the headers have gone out,
  the writer has received the \<open>Content-Length\<close> of the range, a prefix of the bytes of the range, in order and
  in chunks of at most 256 KB, and then, if the loop still ran the last call, the end of the response; if
  success is reported the prefix is the whole range and the range has the length announced.  Nothing else
  is reported as success; and it is reported if the writer keeps up (every call runs and succeeds, the
  buffer is empty) and the file holds the range.
\<close>

theorem LegacyTransfer_streams:
  assumes "cx_writer c = Some wr" and "4194304 \<le> sendLen p" and "files (tp_physicalPath p) = Some content"
  shows "let r = LegacyTransfer_send lib files env stats p c
    in \<exists>chunks success. lr_completed r = complete_call p success
      \<and> concat chunks = take (length (concat chunks)) (wanted p content)
      \<and> list_all (\<lambda>ch. 0 < length ch \<and> length ch \<le> 262144) chunks
      \<and> (if legacy_started env p
         then cx_writer (lr_ctx r)
                = Some (wr\<lparr>wr_calls := wr_calls wr @ EndHeaders ''Content-Length'' (sendLen p) # map WriteBody chunks
                     @ (if le_finish env then [EndCall] else [])\<rparr>)
              \<and> Context_status (lr_ctx r) = (if isRange p then 206 else 200)
              \<and> (success \<longrightarrow> concat chunks = wanted p content \<and> int (length (concat chunks)) = sendLen p)
         else \<not> success)
      \<and> (smooth env \<and> sendStart p + sendLen p \<le> int (length content) \<longrightarrow> success)"
proof -
  let ?st = "recordStart (word_of_int (sendLen p)) stats" and ?c = "download_headers p c"
  have big: "\<not> sendLen p < kStreamThreshold" "Context_hasWriter ?c"
    using assms(1,2) by (simp_all add: kStreamThreshold_def Context_hasWriter_def)
  have smooth_started: "smooth env \<Longrightarrow> legacy_started env p" by (simp add: smooth_def legacy_started_def)
  show ?thesis
  proof (cases "legacy_started env p")
    case True
    then obtain ret where ret: "le_headers env = Some ret" "0 \<le> ret" by (auto simp: legacy_started_def split: option.splits)
    have send: "LegacyTransfer_send lib files env stats p c = legacy_stream env p content ?c ?st"
      using True assms(3) big by (auto simp: LegacyTransfer_send_def legacy_started_def Let_def)
    have "0 \<le> sendStart p" by (simp add: sendStart_def isRange_def)
    then have "\<exists>chunks. legacy_loop env 0 (sendLen p) True (drop (nat (sendStart p)) content) = (0, False, chunks)"
      if "smooth env" "sendStart p + sendLen p \<le> int (length content)"
      using legacy_loop_smooth [OF that(1), of "sendLen p" "drop (nat (sendStart p)) content" True 0] assms(2) that(2) by auto
    then show ?thesis
      using legacy_stream_writes [of ?c wr p env ret content ?st] assms(1,2) ret True
      unfolding Let_def send by fastforce
  next
    case False
    then have "lr_completed (LegacyTransfer_send lib files env stats p c) = complete_call p False"
      using assms(3) big
      by (auto simp: LegacyTransfer_send_def legacy_started_def legacy_stream_def legacy_done_def Let_def split: option.splits)
    then show ?thesis using False smooth_started
      by (auto simp: Let_def intro!: exI [of _ "[]"] exI [of _ False])
  qed
qed

definition demo_smooth :: legacy_env where
  "demo_smooth = \<lparr>le_loop = True, le_start = 1, le_end = 5, le_seek = True, le_headers = Some 0,
     le_ticks = (\<lambda>k. \<lparr>lt_polls = (\<lambda>j. Some (0, True)), lt_write = Some (0, True)\<rparr>), le_finish = True, le_memory = (\<lambda>_. True)\<rparr>"

definition demo_big :: TransferParams where
  "demo_big = TransferParams_ctor\<lparr>tp_physicalPath := ''big'', tp_fileSize := 5000000, tp_rangeStart := 10,
     tp_rangeEnd := 4999999, tp_onComplete := True\<rparr>"

definition demo_disk :: file_system where
  "demo_disk = [''big'' \<mapsto> replicate 5000000 (CHR ''x'')]"

lemma demo_big_facts:
  "sendStart demo_big = 10" "sendLen demo_big = 4999990" "isRange demo_big" "tp_onComplete demo_big"
  "tp_physicalPath demo_big = ''big''" "demo_disk ''big'' = Some (replicate 5000000 (CHR ''x''))" "smooth demo_smooth"
  by (simp_all add: demo_big_def TransferParams_ctor_def sendStart_def sendLen_def isRange_def demo_disk_def smooth_def
      demo_smooth_def)

lemma LegacyTransfer_streams_witness:
  "lr_completed (LegacyTransfer_send demo_lib demo_disk demo_smooth TransferStats_ctor demo_big
      (Context_async demo_request demo_response (Some demo_writer) ())) = [True]
   \<and> (\<exists>chunks. concat chunks = replicate 4999990 (CHR ''x'')
    \<and> cx_writer (lr_ctx (LegacyTransfer_send demo_lib demo_disk demo_smooth TransferStats_ctor demo_big
          (Context_async demo_request demo_response (Some demo_writer) ())))
       = Some (demo_writer\<lparr>wr_calls := EndHeaders ''Content-Length'' 4999990 # map WriteBody chunks @ [EndCall]\<rparr>))"
proof -
  let ?c = "Context_async demo_request demo_response (Some demo_writer) ()"
  have c: "cx_writer ?c = Some demo_writer" by (simp add: Context_async_def)
  have big: "4194304 \<le> sendLen demo_big" by (simp add: demo_big_facts)
  have disk: "demo_disk (tp_physicalPath demo_big) = Some (replicate 5000000 (CHR ''x''))" by (simp add: demo_big_facts)
  have "wanted demo_big (replicate 5000000 (CHR ''x'')) = replicate 4999990 (CHR ''x'')"
    by (simp add: wanted_def demo_big_facts)
  moreover have "le_finish demo_smooth" "wr_calls demo_writer = []" "legacy_started demo_smooth demo_big"
    by (simp_all add: demo_smooth_def demo_writer_def legacy_started_def)
  ultimately show ?thesis
    using LegacyTransfer_streams [where files = demo_disk and p = demo_big, OF c big disk,
        where lib = demo_lib and env = demo_smooth and stats = TransferStats_ctor]
      demo_big_facts
    by (auto simp: Let_def complete_call_def)
qed

text \<open>Where the allocation of the body is reached.\<close>

definition allocates :: "file_system \<Rightarrow> legacy_env \<Rightarrow> TransferParams \<Rightarrow> 'w Context \<Rightarrow> bool" where
  "allocates files env p c \<longleftrightarrow> isRange p
     \<and> (if sendLen p < 4194304 then files (tp_physicalPath p) \<noteq> None \<and> le_seek env else cx_writer c = None)"

definition legacy_reported :: "legacy_env \<Rightarrow> TransferParams \<Rightarrow> TransferStats \<Rightarrow> bool \<Rightarrow> 'w legacy_result \<Rightarrow> bool" where
  "legacy_reported env p st throws r \<longleftrightarrow>
     (if throws then lr_thrown r \<and> lr_completed r = [] \<and> lr_stats r = st
      else \<not> lr_thrown r \<and> (\<exists>b. lr_completed r = complete_call p b \<and> lr_stats r = recordEnd b (le_start env) (le_end env) st))"

lemma reported_done [simp]: "legacy_reported env p st throws (legacy_done env p b c st) = (\<not> throws)"
  by (auto simp: legacy_reported_def legacy_done_def)

lemma reported_thrown [simp]: "legacy_reported env p st throws (legacy_throw c st) = throws"
  by (auto simp: legacy_reported_def legacy_throw_def)

lemma reported_stream: "legacy_reported env p st False (legacy_stream env p content c st)"
  by (simp add: legacy_stream_def Let_def split: option.splits prod.splits)

lemma reported_send: "legacy_reported env p (recordStart (word_of_int (sendLen p)) stats)
    (allocates files env p c \<and> \<not> body_alloc env p) (LegacyTransfer_send lib files env stats p c)"
proof (cases "sendLen p < 4194304")
  case True
  then show ?thesis
    by (auto simp: LegacyTransfer_send_def legacy_small_def allocates_def kStreamThreshold_def Let_def split: option.split)
next
  case False
  then show ?thesis
    by (auto simp: LegacyTransfer_send_def legacy_fallback_def allocates_def kStreamThreshold_def Context_hasWriter_def
        reported_stream Let_def split: option.split)
qed

text \<open>
  C23: The blocking transfer reports exactly one result, the same to callback and statistics, on every
  path but one: where it comes to allocate the body of a range, a small one of a file that can be read or a large
  one without a writer, and the allocation throws, for want of memory or because the end of the range lies
  more than one byte before its start, it reports nothing and stays counted as active.  A large range
  without a writer is reported as sent whenever its body could be allocated, even when the file cannot be
  opened or is too short: what was not read is zero bytes.
\<close>

theorem LegacyTransfer_reports:
  "(let r = LegacyTransfer_send lib files env stats p c; st = recordStart (word_of_int (sendLen p)) stats
    in lr_thrown r = (allocates files env p c \<and> \<not> body_alloc env p)
     \<and> (if lr_thrown r then lr_completed r = [] \<and> lr_stats r = st
        else \<exists>b. lr_completed r = complete_call p b \<and> lr_stats r = recordEnd b (le_start env) (le_end env) st)
     \<and> (isRange p \<and> 4194304 \<le> sendLen p \<and> cx_writer c = None \<and> body_alloc env p \<longrightarrow>
          lr_completed r = complete_call p True \<and> Context_status (lr_ctx r) = 206
          \<and> (let got = (case files (tp_physicalPath p) of None \<Rightarrow> [] | Some content \<Rightarrow> if le_seek env then wanted p content else [])
             in hp_body (cx_resp (lr_ctx r)) = got @ replicate (nat (sendLen p) - length got) (CHR 0x00))))"
proof -
  let ?r = "LegacyTransfer_send lib files env stats p c"
  have fallback: "?r = legacy_fallback lib files env p (download_headers p c) (recordStart (word_of_int (sendLen p)) stats)"
    if "4194304 \<le> sendLen p" "cx_writer c = None"
    using that by (simp add: LegacyTransfer_send_def kStreamThreshold_def Context_hasWriter_def Let_def)
  have "lr_thrown ?r = (allocates files env p c \<and> \<not> body_alloc env p)"
    using reported_send [of env p stats files c lib] by (auto simp: legacy_reported_def split: if_splits)
  then show ?thesis
    using reported_send [of env p stats files c lib] fallback
    by (auto simp: legacy_reported_def Let_def legacy_fallback_def legacy_done_def Context_setStatus_def Context_setBody_def
        with_resp_def Context_status_def)
qed

lemma LegacyTransfer_reports_witness:
  "let r = LegacyTransfer_send demo_lib (\<lambda>_. None) demo_smooth TransferStats_ctor demo_big (Context_sync demo_request demo_response ())
   in \<not> lr_thrown r \<and> lr_completed r = [True] \<and> hp_body (cx_resp (lr_ctx r)) = replicate 4999990 (CHR 0x00)"
proof -
  have "body_alloc demo_smooth demo_big" by (simp add: body_alloc_def demo_big_facts) (simp add: demo_smooth_def)
  then show ?thesis
    using LegacyTransfer_reports [of demo_lib "\<lambda>_. None" demo_smooth TransferStats_ctor demo_big "Context_sync demo_request demo_response ()"]
    by (simp add: Let_def demo_big_facts complete_call_def Context_sync_def)
qed

lemma file_id_no_slash: "CHR ''/'' \<notin> set (file_id path)"
proof (cases "CHR ''/'' \<in> set path")
  case False
  then have "rfind_char (CHR ''/'') path = None" by (auto simp: rfind_char_def)
  then show ?thesis using False by (simp add: file_id_def)
next
  case True
  then obtain u v where p: "path = u @ CHR ''/'' # v" "CHR ''/'' \<notin> set v" by (metis split_list_last)
  have "find_idx (\<lambda>x. x = CHR ''/'') (rev v @ CHR ''/'' # rev u) = Some (length (rev v))"
    by (rule find_idx_hit) (use p in auto)
  then show ?thesis using p by (simp add: file_id_def rfind_char_def)
qed

end
