(* ===== verification/PathGuard.thy ===== *)
theory PathGuard imports Prelude begin

text \<open>
  The guard against dangerous paths (\<open>src/include/intertwine/fw/PathGuard.hpp\<close>).  The file system is a
  parameter: \<open>canonical\<close> gives the canonical path of an existing file, \<open>below_cwd\<close> the text of the current
  directory joined with a relative path, each \<open>None\<close> when the call fails.
\<close>

definition blocked_paths :: "string list" where
  "blocked_paths =
     [''/bin'', ''/sbin'', ''/usr'', ''/usr/bin'', ''/usr/sbin'', ''/usr/lib'', ''/usr/lib64'', ''/lib'', ''/lib64'',
      ''/etc'', ''/dev'', ''/proc'', ''/sys'', ''/boot'', ''/run'', ''/root'', ''/home'',
      ''/var'', ''/var/log'', ''/var/run'', ''/var/lib'']"

definition resolve_path :: "(string \<Rightarrow> string option) \<Rightarrow> (string \<Rightarrow> string option) \<Rightarrow> string \<Rightarrow> string" where
  "resolve_path canonical below_cwd path =
     (case canonical path of
        Some canon \<Rightarrow> canon
      | None \<Rightarrow>
          if hd path \<noteq> CHR ''/''
          then (case below_cwd path of Some joined \<Rightarrow> joined | None \<Rightarrow> path)
          else path)"

function strip_slashes :: "string \<Rightarrow> string" where
  "strip_slashes resolved =
     (if 1 < length resolved \<and> last resolved = CHR ''/'' then strip_slashes (butlast resolved) else resolved)"
  by pat_completeness auto

termination by (relation "measure length") auto

declare strip_slashes.simps [simp del]

definition slash_depth :: "string \<Rightarrow> nat" where
  "slash_depth resolved = length (filter (\<lambda>ch. ch = CHR ''/'') (tl resolved))"

text \<open>The result and the reason, \<open>None\<close> where the code leaves it as it was.\<close>

definition isSafe ::
  "(string \<Rightarrow> string option) \<Rightarrow> (string \<Rightarrow> string option) \<Rightarrow> string \<Rightarrow> bool \<times> string option" where
  "isSafe canonical below_cwd path =
     (if path = [] then (False, Some ''path is empty'')
      else
        (let resolved = strip_slashes (resolve_path canonical below_cwd path)
         in if resolved = ''/''
            then (False, Some (''path resolves to filesystem root '' @ [CHR 0x27] @ ''/'' @ [CHR 0x27]))
            else if resolved \<in> set blocked_paths
            then (False, Some (''path resolves to protected system directory '' @ [CHR 0x27] @ resolved @ [CHR 0x27]))
            else if resolved \<noteq> [] \<and> hd resolved = CHR ''/'' \<and> slash_depth resolved < 1
            then (False, Some (''absolute path too shallow (need at least 2 levels): '' @ [CHR 0x27] @ resolved @ [CHR 0x27]))
            else (True, None)))"

section \<open>What is safe\<close>

lemma strip_slashes_snoc: "s \<noteq> [] \<Longrightarrow> strip_slashes (s @ ''/'') = strip_slashes s"
  by (subst strip_slashes.simps) simp

lemma strip_slashes_more: "s \<noteq> [] \<Longrightarrow> strip_slashes (s @ replicate k (CHR ''/'')) = strip_slashes s"
proof (induction k)
  case (Suc k)
  have "s @ replicate (Suc k) (CHR ''/'') = (s @ replicate k (CHR ''/'')) @ ''/''"
    by (simp add: replicate_append_same)
  then show ?case using Suc strip_slashes_snoc [of "s @ replicate k (CHR ''/'')"] by simp
qed simp

lemma strip_slashes_text:
  "t \<noteq> [] \<Longrightarrow> last t \<noteq> CHR ''/'' \<Longrightarrow> strip_slashes (t @ replicate k (CHR ''/'')) = t"
  unfolding strip_slashes_more by (subst strip_slashes.simps) simp

lemma strip_slashes_root: "strip_slashes (CHR ''/'' # replicate k (CHR ''/'')) = ''/''"
  using strip_slashes_more [of "''/''" k] by (simp add: strip_slashes.simps [of "''/''"])

lemma depth_split: "slash_depth s = 0 \<longleftrightarrow> CHR ''/'' \<notin> set (tl s)"
  by (auto simp: slash_depth_def filter_empty_conv)

lemma trailing_split: "\<exists>y k. x = y @ replicate k ch \<and> (y = [] \<or> last y \<noteq> ch)"
proof (induction x rule: rev_induct)
  case (snoc c x)
  then obtain y k where x: "x = y @ replicate k ch" "y = [] \<or> last y \<noteq> ch" by blast
  show ?case
  proof (cases "c = ch")
    case True
    then have "x @ [c] = y @ replicate (Suc k) ch" using x by (simp add: replicate_append_same)
    then show ?thesis using x(2) by blast
  next
    case False
    then have "x @ [c] = (x @ [c]) @ replicate 0 ch \<and> last (x @ [c]) \<noteq> ch" by simp
    then show ?thesis by blast
  qed
qed simp

lemma isSafe_absolute:
  assumes "path \<noteq> []" and "strip_slashes (resolve_path canonical below_cwd path) = t" and "t \<noteq> []" and "hd t = CHR ''/''"
  shows "fst (isSafe canonical below_cwd path) \<longleftrightarrow> t \<notin> set blocked_paths \<and> CHR ''/'' \<in> set (tl t)"
  using assms(1,3,4) depth_split [of t] by (auto simp: isSafe_def assms(2) Let_def)

lemma blocked_no_dot: "t \<in> set blocked_paths \<Longrightarrow> CHR ''.'' \<notin> set t"
proof -
  have "list_all (\<lambda>t. CHR ''.'' \<notin> set t) blocked_paths" by (simp add: blocked_paths_def)
  then show "t \<in> set blocked_paths \<Longrightarrow> ?thesis" by (simp add: list_all_iff)
qed

lemma isSafe_dots:
  assumes "canonical (''/'' @ n @ ''/..'' @ d) = None"
  shows "fst (isSafe canonical below_cwd (''/'' @ n @ ''/..'' @ d))"
proof -
  obtain y k where d: "d = y @ replicate k (CHR ''/'')" "y = [] \<or> last y \<noteq> CHR ''/''" using trailing_split [of d "CHR ''/''"] by auto
  let ?t = "''/'' @ n @ ''/..'' @ y"
  have "resolve_path canonical below_cwd (''/'' @ n @ ''/..'' @ d) = ?t @ replicate k (CHR ''/'')"
    using assms by (simp add: resolve_path_def d(1))
  moreover have "last ?t \<noteq> CHR ''/''" using d(2) by (cases "y = []") simp_all
  ultimately have "strip_slashes (resolve_path canonical below_cwd (''/'' @ n @ ''/..'' @ d)) = ?t"
    using strip_slashes_text [of ?t k] by simp
  from isSafe_absolute [OF _ this] show ?thesis using blocked_no_dot [of ?t] by auto
qed



end
