(* ===== verification/HashUtil.thy ===== *)
theory HashUtil imports Prelude begin

unbundle bit_operations_syntax

text \<open>
  File digests (\<open>src/src/HashUtil.cpp\<close>).  The digests of OpenSSL are a parameter: a record of the calls on a
  digest context, each of which can fail.  A build without OpenSSL is \<open>None\<close> in the place of the pair of the
  MD5 and the SHA-256 calls.  The file system is a function from paths to the bytes of the files that can
  be opened.
\<close>

record 's evp =
  evp_init :: "'s option"               \<comment> \<open>\<open>EVP_MD_CTX_new\<close> and \<open>EVP_DigestInit_ex\<close>\<close>
  evp_update :: "'s \<Rightarrow> string \<Rightarrow> 's option"
  evp_final :: "'s \<Rightarrow> string option"

definition BUF_SIZE :: nat where
  "BUF_SIZE = 65536"

definition hex_chars :: string where
  "hex_chars = ''0123456789abcdef''"

definition toHex :: "string \<Rightarrow> string" where
  "toHex data = concat (map (\<lambda>c. [hex_chars ! (drop_bit 4 (byte c) AND 0x0F), hex_chars ! (byte c AND 0x0F)]) data)"

text \<open>The loop that reads the file; a read of less than the buffer is the last one.\<close>

function digest_loop :: "'s evp \<Rightarrow> string \<Rightarrow> 's \<Rightarrow> 's option" where
  "digest_loop evp rest s =
     (let got = take BUF_SIZE rest
      in if got = [] then Some s
         else case evp_update evp s got of
                None \<Rightarrow> None
              | Some s' \<Rightarrow> if length got < BUF_SIZE then Some s' else digest_loop evp (drop BUF_SIZE rest) s')"
  by pat_completeness auto

termination
  by (relation "measure (\<lambda>(evp, rest, s). length rest)") (auto simp: BUF_SIZE_def)

declare digest_loop.simps [simp del]

definition file_digest :: "'s evp \<Rightarrow> (string \<Rightarrow> string option) \<Rightarrow> string \<Rightarrow> string" where
  "file_digest evp files path =
     (case files (c_str path) of
        None \<Rightarrow> []
      | Some content \<Rightarrow>
          (case evp_init evp of
             None \<Rightarrow> []
           | Some s0 \<Rightarrow>
               (case digest_loop evp content s0 of
                  None \<Rightarrow> []
                | Some s \<Rightarrow> (case evp_final evp s of None \<Rightarrow> [] | Some md \<Rightarrow> toHex md))))"

definition fileMD5Hex :: "('s evp \<times> 's evp) option \<Rightarrow> (string \<Rightarrow> string option) \<Rightarrow> string \<Rightarrow> string" where
  "fileMD5Hex openssl files path =
     (case openssl of None \<Rightarrow> [] | Some (md5, sha256) \<Rightarrow> file_digest md5 files path)"

definition fileSHA256Hex :: "('s evp \<times> 's evp) option \<Rightarrow> (string \<Rightarrow> string option) \<Rightarrow> string \<Rightarrow> string" where
  "fileSHA256Hex openssl files path =
     (case openssl of None \<Rightarrow> [] | Some (md5, sha256) \<Rightarrow> file_digest sha256 files path)"

text \<open>The comparison loop, for strings of the same length.\<close>

fun hex_equal :: "string \<Rightarrow> string \<Rightarrow> bool" where
  "hex_equal (a # actual) (b # expected) =
     (if lower_char a \<noteq> lower_char b then False else hex_equal actual expected)"
| "hex_equal _ _ = True"

definition digest_matches :: "string \<Rightarrow> string \<Rightarrow> bool" where
  "digest_matches actual expected =
     (if actual = [] then False
      else if length actual \<noteq> length expected then False
      else hex_equal actual expected)"

definition HashUtil_verify ::
  "('s evp \<times> 's evp) option \<Rightarrow> (string \<Rightarrow> string option) \<Rightarrow> string \<Rightarrow> string \<Rightarrow> string \<Rightarrow> bool" where
  "HashUtil_verify openssl files path expectedMD5 expectedSHA256 =
     (case openssl of
        None \<Rightarrow> expectedMD5 = [] \<and> expectedSHA256 = []
      | Some _ \<Rightarrow>
          if expectedMD5 \<noteq> [] \<and> \<not> digest_matches (fileMD5Hex openssl files path) expectedMD5 then False
          else if expectedSHA256 \<noteq> [] \<and> \<not> digest_matches (fileSHA256Hex openssl files path) expectedSHA256 then False
          else True)"

section \<open>Hexadecimal text\<close>

lemma hex_chars_lower: "i < 16 \<Longrightarrow> lower_char (hex_chars ! i) = hex_chars ! i"
proof -
  have "\<forall>i\<in>set [0..<16]. lower_char (hex_chars ! i) = hex_chars ! i"
    by (simp add: upt_rec hex_chars_def lower_char_def is_upper_def byte_def)
  then show "i < 16 \<Longrightarrow> ?thesis" by simp
qed

lemma nibble [simp]: "n AND 15 < (16::nat)"
proof -
  have "n AND 15 = take_bit 4 n" by (simp add: take_bit_eq_mask mask_eq_exp_minus_1)
  then show ?thesis by (simp add: take_bit_eq_mod)
qed

lemma to_lower_toHex [simp]: "to_lower (toHex data) = toHex data"
  by (induction data) (simp_all add: toHex_def to_lower_def hex_chars_lower)

lemma toHex_length [simp]: "length (toHex data) = 2 * length data"
  by (induction data) (simp_all add: toHex_def)

lemma hex_equal_iff: "length a = length b \<Longrightarrow> hex_equal a b \<longleftrightarrow> to_lower a = to_lower b"
  by (induction a b rule: hex_equal.induct) (auto simp: to_lower_def)

lemma digest_matches_iff: "digest_matches actual expected \<longleftrightarrow> actual \<noteq> [] \<and> to_lower expected = to_lower actual"
proof (cases "length actual = length expected")
  case True
  then show ?thesis using hex_equal_iff [OF True] by (auto simp: digest_matches_def)
next
  case False
  then have "to_lower expected \<noteq> to_lower actual" by (metis length_to_lower)
  moreover have "\<not> digest_matches actual expected" using False by (simp add: digest_matches_def)
  ultimately show ?thesis by blast
qed

section \<open>The digest of a file\<close>

text \<open>What OpenSSL documents: the updates of a context digest the concatenation of their data.\<close>

fun updates :: "'s evp \<Rightarrow> string list \<Rightarrow> 's \<Rightarrow> 's option" where
  "updates evp [] s = Some s"
| "updates evp (ch # chunks) s = (case evp_update evp s ch of None \<Rightarrow> None | Some s' \<Rightarrow> updates evp chunks s')"

definition computes :: "'s evp \<Rightarrow> (string \<Rightarrow> string) \<Rightarrow> bool" where
  "computes evp digest \<longleftrightarrow> (\<exists>s0. evp_init evp = Some s0 \<and>
     (\<forall>chunks. \<exists>s. updates evp chunks s0 = Some s \<and> evp_final evp s = Some (digest (concat chunks))))"

lemma digest_loop_updates:
  "\<exists>chunks. concat chunks = rest \<and> digest_loop evp rest s = updates evp chunks s"
proof (induction evp rest s rule: digest_loop.induct)
  case (1 evp rest s)
  let ?got = "take BUF_SIZE rest"
  show ?case
  proof (cases "?got = []")
    case True
    then have "rest = []" by (cases rest) (simp_all add: BUF_SIZE_def)
    then show ?thesis using True by (intro exI [of _ "[]"]) (simp add: digest_loop.simps)
  next
    case False
    note step = digest_loop.simps [of evp rest s]
    show ?thesis
    proof (cases "evp_update evp s ?got")
      case None
      have "concat [?got, drop BUF_SIZE rest] = rest" by simp
      moreover have "digest_loop evp rest s = updates evp [?got, drop BUF_SIZE rest] s"
        using None False by (simp add: step Let_def)
      ultimately show ?thesis by blast
    next
      case (Some s')
      show ?thesis
      proof (cases "length ?got < BUF_SIZE")
        case True
        then have "concat [?got] = rest" by simp
        moreover have "digest_loop evp rest s = updates evp [?got] s"
          using Some False True unfolding step by (simp only: Let_def if_False if_True updates.simps option.case)
        ultimately show ?thesis by blast
      next
        case full: False
        obtain chunks where c: "concat chunks = drop BUF_SIZE rest"
          "digest_loop evp (drop BUF_SIZE rest) s' = updates evp chunks s'"
          using "1.IH" [OF refl False Some full] by blast
        have "concat (?got # chunks) = rest" using c(1) by simp
        moreover have "digest_loop evp rest s = updates evp (?got # chunks) s"
          using Some False full c(2) by (simp add: step Let_def)
        ultimately show ?thesis by blast
      qed
    qed
  qed
qed

lemma file_digest_computes:
  assumes "computes evp digest"
  shows "file_digest evp files path = (case files (c_str path) of None \<Rightarrow> [] | Some content \<Rightarrow> toHex (digest content))"
proof (cases "files (c_str path)")
  case (Some content)
  obtain s0 where s0: "evp_init evp = Some s0"
    "\<And>chunks. \<exists>s. updates evp chunks s0 = Some s \<and> evp_final evp s = Some (digest (concat chunks))"
    using assms by (auto simp: computes_def)
  obtain chunks where c: "concat chunks = content" "digest_loop evp content s0 = updates evp chunks s0"
    using digest_loop_updates [of content evp s0] by blast
  obtain s where s: "updates evp chunks s0 = Some s" "evp_final evp s = Some (digest (concat chunks))"
    using s0(2) by blast
  show ?thesis by (simp add: file_digest_def Some s0(1) c(2) s) (simp add: c(1))
qed (simp add: file_digest_def)

text \<open>
  C39: For digests that work as OpenSSL documents them, the digest of a file read in pieces of 64 KB is the
  digest of its whole content, and \<open>verify\<close> accepts a file exactly if each expected digest that is not empty
  is the text of the file's digest up to the case of the letters; a file that cannot be opened passes only
  if nothing is expected.
\<close>

theorem HashUtil_verify_iff:
  assumes "computes md5 M" and "computes sha S" and "\<And>content. M content \<noteq> [] \<and> S content \<noteq> []"
  shows "HashUtil_verify (Some (md5, sha)) files path expectedMD5 expectedSHA256 \<longleftrightarrow>
    (case files (c_str path) of
       None \<Rightarrow> expectedMD5 = [] \<and> expectedSHA256 = []
     | Some content \<Rightarrow> (expectedMD5 = [] \<or> to_lower expectedMD5 = toHex (M content))
         \<and> (expectedSHA256 = [] \<or> to_lower expectedSHA256 = toHex (S content)))"
proof -
  have ne: "toHex (M content) \<noteq> []" "toHex (S content) \<noteq> []" for content
    using assms(3) [of content] by (metis toHex_length length_0_conv mult_eq_0_iff zero_neq_numeral)+
  note digests = file_digest_computes [OF assms(1), of files path] file_digest_computes [OF assms(2), of files path]
  have "digest_matches [] expected = False" for expected by (simp add: digest_matches_def)
  then show ?thesis
    using ne by (cases "files (c_str path)")
      (simp_all add: HashUtil_verify_def fileMD5Hex_def fileSHA256Hex_def digests digest_matches_iff)
qed

text \<open>A digest of one byte, the last one: a context is what has been digested so far.\<close>

definition last_byte_evp :: "string evp" where
  "last_byte_evp = \<lparr>evp_init = Some [], evp_update = (\<lambda>s ch. Some (s @ ch)),
     evp_final = (\<lambda>s. Some [last (CHR ''-'' # s)])\<rparr>"

lemma last_byte_computes: "computes last_byte_evp (\<lambda>content. [last (CHR ''-'' # content)])"
proof -
  have "updates last_byte_evp chunks s = Some (s @ concat chunks)" for chunks s
    by (induction chunks arbitrary: s) (simp_all add: last_byte_evp_def)
  then show ?thesis by (simp add: computes_def last_byte_evp_def)
qed

lemma HashUtil_verify_iff_witness:
  "HashUtil_verify (Some (last_byte_evp, last_byte_evp)) (\<lambda>_. Some ''xyz'') ''f'' ''7A'' [] \<and>
   \<not> HashUtil_verify (Some (last_byte_evp, last_byte_evp)) (\<lambda>_. Some ''xyz'') ''f'' [] ''7B''"
proof -
  have "[last (CHR ''-'' # content)] \<noteq> [] \<and> [last (CHR ''-'' # content)] \<noteq> []" for content :: string by simp
  note iff = HashUtil_verify_iff [OF last_byte_computes last_byte_computes this]
  show ?thesis unfolding iff by code_simp
qed

end
