(* ===== verification/TimeUtil.thy ===== *)
theory TimeUtil imports Prelude begin

text \<open>
  Times as text (\<open>src/src/TimeUtil.cpp\<close>).  A time point of \<open>boost::chrono::system_clock\<close> is a number of
  nanoseconds since the epoch; values outside 64 bits, at which the C++ arithmetic is undefined, are not
  modelled.  The conversions of the C library are parameters.
\<close>

record tm =
  tm_year :: int
  tm_mon :: int
  tm_mday :: int
  tm_hour :: int
  tm_min :: int
  tm_sec :: int
  tm_isdst :: int

record libc =
  lc_localtime_ok :: "int \<Rightarrow> bool"     \<comment> \<open>the result is not a null pointer\<close>
  lc_localtime :: "int \<Rightarrow> tm"          \<comment> \<open>the structure afterwards\<close>
  lc_gmtime_ok :: "int \<Rightarrow> bool"
  lc_gmtime :: "int \<Rightarrow> tm"
  lc_mktime :: "tm \<Rightarrow> int"

type_synonym time_point = int

text \<open>Division and remainder of C++: towards zero, as \<open>duration_cast\<close> does too.\<close>

definition quot :: "int \<Rightarrow> int \<Rightarrow> int" where
  "quot a b = (if a < 0 then - ((- a) div b) else a div b)"

definition rem_of :: "int \<Rightarrow> int \<Rightarrow> int" where
  "rem_of a b = a - quot a b * b"

text \<open>\<open>setw(w)\<close> with the fill character 0.\<close>

definition padded :: "nat \<Rightarrow> int \<Rightarrow> string" where
  "padded w n = replicate (w - length (dec_int n)) (CHR ''0'') @ dec_int n"

definition getSystemTimezone :: "libc \<Rightarrow> int \<Rightarrow> string" where
  "getSystemTimezone lib now =
     (let offsetSeconds = lc_mktime lib (lc_localtime lib now) - lc_mktime lib (lc_gmtime lib now);
          hours = quot offsetSeconds 3600;
          minutes = quot (rem_of offsetSeconds 3600) 60
      in if 0 \<le> offsetSeconds then CHR ''+'' # padded 2 hours @ '':'' @ padded 2 minutes
         else CHR ''-'' # padded 2 (- hours) @ '':'' @ padded 2 (- minutes))"

definition toISO8601_point :: "libc \<Rightarrow> int \<Rightarrow> time_point \<Rightarrow> string \<Rightarrow> string" where
  "toISO8601_point lib now timePoint timezone =
     (let seconds = quot timePoint 1000000000;
          microseconds = quot (timePoint - seconds * 1000000000) 1000;
          ok = (if timezone = [] then lc_localtime_ok lib seconds else lc_gmtime_ok lib seconds);
          timeInfo = (if timezone = [] then lc_localtime lib seconds else lc_gmtime lib seconds);
          milliseconds = quot microseconds 1000
      in if \<not> ok then []
         else
           padded 4 (tm_year timeInfo + 1900) @ ''-'' @ padded 2 (tm_mon timeInfo + 1) @ ''-''
           @ padded 2 (tm_mday timeInfo) @ ''T'' @ padded 2 (tm_hour timeInfo) @ '':''
           @ padded 2 (tm_min timeInfo) @ '':'' @ padded 2 (tm_sec timeInfo)
           @ (if 0 < milliseconds then CHR ''.'' # padded 3 milliseconds else [])
           @ (if timezone = [] then getSystemTimezone lib now else timezone))"

definition toISO8601 :: "libc \<Rightarrow> int \<Rightarrow> int \<Rightarrow> int \<Rightarrow> string \<Rightarrow> string" where
  "toISO8601 lib now timestamp microseconds timezone =
     toISO8601_point lib now (timestamp * 1000000000 + microseconds * 1000) timezone"

definition nowISO8601 :: "libc \<Rightarrow> time_point \<Rightarrow> string \<Rightarrow> string" where
  "nowISO8601 lib now timezone = toISO8601_point lib (quot now 1000000000) now timezone"

definition durationMs :: "time_point \<Rightarrow> time_point \<Rightarrow> int" where
  "durationMs start finish = quot (finish - start) 1000000"

definition toMillisecondsString :: "time_point \<Rightarrow> string" where
  "toMillisecondsString timePoint = dec_int (quot timePoint 1000000)"

definition nowMs :: "time_point \<Rightarrow> int" where
  "nowMs now = quot now 1000000"

definition formatTimePart :: "time_point \<Rightarrow> string" where
  "formatTimePart timePoint = []"

section \<open>Reading the text back\<close>

definition read_num :: "nat \<Rightarrow> string \<Rightarrow> (int \<times> string) option" where
  "read_num w s = (if w \<le> length s \<and> list_all is_digit (take w s)
     then Some (int (digits_val (take w s)), drop w s) else None)"

definition read_after :: "char \<Rightarrow> nat \<Rightarrow> string \<Rightarrow> (int \<times> string) option" where
  "read_after sep w s = (if s \<noteq> [] \<and> hd s = sep then read_num w (tl s) else None)"

text \<open>Year, month, day, hour, minute, second, millisecond, and the text of the zone.\<close>

definition read_iso :: "string \<Rightarrow> (int list \<times> string) option" where
  "read_iso s =
     Option.bind (read_num 4 s) (\<lambda>(y, s). Option.bind (read_after (CHR ''-'') 2 s) (\<lambda>(m, s).
     Option.bind (read_after (CHR ''-'') 2 s) (\<lambda>(d, s). Option.bind (read_after (CHR ''T'') 2 s) (\<lambda>(h, s).
     Option.bind (read_after (CHR '':'') 2 s) (\<lambda>(mi, s). Option.bind (read_after (CHR '':'') 2 s) (\<lambda>(sec, s).
       case read_after (CHR ''.'') 3 s of
         Some (ms, zone) \<Rightarrow> Some ([y, m, d, h, mi, sec, ms], zone)
       | None \<Rightarrow> Some ([y, m, d, h, mi, sec, 0], s)))))))"

lemma dec_nat_length: "n < 10 ^ w \<Longrightarrow> 0 < w \<Longrightarrow> length (dec_nat n) \<le> w"
proof (induction n arbitrary: w rule: dec_nat.induct)
  case (1 n)
  show ?case
  proof (cases "n < 10")
    case True
    then show ?thesis using 1(3) by (simp add: dec_nat.simps [of n])
  next
    case False
    obtain v where v: "w = Suc v" using 1(3) by (cases w) auto
    have "0 < v" using 1(2) False v by (cases v) auto
    moreover have "n div 10 < 10 ^ v" using 1(2) v by (simp add: less_mult_imp_div_less mult.commute)
    ultimately have "length (dec_nat (n div 10)) \<le> v" using "1.IH" False by blast
    then show ?thesis using False v by (simp add: dec_nat.simps [of n])
  qed
qed

lemma digits_val_zeros: "digits_val (replicate k (CHR ''0'') @ s) = digits_val s"
proof -
  have z: "digit_val (CHR ''0'') = 0" by (simp add: digit_val_def byte_def)
  have "foldl (\<lambda>v c. 10 * v + digit_val c) 0 (replicate k (CHR ''0'')) = 0"
    by (induction k) (simp_all add: z)
  then show ?thesis by (simp add: digits_val_def)
qed

lemma read_padded:
  assumes "0 \<le> n" and "n < 10 ^ w" and "0 < w"
  shows "read_num w (padded w n @ rest) = Some (n, rest)"
proof -
  obtain k where k: "n = int k" "k < 10 ^ w" using assms(1,2) by (metis nonneg_int_cases of_nat_less_iff of_nat_power of_nat_numeral)
  have d: "dec_int (int k) = dec_nat k" by (simp add: dec_int_def k(1))
  have len: "length (padded w n) = w" using dec_nat_length [OF k(2) assms(3)] by (simp add: padded_def d k(1))
  have digits: "list_all is_digit (padded w n)"
    using dec_nat_digits [of _ k] by (auto simp: padded_def d k(1) list_all_iff is_digit_def byte_def)
  show ?thesis using len digits by (simp add: read_num_def) (simp add: padded_def d digits_val_zeros k(1))
qed

lemma read_after_padded:
  "0 \<le> n \<Longrightarrow> n < 10 ^ w \<Longrightarrow> 0 < w \<Longrightarrow> read_after sep w (sep # padded w n @ rest) = Some (n, rest)"
  by (simp add: read_after_def read_padded)

text \<open>Fields as the C library fills them, in the years 0 to 9999.\<close>

definition tm_ok :: "tm \<Rightarrow> bool" where
  "tm_ok t \<longleftrightarrow> -1900 \<le> tm_year t \<and> tm_year t < 8100 \<and> 0 \<le> tm_mon t \<and> tm_mon t \<le> 11 \<and> 1 \<le> tm_mday t \<and> tm_mday t \<le> 31
     \<and> 0 \<le> tm_hour t \<and> tm_hour t \<le> 23 \<and> 0 \<le> tm_min t \<and> tm_min t \<le> 59 \<and> 0 \<le> tm_sec t \<and> tm_sec t \<le> 60"

definition date_fields :: "tm \<Rightarrow> int list" where
  "date_fields t = [tm_year t + 1900, tm_mon t + 1, tm_mday t, tm_hour t, tm_min t, tm_sec t]"

lemma read_iso_text:
  assumes "tm_ok t" and "0 \<le> ms" and "ms < 1000" and "zone = [] \<or> hd zone \<noteq> CHR ''.''"
  shows "read_iso (padded 4 (tm_year t + 1900) @ ''-'' @ padded 2 (tm_mon t + 1) @ ''-'' @ padded 2 (tm_mday t) @ ''T''
      @ padded 2 (tm_hour t) @ '':'' @ padded 2 (tm_min t) @ '':'' @ padded 2 (tm_sec t)
      @ (if 0 < ms then CHR ''.'' # padded 3 ms else []) @ zone)
    = Some (date_fields t @ [ms], zone)"
proof -
  have year: "read_num 4 (padded 4 (tm_year t + 1900) @ rest) = Some (tm_year t + 1900, rest)" for rest
    using assms(1) by (intro read_padded) (simp_all add: tm_ok_def)
  have two: "0 \<le> n \<Longrightarrow> n < 100 \<Longrightarrow> read_after sep 2 (sep # padded 2 n @ rest) = Some (n, rest)" for sep n rest
    by (rule read_after_padded) simp_all
  have frac: "read_after (CHR ''.'') 3 ((if 0 < ms then CHR ''.'' # padded 3 ms else []) @ zone)
      = (if 0 < ms then Some (ms, zone) else None)"
    using assms(2-4) read_after_padded [of ms 3 "CHR ''.''" zone] by (auto simp: read_after_def)
  show ?thesis
    using assms(1,2) unfolding tm_ok_def
    by (simp add: read_iso_def year two frac date_fields_def split del: if_split) (auto split: if_split)
qed

lemma padded_hd: "padded w n \<noteq> [] "
  by (auto simp: padded_def dec_int_def)

text \<open>
  C40: For a time point from 1970 on whose fields are valid, the ISO 8601 text reads back: the date and time
  are the library's fields, local without a time zone argument and UTC with one, the millisecond is the
  exact one, and the zone is the argument itself, which the fields are not converted to, or the computed
  offset of the system.
\<close>

theorem TimeUtil_iso_round_trip:
  assumes "0 \<le> timePoint" and "timezone = [] \<longrightarrow> lc_localtime_ok lib (timePoint div 1000000000)"
    and "timezone \<noteq> [] \<longrightarrow> lc_gmtime_ok lib (timePoint div 1000000000) \<and> hd timezone \<noteq> CHR ''.''"
    and "t = (if timezone = [] then lc_localtime lib else lc_gmtime lib) (timePoint div 1000000000)" and "tm_ok t"
  shows "read_iso (toISO8601_point lib now timePoint timezone) =
    Some (date_fields t @ [timePoint div 1000000 mod 1000],
          if timezone = [] then getSystemTimezone lib now else timezone)"
proof -
  let ?zone = "if timezone = [] then getSystemTimezone lib now else timezone"
  have s: "quot timePoint 1000000000 = timePoint div 1000000000" using assms(1) by (simp add: quot_def)
  have r: "timePoint - timePoint div 1000000000 * 1000000000 = timePoint mod 1000000000"
    by (simp add: minus_div_mult_eq_mod)
  have ms: "quot (quot (timePoint mod 1000000000) 1000) 1000 = timePoint div 1000000 mod 1000"
  proof -
    have "timePoint mod 1000000000 = 1000000 * (timePoint div 1000000 mod 1000) + timePoint mod 1000000"
      using zmod_zmult2_eq [of 1000 timePoint 1000000] by simp
    then have "timePoint mod 1000000000 div 1000000 = timePoint div 1000000 mod 1000" by simp
    moreover have "quot (quot m 1000) 1000 = m div 1000000" if "0 \<le> m" for m :: int
      using that zdiv_zmult2_eq [of 1000 m 1000] by (simp add: quot_def pos_imp_zdiv_neg_iff not_less)
    ultimately show ?thesis by simp
  qed
  have zone: "?zone = [] \<or> hd ?zone \<noteq> CHR ''.''"
    using assms(3) by (simp add: getSystemTimezone_def Let_def)
  have ok: "(if timezone = [] then lc_localtime_ok lib (timePoint div 1000000000)
      else lc_gmtime_ok lib (timePoint div 1000000000))"
    and t: "(if timezone = [] then lc_localtime lib (timePoint div 1000000000)
      else lc_gmtime lib (timePoint div 1000000000)) = t"
    using assms(2-4) by simp_all
  show ?thesis
    unfolding toISO8601_point_def Let_def s r ms t eqTrueI [OF ok] not_True_eq_False if_False
    by (rule read_iso_text [OF assms(5) _ _ zone]) simp_all
qed

text \<open>A C library that knows one instant, and a zone five and a half hours ahead.\<close>

definition demo_tm :: tm where
  "demo_tm = \<lparr>tm_year = 124, tm_mon = 0, tm_mday = 31, tm_hour = 7, tm_min = 5, tm_sec = 9, tm_isdst = 0\<rparr>"

definition demo_libc :: libc where
  "demo_libc = \<lparr>lc_localtime_ok = (\<lambda>_. True), lc_localtime = (\<lambda>_. demo_tm), lc_gmtime_ok = (\<lambda>_. True),
     lc_gmtime = (\<lambda>_. demo_tm\<lparr>tm_hour := 1, tm_min := 35\<rparr>), lc_mktime = (\<lambda>t. tm_hour t * 3600 + tm_min t * 60)\<rparr>"

lemma TimeUtil_iso_round_trip_witness:
  "read_iso (toISO8601_point demo_libc 0 1706684709042000000 []) = Some ([2024, 1, 31, 7, 5, 9, 42], ''+05:30'')"
proof -
  have "getSystemTimezone demo_libc 0 = ''+05:30''"
  proof -
    have "getSystemTimezone demo_libc 0 = CHR ''+'' # padded 2 5 @ '':'' @ padded 2 30"
      by (simp add: getSystemTimezone_def demo_libc_def demo_tm_def quot_def rem_of_def)
    moreover have "digit_char 0 = CHR ''0'' \<and> digit_char 3 = CHR ''3'' \<and> digit_char 5 = CHR ''5''" by code_simp
    ultimately show ?thesis by (simp add: padded_def dec_int_def dec_nat.simps [of 5] dec_nat.simps [of 30] dec_nat.simps [of 3])
  qed
  moreover have "lc_localtime_ok demo_libc n" "lc_localtime demo_libc n = demo_tm" for n
    by (simp_all add: demo_libc_def)
  moreover have "tm_ok demo_tm" "date_fields demo_tm = [2024, 1, 31, 7, 5, 9]"
    by (simp_all add: demo_tm_def tm_ok_def date_fields_def)
  ultimately show ?thesis
    using TimeUtil_iso_round_trip [of 1706684709042000000 "[]" demo_libc demo_tm 0] by simp
qed

section \<open>The offset of the system\<close>

lemma offset_parts:
  assumes "0 \<le> k"
  shows "quot (60 * k) 3600 = k div 60" "quot (rem_of (60 * k) 3600) 60 = k mod 60"
    "quot (- (60 * k)) 3600 = - (k div 60)" "quot (rem_of (- (60 * k)) 3600) 60 = - (k mod 60)"
proof -
  have d: "60 * k div 3600 = k div 60" using div_mult_mult1 [of 60 k 60] by simp
  have m: "60 * k - k div 60 * 3600 = 60 * (k mod 60)" using div_mult_mod_eq [of k 60] by linarith
  show "quot (60 * k) 3600 = k div 60" using assms d by (simp add: quot_def)
  then show "quot (rem_of (60 * k) 3600) 60 = k mod 60" using assms m by (simp add: rem_of_def quot_def)
  show n: "quot (- (60 * k)) 3600 = - (k div 60)" using assms d by (cases "k = 0") (simp_all add: quot_def)
  have "rem_of (- (60 * k)) 3600 = - (60 * (k mod 60))" unfolding rem_of_def n using m by simp
  then show "quot (rem_of (- (60 * k)) 3600) 60 = - (k mod 60)" by (cases "k mod 60 = 0") (simp_all add: quot_def)
qed

text \<open>
  \<open>gmtime\<close> sets \<open>tm_isdst\<close> to 0, so that \<open>mktime\<close> reads its fields as standard time.  The printed offset is
  therefore that of standard time all year: in summer the local fields are printed with an offset that
  lies one hour behind them.
\<close>

theorem getSystemTimezone_is_standard:
  assumes "lc_mktime lib (lc_localtime lib now) = now"
    and "lc_mktime lib (lc_gmtime lib now) = now - standard"
    and "-360000 < standard" and "standard < 360000" and "60 dvd standard"
  shows "\<exists>h m. getSystemTimezone lib now = (if 0 \<le> standard then CHR ''+'' else CHR ''-'') # padded 2 h @ '':'' @ padded 2 m
     \<and> 0 \<le> h \<and> h < 100 \<and> 0 \<le> m \<and> m < 60 \<and> \<bar>standard\<bar> = h * 3600 + m * 60"
proof -
  obtain k where k: "\<bar>standard\<bar> = 60 * k" using assms(5) by (metis dvd_abs_iff dvdE)
  then have range: "0 \<le> k" "k < 6000" using assms(3,4) by linarith+
  note parts = offset_parts [OF range(1)]
  have zone: "getSystemTimezone lib now = (if 0 \<le> standard then CHR ''+'' else CHR ''-'')
      # padded 2 (k div 60) @ '':'' @ padded 2 (k mod 60)"
  proof (cases "0 \<le> standard")
    case True
    then have "standard = 60 * k" using k by simp
    then show ?thesis using parts(1,2) assms(1,2) range(1) by (simp add: getSystemTimezone_def)
  next
    case False
    then have "standard = - (60 * k)" using k by simp
    then show ?thesis using False parts(3,4) assms(1,2) by (simp add: getSystemTimezone_def)
  qed
  moreover have "k div 60 < 100" "k mod 60 < 60" using range by linarith simp
  moreover have "\<bar>standard\<bar> = k div 60 * 3600 + k mod 60 * 60"
    using k div_mult_mod_eq [of k 60] by linarith
  ultimately show ?thesis using range(1) by (intro exI [of _ "k div 60"] exI [of _ "k mod 60"]) simp
qed

end
