(* ===== verification/JsonUtil.thy ===== *)
theory JsonUtil imports Context begin

text \<open>
  Tolerant reading of JSON (\<open>src/include/intertwine/fw/JsonUtil.hpp\<close>).  A value of the JSON library is a tree;
  an integer is any number the library stores as signed or unsigned 64 bits.  The library's parser
  (\<open>None\<close>: it throws) and its floating-point numbers with their \<open>std::to_string\<close> are parameters.
\<close>

datatype 'd json =
    JNull
  | JBool bool
  | JInt int
  | JFloat 'd
  | JString string
  | JArray "'d json list"
  | JObject "(string \<times> 'd json) list"

text \<open>\<open>j.contains(key)\<close> with \<open>j[key]\<close>; false for everything but an object.\<close>

fun json_at :: "'d json \<Rightarrow> string \<Rightarrow> 'd json option" where
  "json_at (JObject members) key = map_of members key"
| "json_at _ key = None"

text \<open>\<open>get<int>()\<close> and \<open>get<int64_t>()\<close>: casts to the narrower type.\<close>

definition get_int32 :: "int \<Rightarrow> int" where
  "get_int32 i = sint (word_of_int i :: 32 word)"

definition get_int64 :: "int \<Rightarrow> int" where
  "get_int64 i = sint (word_of_int i :: 64 word)"

definition getString :: "('d \<Rightarrow> string) \<Rightarrow> 'd json \<Rightarrow> string \<Rightarrow> string \<Rightarrow> string" where
  "getString float_text j key defaultValue =
     (case json_at j key of
        Some (JString s) \<Rightarrow> s
      | Some (JInt i) \<Rightarrow> dec_int (get_int64 i)
      | Some (JFloat d) \<Rightarrow> float_text d
      | _ \<Rightarrow> defaultValue)"

definition getInt :: "'d json \<Rightarrow> string \<Rightarrow> int \<Rightarrow> int" where
  "getInt j key defaultValue = (case json_at j key of Some (JInt i) \<Rightarrow> get_int32 i | _ \<Rightarrow> defaultValue)"

definition getBool :: "'d json \<Rightarrow> string \<Rightarrow> bool \<Rightarrow> bool" where
  "getBool j key defaultValue =
     (case json_at j key of
        Some (JBool b) \<Rightarrow> b
      | Some (JInt i) \<Rightarrow> get_int32 i \<noteq> 0
      | Some (JString s) \<Rightarrow> s = ''true'' \<or> s = ''1''
      | _ \<Rightarrow> defaultValue)"

definition safeParse :: "(string \<Rightarrow> 'd json option) \<Rightarrow> string \<Rightarrow> 'd json" where
  "safeParse parse body = (case parse body of Some j \<Rightarrow> j | None \<Rightarrow> JObject [])"

definition getString_text ::
  "(string \<Rightarrow> 'd json option) \<Rightarrow> ('d \<Rightarrow> string) \<Rightarrow> string \<Rightarrow> string \<Rightarrow> string \<Rightarrow> string" where
  "getString_text parse float_text body key defaultValue = getString float_text (safeParse parse body) key defaultValue"

definition getInt_text :: "(string \<Rightarrow> 'd json option) \<Rightarrow> string \<Rightarrow> string \<Rightarrow> int \<Rightarrow> int" where
  "getInt_text parse body key defaultValue = getInt (safeParse parse body) key defaultValue"

definition getBool_text :: "(string \<Rightarrow> 'd json option) \<Rightarrow> string \<Rightarrow> string \<Rightarrow> bool \<Rightarrow> bool" where
  "getBool_text parse body key defaultValue = getBool (safeParse parse body) key defaultValue"

text \<open>The overloads for a C string, read up to its first zero byte.\<close>

definition getString_cstr ::
  "(string \<Rightarrow> 'd json option) \<Rightarrow> ('d \<Rightarrow> string) \<Rightarrow> string \<Rightarrow> string \<Rightarrow> string \<Rightarrow> string" where
  "getString_cstr parse float_text body key defaultValue =
     getString float_text (safeParse parse (c_str body)) key defaultValue"

definition getInt_cstr :: "(string \<Rightarrow> 'd json option) \<Rightarrow> string \<Rightarrow> string \<Rightarrow> int \<Rightarrow> int" where
  "getInt_cstr parse body key defaultValue = getInt (safeParse parse (c_str body)) key defaultValue"

definition getBool_cstr :: "(string \<Rightarrow> 'd json option) \<Rightarrow> string \<Rightarrow> string \<Rightarrow> bool \<Rightarrow> bool" where
  "getBool_cstr parse body key defaultValue = getBool (safeParse parse (c_str body)) key defaultValue"

definition json_escape_char :: "char \<Rightarrow> string" where
  "json_escape_char c =
     (if c = CHR 0x22 then [CHR 0x5C, CHR 0x22]
      else if c = CHR 0x5C then [CHR 0x5C, CHR 0x5C]
      else if c = CHR 0x0A then [CHR 0x5C, CHR ''n'']
      else if c = CHR 0x0D then [CHR 0x5C, CHR ''r'']
      else if c = CHR 0x09 then [CHR 0x5C, CHR ''t'']
      else if byte c < 32 then []
      else [c])"

definition escape :: "string \<Rightarrow> string" where
  "escape s = concat (map json_escape_char s)"

section \<open>Escaping\<close>

definition kept_char :: "char \<Rightarrow> bool" where
  "kept_char c \<longleftrightarrow> 32 \<le> byte c \<or> c \<in> {CHR 0x0A, CHR 0x0D, CHR 0x09}"

lemma json_escape_char_read:
  "json_string (json_escape_char c @ s)
   = (if kept_char c then map_option (\<lambda>(v, r). (c # v, r)) (json_string s) else json_string s)"
proof -
  have q: "\<not> byte (CHR 0x22) < 32" "\<not> byte (CHR 0x5C) < 32" "byte (CHR 0x0A) < 32" "byte (CHR 0x0D) < 32"
    "byte (CHR 0x09) < 32" by (simp_all add: byte_def)
  then show ?thesis by (auto simp: json_escape_char_def json_unescape_def kept_char_def)
qed

text \<open>
  Between quotes, the escaped text of any string is a JSON string for every reader that follows RFC 8259:
  it reads back as the string without its control characters other than line feed, carriage return and
  tab, and the reader stops exactly at the closing quote, so that no string can break out of the literal.
\<close>

theorem JsonUtil_escape_round_trip:
  "json_string (escape s @ CHR 0x22 # rest) = Some (filter kept_char s, rest)"
proof (induction s)
  case (Cons c s)
  then show ?case by (simp add: escape_def json_escape_char_read)
qed (simp add: escape_def)

section \<open>Numbers and conversions\<close>

lemma get_int_id:
  "in_range 32 i \<Longrightarrow> get_int32 i = i" "in_range 64 i \<Longrightarrow> get_int64 i = i"
  by (simp_all add: get_int32_def get_int64_def in_range_def int_word_sint)

text \<open>
  The accessors never fail: every text gives an answer.  Integers within \<open>int\<close> are exact, others wrap
  around: 2 to the 32 is read as \<open>false\<close> and as 0, while \<open>getString\<close> still gives all its digits.
\<close>

theorem JsonUtil_integers:
  assumes "json_at j key = Some (JInt i)"
  shows "in_range 32 i \<Longrightarrow> getInt j key d = i \<and> getBool j key b = (i \<noteq> 0)"
    and "in_range 64 i \<Longrightarrow> getString float_text j key t = dec_int i"
    and "i = 4294967296 \<Longrightarrow> getInt j key d = 0 \<and> \<not> getBool j key b \<and> getString float_text j key t = dec_int 4294967296"
  using assms get_int_id [of i]
  by (auto simp: getInt_def getBool_def getString_def get_int32_def get_int64_def in_range_def)

end
