(* ===== verification/CertUtil.thy ===== *)
theory CertUtil imports Prelude begin

text \<open>
  Self-signed certificates (\<open>src/src/CertUtil.cpp\<close>).  The function is one sequence of calls of OpenSSL and
  of the C library.  A failure of those whose result is looked at jumps to a common clean-up; the result of
  the others is ignored.  What the calls answer is the environment \<open>cert_env\<close>, and the calls are recorded as
  events, those that failed without notice as \<open>Failed\<close>.
\<close>

section \<open>The subject alternative name\<close>

definition loopback_names :: string where
  "loopback_names = ''DNS:localhost,IP:127.0.0.1,IP:::1''"

definition san_text :: "string \<Rightarrow> string" where
  "san_text cn =
     (if cn \<noteq> [] \<and> cn \<noteq> ''localhost''
      then (let hasDot = find_char (CHR ''.'') 0 cn \<noteq> None; hasColon = find_char (CHR '':'') 0 cn \<noteq> None
            in if hasColon then ''IP:'' @ cn @ '','' @ loopback_names
               else if hasDot
               then (let isIp = list_all (\<lambda>ch. ch = CHR ''.'' \<or> is_digit ch) cn
                     in (if isIp then ''IP:'' else ''DNS:'') @ cn @ '','' @ loopback_names)
               else loopback_names)
      else loopback_names)"

section \<open>Generating\<close>

datatype resource = KeyCtx | Key | Cert | Extension | File string | Bio | Names

datatype cert_event =
    Acquire resource
  | Release resource
  | SetSerial int
  | SetVersion int
  | ValidSeconds int
  | SetKey
  | SetName string string
  | SetIssuer
  | AddExtension string
  | Sign
  | WriteKey string
  | WriteCert string
  | Flush string                            \<comment> \<open>\<open>fclose\<close> writes what is buffered\<close>
  | Chmod string nat
  | LogText string
  | Failed cert_event

record cert_env =
  ce_ctx :: bool
  ce_keygen_init :: bool
  ce_bits :: bool
  ce_keygen :: bool
  ce_x509 :: bool
  ce_extension :: "string \<Rightarrow> bool"      \<comment> \<open>\<open>X509V3_EXT_conf_nid\<close> accepts the text\<close>
  ce_sign :: bool
  ce_open :: "string \<Rightarrow> bool"
  ce_write_key :: bool
  ce_write_cert :: bool
  ce_unchecked :: "cert_event \<Rightarrow> bool"    \<comment> \<open>a call whose result is ignored works\<close>

text \<open>The local variables that the clean-up reads, and the events so far.\<close>

record cert_state =
  cs_ctx :: bool
  cs_x509 :: bool
  cs_pkey :: bool
  cs_events :: "cert_event list"

definition emit :: "cert_event list \<Rightarrow> cert_state \<Rightarrow> cert_state" where
  "emit evs s = s\<lparr>cs_events := cs_events s @ evs\<rparr>"

definition attempt :: "cert_env \<Rightarrow> cert_event \<Rightarrow> cert_event" where
  "attempt env call = (if ce_unchecked env call then call else Failed call)"

definition close_file :: "cert_env \<Rightarrow> string \<Rightarrow> cert_event list" where
  "close_file env path = [attempt env (Flush path), Release (File path)]"

definition cleanup :: "bool \<times> cert_state \<Rightarrow> bool \<times> cert_event list" where
  "cleanup r =
     (case r of (ok, s) \<Rightarrow>
        (ok, cs_events s
          @ (if ok then [] else [LogText ''[cert] self-signed certificate generation failed''])
          @ (if cs_ctx s then [Release KeyCtx] else [])
          @ (if cs_x509 s then [Release Cert] else [])
          @ (if cs_pkey s then [Release Key] else [])))"

definition generate_key :: "cert_env \<Rightarrow> cert_state \<Rightarrow> bool \<times> cert_state" where
  "generate_key env s =
     (if \<not> ce_ctx env then (False, s)
      else (let s1 = emit [Acquire KeyCtx] (s\<lparr>cs_ctx := True\<rparr>)
            in if \<not> ce_keygen_init env then (False, s1)
               else if \<not> ce_bits env then (False, s1)
               else if \<not> ce_keygen env then (False, s1)
               else (True, emit [Acquire Key, Release KeyCtx] (s1\<lparr>cs_pkey := True, cs_ctx := False\<rparr>))))"

definition build_certificate :: "cert_env \<Rightarrow> int \<Rightarrow> string \<Rightarrow> cert_state \<Rightarrow> bool \<times> cert_state" where
  "build_certificate env days cn s =
     (if \<not> ce_x509 env then (False, s)
      else (let s1 = emit (Acquire Cert # map (attempt env)
                       [SetSerial 1, SetVersion 2, ValidSeconds 0, ValidSeconds (days * 86400), SetKey,
                        SetName ''CN'' (c_str cn), SetName ''O'' ''AlkaidLab'', SetIssuer]) (s\<lparr>cs_x509 := True\<rparr>);
                san = c_str (san_text cn);
                s2 = (if ce_extension env san
                      then emit [Acquire Extension, attempt env (AddExtension san), Release Extension] s1 else s1)
            in if \<not> ce_sign env then (False, s2) else (True, emit [Sign] s2)))"

definition write_key :: "cert_env \<Rightarrow> string \<Rightarrow> cert_state \<Rightarrow> bool \<times> cert_state" where
  "write_key env keyPath s =
     (if \<not> ce_open env keyPath
      then (False, emit [LogText (''[cert] failed to open key file for writing: '' @ keyPath)] s)
      else (let s1 = emit [Acquire (File keyPath)] s
            in if \<not> ce_write_key env then (False, emit (close_file env keyPath) s1)
               else (True, emit (WriteKey keyPath # close_file env keyPath @ [attempt env (Chmod keyPath 384)]) s1)))"

definition write_cert :: "cert_env \<Rightarrow> string \<Rightarrow> cert_state \<Rightarrow> bool \<times> cert_state" where
  "write_cert env certPath s =
     (if \<not> ce_open env certPath
      then (False, emit [LogText (''[cert] failed to open cert file for writing: '' @ certPath)] s)
      else (let s1 = emit [Acquire (File certPath)] s
            in if \<not> ce_write_cert env then (False, emit (close_file env certPath) s1)
               else (True, emit (WriteCert certPath # close_file env certPath) s1)))"

text \<open>A step that fails jumps over the rest.\<close>

definition then_step :: "bool \<times> cert_state \<Rightarrow> (cert_state \<Rightarrow> bool \<times> cert_state) \<Rightarrow> bool \<times> cert_state" where
  "then_step r step = (case r of (ok, s) \<Rightarrow> if ok then step s else (False, s))"

definition generateSelfSigned ::
  "cert_env \<Rightarrow> string \<Rightarrow> string \<Rightarrow> int \<Rightarrow> string \<Rightarrow> bool \<times> cert_event list" where
  "generateSelfSigned env certPath keyPath days cn =
     cleanup
       (then_step
         (then_step
           (then_step
             (then_step (generate_key env \<lparr>cs_ctx = False, cs_x509 = False, cs_pkey = False, cs_events = []\<rparr>)
               (build_certificate env days cn))
             (write_key env (c_str keyPath)))
           (write_cert env (c_str certPath)))
         (\<lambda>s. (True, emit [LogText (''[cert] self-signed certificate generated: '' @ certPath @ '' + '' @ keyPath
                @ '' (valid '' @ dec_int days @ '' days)'')] s)))"

section \<open>Reading\<close>

record CertInfo =
  ci_subject :: string
  ci_selfSigned :: bool
  ci_notBefore :: string
  ci_notAfter :: string
  ci_domains :: "string list"

text \<open>A certificate as the library's accessors show it.\<close>

record x509 =
  xc_subject :: "string option"         \<comment> \<open>the common name, if there is a subject\<close>
  xc_issuer_is_subject :: bool          \<comment> \<open>there are both, and they compare equal\<close>
  xc_notBefore :: "string option"       \<comment> \<open>as \<open>ASN1_TIME_print\<close> prints it\<close>
  xc_notAfter :: "string option"
  xc_names :: "(bool \<times> string option) list option"  \<comment> \<open>is it a DNS name, and its data\<close>

definition asn1TimeToISO :: "bool \<Rightarrow> string option \<Rightarrow> string" where
  "asn1TimeToISO bio_new t =
     (case t of None \<Rightarrow> [] | Some text \<Rightarrow> if \<not> bio_new then [] else c_str (take 63 text))"

definition dns_names :: "(bool \<times> string option) list \<Rightarrow> string list" where
  "dns_names names = concat (map (\<lambda>(is_dns, data). if is_dns then (case data of Some d \<Rightarrow> [c_str d] | None \<Rightarrow> []) else []) names)"

text \<open>\<open>certs\<close> gives the certificate in a file, \<open>Some None\<close> if the file can be opened but not read as one.\<close>

definition readCertInfo :: "(string \<Rightarrow> x509 option option) \<Rightarrow> bool \<Rightarrow> string \<Rightarrow> CertInfo \<Rightarrow> bool \<times> CertInfo \<times> cert_event list" where
  "readCertInfo certs bio_new certPath info =
     (case certs (c_str certPath) of
        None \<Rightarrow> (False, info, [])
      | Some None \<Rightarrow> (False, info, [Acquire (File (c_str certPath)), Release (File (c_str certPath))])
      | Some (Some x) \<Rightarrow>
          (True,
           \<lparr>ci_subject = (case xc_subject x of Some cn \<Rightarrow> c_str (take 255 cn) | None \<Rightarrow> ci_subject info),
             ci_selfSigned = xc_issuer_is_subject x,
             ci_notBefore = asn1TimeToISO bio_new (xc_notBefore x),
             ci_notAfter = asn1TimeToISO bio_new (xc_notAfter x),
             ci_domains = (case xc_names x of None \<Rightarrow> [] | Some names \<Rightarrow> dns_names names)\<rparr>,
           [Acquire (File (c_str certPath)), Acquire Cert, Release (File (c_str certPath))]
           @ (if xc_notBefore x \<noteq> None \<and> bio_new then [Acquire Bio, Release Bio] else [])
           @ (if xc_notAfter x \<noteq> None \<and> bio_new then [Acquire Bio, Release Bio] else [])
           @ (if xc_names x = None then [] else [Acquire Names, Release Names])
           @ [Release Cert]))"

section \<open>Resources\<close>

text \<open>
  What is held after some events, \<open>None\<close> if something is freed or closed that is not held, or is written
  while its file is not open.
\<close>

fun held :: "cert_event list \<Rightarrow> resource list \<Rightarrow> resource list option" where
  "held [] rs = Some rs"
| "held (Acquire r # evs) rs = held evs (r # rs)"
| "held (Release r # evs) rs = (if r \<in> set rs then held evs (remove1 r rs) else None)"
| "held (WriteKey f # evs) rs = (if File f \<in> set rs then held evs rs else None)"
| "held (WriteCert f # evs) rs = (if File f \<in> set rs then held evs rs else None)"
| "held (_ # evs) rs = held evs rs"

lemmas cert_defs = cleanup_def generate_key_def build_certificate_def write_key_def write_cert_def then_step_def
  emit_def Let_def

lemma attempt_held [simp]:
  "held (attempt env (SetSerial n) # evs) rs = held evs rs" "held (attempt env (SetVersion n) # evs) rs = held evs rs"
  "held (attempt env (ValidSeconds n) # evs) rs = held evs rs" "held (attempt env SetKey # evs) rs = held evs rs"
  "held (attempt env (SetName k v) # evs) rs = held evs rs" "held (attempt env SetIssuer # evs) rs = held evs rs"
  "held (attempt env (AddExtension t) # evs) rs = held evs rs" "held (attempt env (Flush f) # evs) rs = held evs rs"
  "held (attempt env (Chmod f m) # evs) rs = held evs rs"
  by (simp_all add: attempt_def)

lemma attempt_eq [simp]:
  "call = attempt env call' \<longleftrightarrow> (if ce_unchecked env call' then call = call' else call = Failed call')"
  by (simp add: attempt_def)

lemma held_append: "held (xs @ ys) rs = Option.bind (held xs rs) (held ys)"
  by (induction xs rs rule: held.induct) simp_all

definition owned :: "cert_state \<Rightarrow> resource list" where
  "owned s = (if cs_x509 s then [Cert] else []) @ (if cs_pkey s then [Key] else []) @ (if cs_ctx s then [KeyCtx] else [])"

definition owns :: "cert_state \<Rightarrow> bool" where
  "owns s \<longleftrightarrow> held (cs_events s) [] = Some (owned s)"

lemma generate_key_owns:
  "owns (snd (generate_key env \<lparr>cs_ctx = False, cs_x509 = False, cs_pkey = False, cs_events = []\<rparr>))
   \<and> \<not> cs_x509 (snd (generate_key env \<lparr>cs_ctx = False, cs_x509 = False, cs_pkey = False, cs_events = []\<rparr>))"
  by (simp add: generate_key_def emit_def owns_def owned_def Let_def)

lemma build_certificate_owns: "owns s \<Longrightarrow> \<not> cs_x509 s \<Longrightarrow> owns (snd (build_certificate env days cn s))"
  by (simp add: build_certificate_def emit_def close_file_def owns_def owned_def held_append Let_def)

lemma write_key_owns: "owns s \<Longrightarrow> owns (snd (write_key env path s))"
  by (simp add: write_key_def emit_def close_file_def owns_def owned_def held_append Let_def)

lemma write_cert_owns: "owns s \<Longrightarrow> owns (snd (write_cert env path s))"
  by (simp add: write_cert_def emit_def close_file_def owns_def owned_def held_append Let_def)

lemma log_owns: "owns s \<Longrightarrow> owns (emit [LogText t] s)"
  by (simp add: emit_def owns_def owned_def held_append)

lemma then_step_owns: "owns (snd r) \<Longrightarrow> (\<And>s. snd r = s \<Longrightarrow> owns s \<Longrightarrow> owns (snd (step s))) \<Longrightarrow> owns (snd (then_step r step))"
  by (cases r) (simp add: then_step_def)

lemma cleanup_releases: "owns (snd r) \<Longrightarrow> held (snd (cleanup r)) [] = Some []"
  by (cases r) (auto simp: cleanup_def owns_def owned_def held_append)

lemma generateSelfSigned_releases: "held (snd (generateSelfSigned env certPath keyPath days cn)) [] = Some []"
  unfolding generateSelfSigned_def
  by (intro cleanup_releases then_step_owns)
    (use generate_key_owns in \<open>auto intro: build_certificate_owns write_key_owns write_cert_owns log_owns\<close>)

lemma generateSelfSigned_ok:
  "fst (generateSelfSigned env certPath keyPath days cn) \<longleftrightarrow>
     ce_ctx env \<and> ce_keygen_init env \<and> ce_bits env \<and> ce_keygen env \<and> ce_x509 env \<and> ce_sign env
     \<and> ce_open env (c_str keyPath) \<and> ce_write_key env \<and> ce_open env (c_str certPath) \<and> ce_write_cert env"
  by (simp add: generateSelfSigned_def cert_defs)

lemma generateSelfSigned_extension:
  "AddExtension san \<in> set (snd (generateSelfSigned env certPath keyPath days cn)) \<longleftrightarrow>
     san = c_str (san_text cn) \<and> ce_extension env san \<and> ce_unchecked env (AddExtension san)
     \<and> ce_ctx env \<and> ce_keygen_init env \<and> ce_bits env \<and> ce_keygen env \<and> ce_x509 env"
proof -
  let ?s0 = "\<lparr>cs_ctx = False, cs_x509 = False, cs_pkey = False, cs_events = []\<rparr>"
  let ?ext = "\<lambda>r :: bool \<times> cert_state. AddExtension san \<in> set (cs_events (snd r))"
  have key: "?ext (generate_key env s) = ?ext (True, s)" for s
    by (simp add: generate_key_def emit_def Let_def)
  have wk: "?ext (write_key env path s) = ?ext (True, s)" and wc: "?ext (write_cert env path s) = ?ext (True, s)" for path s
    by (simp_all add: write_key_def write_cert_def close_file_def emit_def Let_def)
  have build: "?ext (build_certificate env days cn s) \<longleftrightarrow>
      ?ext (True, s) \<or> (san = c_str (san_text cn) \<and> ce_extension env san \<and> ce_unchecked env (AddExtension san) \<and> ce_x509 env)" for s
    by (auto simp: build_certificate_def emit_def Let_def split: if_splits)
  have step: "?ext (then_step r f) \<longleftrightarrow> (if fst r then ?ext (f (snd r)) else ?ext r)" for r f
    by (cases r) (simp add: then_step_def)
  have skip: "?ext (then_step r f) = ?ext r" if "\<And>s. ?ext (f s) = ?ext (True, s)" for r f
    by (simp add: step that)
  have "?ext (then_step (generate_key env ?s0) (build_certificate env days cn)) \<longleftrightarrow>
     fst (generate_key env ?s0) \<and> san = c_str (san_text cn) \<and> ce_extension env san \<and> ce_unchecked env (AddExtension san) \<and> ce_x509 env"
    using key [of ?s0] build [of "snd (generate_key env ?s0)"] by (simp add: step)
  moreover have "fst (generate_key env ?s0) \<longleftrightarrow> ce_ctx env \<and> ce_keygen_init env \<and> ce_bits env \<and> ce_keygen env"
    by (simp add: generate_key_def Let_def)
  moreover have "AddExtension san \<in> set (snd (cleanup r)) \<longleftrightarrow> ?ext r" for r
    by (cases r) (auto simp: cleanup_def)
  ultimately show ?thesis
    unfolding generateSelfSigned_def by (simp add: skip wk wc emit_def) blast
qed

text \<open>Everything that happens when the function returns true.\<close>

lemma generateSelfSigned_events:
  assumes "fst (generateSelfSigned env certPath keyPath days cn)"
  shows "snd (generateSelfSigned env certPath keyPath days cn) =
    [Acquire KeyCtx, Acquire Key, Release KeyCtx, Acquire Cert]
    @ map (attempt env) [SetSerial 1, SetVersion 2, ValidSeconds 0, ValidSeconds (days * 86400), SetKey,
        SetName ''CN'' (c_str cn), SetName ''O'' ''AlkaidLab'', SetIssuer]
    @ (if ce_extension env (c_str (san_text cn))
       then [Acquire Extension, attempt env (AddExtension (c_str (san_text cn))), Release Extension] else [])
    @ [Sign, Acquire (File (c_str keyPath)), WriteKey (c_str keyPath)] @ close_file env (c_str keyPath)
    @ [attempt env (Chmod (c_str keyPath) 384), Acquire (File (c_str certPath)), WriteCert (c_str certPath)]
    @ close_file env (c_str certPath)
    @ [LogText (''[cert] self-signed certificate generated: '' @ certPath @ '' + '' @ keyPath
         @ '' (valid '' @ dec_int days @ '' days)''), Release Cert, Release Key]"
  using assms [unfolded generateSelfSigned_ok]
  by (simp add: generateSelfSigned_def cert_defs del: attempt_eq)

text \<open>The calls whose failure goes unnoticed, besides that of the extension.\<close>

definition unchecked_calls :: "string \<Rightarrow> string \<Rightarrow> int \<Rightarrow> string \<Rightarrow> cert_event set" where
  "unchecked_calls certPath keyPath days cn =
     {SetSerial 1, SetVersion 2, ValidSeconds 0, ValidSeconds (days * 86400), SetKey, SetName ''CN'' (c_str cn),
      SetName ''O'' ''AlkaidLab'', SetIssuer, Flush (c_str keyPath), Chmod (c_str keyPath) 384, Flush (c_str certPath)}"

lemma attempted_iff:
  "(\<And>e. call \<noteq> Failed e) \<Longrightarrow> call \<in> set (map (attempt env) calls) \<longleftrightarrow> call \<in> set calls \<and> ce_unchecked env call"
  by (induction calls) auto

lemma unchecked_call_happens:
  assumes ok: "fst (generateSelfSigned env certPath keyPath days cn)" and call: "call \<in> unchecked_calls certPath keyPath days cn"
  shows "call \<in> set (snd (generateSelfSigned env certPath keyPath days cn)) \<longleftrightarrow> ce_unchecked env call"
proof -
  let ?fields = "[SetSerial 1, SetVersion 2, ValidSeconds 0, ValidSeconds (days * 86400), SetKey,
        SetName ''CN'' (c_str cn), SetName ''O'' ''AlkaidLab'', SetIssuer]"
  let ?files = "[Flush (c_str keyPath), Chmod (c_str keyPath) 384, Flush (c_str certPath)]"
  have other: "call \<noteq> Failed e \<and> call \<noteq> Acquire r \<and> call \<noteq> Release r \<and> call \<noteq> Sign \<and> call \<noteq> WriteKey f
      \<and> call \<noteq> WriteCert f \<and> call \<noteq> LogText f \<and> call \<noteq> AddExtension f" for e r f
    using call by (auto simp: unchecked_calls_def)
  have ext: "call \<noteq> attempt env (AddExtension t)" for t
    using other by (simp add: attempt_def)
  have happens: "call \<in> set (map (attempt env) calls) \<longleftrightarrow> call \<in> set calls \<and> ce_unchecked env call" for calls
    by (rule attempted_iff) (simp add: other)
  have "call \<in> set (snd (generateSelfSigned env certPath keyPath days cn))
      \<longleftrightarrow> call \<in> set (map (attempt env) ?fields) \<or> call \<in> set (map (attempt env) ?files)"
    unfolding generateSelfSigned_events [OF ok] close_file_def
    by (simp add: other ext del: attempt_eq)
  also have "\<dots> \<longleftrightarrow> call \<in> set (?fields @ ?files) \<and> ce_unchecked env call"
    by (simp only: happens set_append Un_iff) blast
  also have "call \<in> set (?fields @ ?files) \<longleftrightarrow> True"
    using call by (simp add: unchecked_calls_def)
  finally show ?thesis by simp
qed

text \<open>
  C25: Whichever call fails, everything the function has acquired is given back exactly once and each file is
  written only while it is open.  It returns true exactly if the calls whose results it looks at succeed:
  the three set-ups and the generation of the key, the allocation of the certificate, the signature, and
  opening and writing the two files.  The other calls do not matter for the result: the certificate has the
  alternative names only if OpenSSL accepted their text and added them, and on success each of the calls
  that set its fields and its public key, that write the buffered rest of the two files, and that restrict
  the key file to its owner has happened only if it worked on its own.
\<close>

theorem generateSelfSigned_cleans_up:
  "held (snd (generateSelfSigned env certPath keyPath days cn)) [] = Some []
   \<and> (fst (generateSelfSigned env certPath keyPath days cn) \<longleftrightarrow>
        ce_ctx env \<and> ce_keygen_init env \<and> ce_bits env \<and> ce_keygen env \<and> ce_x509 env \<and> ce_sign env
        \<and> ce_open env (c_str keyPath) \<and> ce_write_key env \<and> ce_open env (c_str certPath) \<and> ce_write_cert env)
   \<and> (AddExtension san \<in> set (snd (generateSelfSigned env certPath keyPath days cn)) \<longleftrightarrow>
        san = c_str (san_text cn) \<and> ce_extension env san \<and> ce_unchecked env (AddExtension san)
        \<and> ce_ctx env \<and> ce_keygen_init env \<and> ce_bits env \<and> ce_keygen env \<and> ce_x509 env)
   \<and> (fst (generateSelfSigned env certPath keyPath days cn) \<and> call \<in> unchecked_calls certPath keyPath days cn \<longrightarrow>
        (call \<in> set (snd (generateSelfSigned env certPath keyPath days cn)) \<longleftrightarrow> ce_unchecked env call))"
proof -
  have "call \<in> set (snd (generateSelfSigned env certPath keyPath days cn)) \<longleftrightarrow> ce_unchecked env call"
    if ok: "fst (generateSelfSigned env certPath keyPath days cn)" and call: "call \<in> unchecked_calls certPath keyPath days cn"
    using ok call by (rule unchecked_call_happens)
  then show ?thesis
    using generateSelfSigned_releases generateSelfSigned_ok generateSelfSigned_extension by blast
qed

lemma generateSelfSigned_cleans_up_witness:
  "let env = \<lparr>ce_ctx = True, ce_keygen_init = True, ce_bits = True, ce_keygen = True, ce_x509 = True, ce_extension = (\<lambda>_. True),
       ce_sign = True, ce_open = (\<lambda>_. True), ce_write_key = True, ce_write_cert = True,
       ce_unchecked = (\<lambda>call. call \<noteq> Chmod ''key'' 384)\<rparr>;
     r = generateSelfSigned env ''cert'' ''key'' 30 ''host''
   in fst r \<and> Chmod ''key'' 384 \<notin> set (snd r)"
proof -
  let ?env = "\<lparr>ce_ctx = True, ce_keygen_init = True, ce_bits = True, ce_keygen = True, ce_x509 = True, ce_extension = (\<lambda>_. True),
       ce_sign = True, ce_open = (\<lambda>_. True), ce_write_key = True, ce_write_cert = True,
       ce_unchecked = (\<lambda>call. call \<noteq> Chmod ''key'' 384)\<rparr>"
  have "c_str ''key'' = ''key''" by (simp add: c_str_def byte_def)
  then have "Chmod ''key'' 384 \<in> unchecked_calls ''cert'' ''key'' 30 ''host''" by (simp add: unchecked_calls_def)
  then show ?thesis
    using generateSelfSigned_cleans_up [of ?env "''cert''" "''key''" 30 "''host''" "[]" "Chmod ''key'' 384"]
    by (simp add: Let_def)
qed

theorem readCertInfo_cleans_up: "held (snd (snd (readCertInfo certs bio_new certPath info))) [] = Some []"
  by (auto simp: readCertInfo_def split: option.splits)

text \<open>A number with dots that is not an address, such as a version, is asked for as an address.\<close>

lemma san_text_version: "san_text ''1.2.3'' = ''IP:1.2.3,'' @ loopback_names"
  by (simp add: san_text_def find_char_def find_from_def is_digit_def byte_def)

end
