(* ===== verification/Logger.thy ===== *)
theory Logger imports Prelude begin

text \<open>
  The logger (\<open>src/src/Logger.cpp\<close>) and the set-up of the library's own log (\<open>src/src/LogConfig.cpp\<close>).  A
  logger of spdlog is the list of its sinks with its level; it hands a message to every sink exactly if the
  level of the message is not below its own, and flushes them if it is not below the level of \<open>flush_on\<close>.
  What the sinks receive is the list \<open>lo_written\<close>; a sink that is closed is flushed.  Whether the
  constructor of a sink throws, and what \<open>vsnprintf\<close> prints, are parameters.
\<close>

section \<open>Levels\<close>

datatype LogLevel = TRACE | DEBUG | INFO | WARN | ERROR

fun level_value :: "LogLevel \<Rightarrow> nat" where
  "level_value TRACE = 0"
| "level_value DEBUG = 1"
| "level_value INFO = 2"
| "level_value WARN = 3"
| "level_value ERROR = 4"

lemma level_value_inject: "level_value a = level_value b \<longleftrightarrow> a = b"
  by (cases a; cases b) simp_all

instantiation LogLevel :: linorder
begin

definition less_eq_LogLevel :: "LogLevel \<Rightarrow> LogLevel \<Rightarrow> bool" where
  "less_eq_LogLevel a b \<longleftrightarrow> level_value a \<le> level_value b"

definition less_LogLevel :: "LogLevel \<Rightarrow> LogLevel \<Rightarrow> bool" where
  "less_LogLevel a b \<longleftrightarrow> level_value a < level_value b"

instance
  by standard (auto simp: less_eq_LogLevel_def less_LogLevel_def level_value_inject [symmetric])

end

datatype spd_level = spd_trace | spd_debug | spd_info | spd_warn | spd_err | spd_critical | spd_off

fun spd_value :: "spd_level \<Rightarrow> nat" where
  "spd_value spd_trace = 0"
| "spd_value spd_debug = 1"
| "spd_value spd_info = 2"
| "spd_value spd_warn = 3"
| "spd_value spd_err = 4"
| "spd_value spd_critical = 5"
| "spd_value spd_off = 6"

fun toSpdlogLevel :: "LogLevel \<Rightarrow> spd_level" where
  "toSpdlogLevel TRACE = spd_trace"
| "toSpdlogLevel DEBUG = spd_debug"
| "toSpdlogLevel INFO = spd_info"
| "toSpdlogLevel WARN = spd_warn"
| "toSpdlogLevel ERROR = spd_err"

fun fromSpdlogLevel :: "spd_level \<Rightarrow> LogLevel" where
  "fromSpdlogLevel spd_trace = TRACE"
| "fromSpdlogLevel spd_debug = DEBUG"
| "fromSpdlogLevel spd_info = INFO"
| "fromSpdlogLevel spd_warn = WARN"
| "fromSpdlogLevel spd_err = ERROR"
| "fromSpdlogLevel spd_critical = ERROR"
| "fromSpdlogLevel spd_off = ERROR"

lemma spd_value_level: "spd_value (toSpdlogLevel l) = level_value l"
  by (cases l) simp_all

lemma fromSpdlogLevel_inverse: "fromSpdlogLevel (toSpdlogLevel l) = l"
  by (cases l) simp_all

section \<open>The logger\<close>

datatype sink = ConsoleSink | FileSink string size_t size_t

record spd_logger =
  sl_sinks :: "sink list"
  sl_level :: spd_level
  sl_flush_on :: spd_level

record Logger =
  lo_logger :: "spd_logger option"
  lo_level :: LogLevel
  lo_logFile :: string
  lo_consoleEnabled :: bool
  lo_maxFileSize :: size_t
  lo_maxFiles :: size_t
  lo_written :: "(sink \<times> LogLevel \<times> string) list"
  lo_flushed :: nat                     \<comment> \<open>how many of them no sink holds back any more\<close>

text \<open>\<open>opens\<close>: the sink can be made, its constructor does not throw.\<close>

definition configured_sinks :: "Logger \<Rightarrow> sink list" where
  "configured_sinks lo =
     (if lo_consoleEnabled lo then [ConsoleSink] else [])
     @ (if lo_logFile lo \<noteq> [] then [FileSink (lo_logFile lo) (lo_maxFileSize lo) (lo_maxFiles lo)] else [])"

definition recreateLogger :: "(sink \<Rightarrow> bool) \<Rightarrow> Logger \<Rightarrow> Logger" where
  "recreateLogger opens lo =
     (if list_all opens (configured_sinks lo)
      then lo\<lparr>lo_logger := Some \<lparr>sl_sinks = configured_sinks lo, sl_level = toSpdlogLevel (lo_level lo), sl_flush_on = spd_warn\<rparr>,
              lo_flushed := length (lo_written lo)\<rparr>
      else lo)"

definition Logger_ctor :: "(sink \<Rightarrow> bool) \<Rightarrow> Logger" where
  "Logger_ctor opens =
     recreateLogger opens
       \<lparr>lo_logger = None, lo_level = INFO, lo_logFile = [], lo_consoleEnabled = False,
         lo_maxFileSize = 104857600, lo_maxFiles = 5, lo_written = [], lo_flushed = 0\<rparr>"

definition setConsoleEnabled :: "(sink \<Rightarrow> bool) \<Rightarrow> bool \<Rightarrow> Logger \<Rightarrow> Logger" where
  "setConsoleEnabled opens enabled lo = recreateLogger opens (lo\<lparr>lo_consoleEnabled := enabled\<rparr>)"

definition setLevel :: "LogLevel \<Rightarrow> Logger \<Rightarrow> Logger" where
  "setLevel level lo =
     lo\<lparr>lo_level := level, lo_logger := map_option (\<lambda>l. l\<lparr>sl_level := toSpdlogLevel level\<rparr>) (lo_logger lo)\<rparr>"

definition getLevel :: "Logger \<Rightarrow> LogLevel" where
  "getLevel lo = lo_level lo"

definition setLogFile :: "(sink \<Rightarrow> bool) \<Rightarrow> string \<Rightarrow> size_t \<Rightarrow> size_t \<Rightarrow> Logger \<Rightarrow> Logger" where
  "setLogFile opens logDir maxFileSize maxFiles lo =
     (if logDir = [] then recreateLogger opens (lo\<lparr>lo_logFile := []\<rparr>)
      else recreateLogger opens (lo\<lparr>lo_maxFileSize := maxFileSize, lo_maxFiles := maxFiles,
             lo_logFile := logDir @ ''/error.log''\<rparr>))"

definition Logger_log :: "LogLevel \<Rightarrow> string \<Rightarrow> Logger \<Rightarrow> Logger" where
  "Logger_log level message lo =
     (if level < lo_level lo then lo
      else case lo_logger lo of
             None \<Rightarrow> lo
           | Some l \<Rightarrow>
               if spd_value (sl_level l) \<le> spd_value (toSpdlogLevel level)
               then
                 (let written = lo_written lo @ map (\<lambda>snk. (snk, level, message)) (sl_sinks l)
                  in lo\<lparr>lo_written := written,
                        lo_flushed := (if spd_value (sl_flush_on l) \<le> spd_value (toSpdlogLevel level)
                                       then length written else lo_flushed lo)\<rparr>)
               else lo)"

definition Logger_flush :: "Logger \<Rightarrow> Logger" where
  "Logger_flush lo = (case lo_logger lo of None \<Rightarrow> lo | Some l \<Rightarrow> lo\<lparr>lo_flushed := length (lo_written lo)\<rparr>)"

text \<open>The destructor flushes what is left.\<close>

definition Logger_dtor :: "Logger \<Rightarrow> Logger" where
  "Logger_dtor lo = (case lo_logger lo of None \<Rightarrow> lo | Some l \<Rightarrow> lo\<lparr>lo_flushed := length (lo_written lo)\<rparr>)"

definition Logger_trace :: "string \<Rightarrow> Logger \<Rightarrow> Logger" where "Logger_trace = Logger_log TRACE"
definition Logger_debug :: "string \<Rightarrow> Logger \<Rightarrow> Logger" where "Logger_debug = Logger_log DEBUG"
definition Logger_info :: "string \<Rightarrow> Logger \<Rightarrow> Logger" where "Logger_info = Logger_log INFO"
definition Logger_warn :: "string \<Rightarrow> Logger \<Rightarrow> Logger" where "Logger_warn = Logger_log WARN"
definition Logger_error :: "string \<Rightarrow> Logger \<Rightarrow> Logger" where "Logger_error = Logger_log ERROR"

text \<open>The formatted variants: \<open>vsnprintf\<close> keeps 4095 bytes of what it prints.\<close>

definition format_buffer :: "string \<Rightarrow> string" where
  "format_buffer printed = c_str (take 4095 printed)"

definition log_formatted :: "LogLevel \<Rightarrow> string \<Rightarrow> Logger \<Rightarrow> Logger" where
  "log_formatted level printed lo =
     (if level < lo_level lo \<or> lo_logger lo = None then lo else Logger_log level (format_buffer printed) lo)"

definition Logger_tracef :: "string \<Rightarrow> Logger \<Rightarrow> Logger" where "Logger_tracef = log_formatted TRACE"
definition Logger_debugf :: "string \<Rightarrow> Logger \<Rightarrow> Logger" where "Logger_debugf = log_formatted DEBUG"
definition Logger_infof :: "string \<Rightarrow> Logger \<Rightarrow> Logger" where "Logger_infof = log_formatted INFO"
definition Logger_warnf :: "string \<Rightarrow> Logger \<Rightarrow> Logger" where "Logger_warnf = log_formatted WARN"
definition Logger_errorf :: "string \<Rightarrow> Logger \<Rightarrow> Logger" where "Logger_errorf = log_formatted ERROR"

datatype log_op =
    OpConsole "sink \<Rightarrow> bool" bool
  | OpLevel LogLevel
  | OpFile "sink \<Rightarrow> bool" string size_t size_t
  | OpLog LogLevel string
  | OpLogf LogLevel string
  | OpFlush

fun log_apply :: "log_op \<Rightarrow> Logger \<Rightarrow> Logger" where
  "log_apply (OpConsole opens enabled) lo = setConsoleEnabled opens enabled lo"
| "log_apply (OpLevel level) lo = setLevel level lo"
| "log_apply (OpFile opens dir bytes files) lo = setLogFile opens dir bytes files lo"
| "log_apply (OpLog level message) lo = Logger_log level message lo"
| "log_apply (OpLogf level printed) lo = log_formatted level printed lo"
| "log_apply OpFlush lo = Logger_flush lo"

definition log_run :: "(sink \<Rightarrow> bool) \<Rightarrow> log_op list \<Rightarrow> Logger" where
  "log_run opens ops = fold log_apply ops (Logger_ctor opens)"

section \<open>What is written\<close>

definition log_inv :: "Logger \<Rightarrow> bool" where
  "log_inv lo \<longleftrightarrow> (\<exists>l. lo_logger lo = Some l \<and> sl_level l = toSpdlogLevel (lo_level lo) \<and> sl_flush_on l = spd_warn)"

lemma log_inv_ctor: "log_inv (Logger_ctor opens)"
  by (simp add: log_inv_def Logger_ctor_def recreateLogger_def configured_sinks_def)

lemma log_inv_recreate: "log_inv lo \<Longrightarrow> log_inv (recreateLogger opens lo)"
  by (auto simp: log_inv_def recreateLogger_def)

lemma log_inv_log: "log_inv lo \<Longrightarrow> log_inv (Logger_log level message lo)"
  by (auto simp: log_inv_def Logger_log_def Let_def)

lemma log_inv_apply: "log_inv lo \<Longrightarrow> log_inv (log_apply op lo)"
  by (cases op)
    (auto simp: setConsoleEnabled_def setLogFile_def log_formatted_def setLevel_def Logger_flush_def log_inv_log
      intro!: log_inv_recreate, auto simp: log_inv_def)

lemma log_inv_run: "log_inv (log_run opens ops)"
proof -
  have "log_inv lo \<Longrightarrow> log_inv (fold log_apply ops lo)" for lo
    by (induction ops arbitrary: lo) (simp_all add: log_inv_apply)
  then show ?thesis by (simp add: log_run_def log_inv_ctor)
qed

text \<open>
  After any sequence of configuration and log calls, with sinks that fail to open at any time, a logger
  is there and its level is the configured one; so a message goes exactly once to each of its sinks if its
  level is at least the configured level, and nowhere otherwise, formatted or not, a formatted one cut
  after 4095 bytes.  An enabled warning or error leaves nothing unflushed, and neither does the destructor.
\<close>

theorem Logger_filters:
  "let lo = log_run opens ops
   in \<exists>sinks. map_option sl_sinks (lo_logger lo) = Some sinks
      \<and> lo_written (Logger_log level message lo)
          = lo_written lo @ (if getLevel lo \<le> level then map (\<lambda>snk. (snk, level, message)) sinks else [])
      \<and> log_formatted level printed lo = Logger_log level (format_buffer printed) lo
      \<and> length (format_buffer printed) \<le> 4095
      \<and> lo_flushed (Logger_log level message lo)
          = (if getLevel lo \<le> level \<and> WARN \<le> level then length (lo_written (Logger_log level message lo))
             else lo_flushed lo)
      \<and> lo_flushed (Logger_dtor lo) = length (lo_written lo)"
proof -
  let ?lo = "log_run opens ops"
  obtain l where l: "lo_logger ?lo = Some l" "sl_level l = toSpdlogLevel (lo_level ?lo)" "sl_flush_on l = spd_warn"
    using log_inv_run [of opens ops] by (auto simp: log_inv_def)
  have "length (format_buffer printed) \<le> length (take 4095 printed)"
    unfolding format_buffer_def c_str_def by (rule length_takeWhile_le)
  then have len: "length (format_buffer printed) \<le> 4095" by simp
  show ?thesis
    using l len
    by (auto simp: Let_def Logger_log_def Logger_dtor_def log_formatted_def getLevel_def spd_value_level less_eq_LogLevel_def less_LogLevel_def)
qed

section \<open>The log of the library\<close>

datatype hlog_call = HlogFile string | HlogMaxSize size_t | HlogRemainDays int | HlogLevel string

record LogConfig =
  lc_initialized :: bool
  lc_calls :: "hlog_call list"

definition hlog :: "hlog_call \<Rightarrow> LogConfig \<Rightarrow> LogConfig" where
  "hlog call s = s\<lparr>lc_calls := lc_calls s @ [call]\<rparr>"

definition LogConfig_setFile :: "string \<Rightarrow> LogConfig \<Rightarrow> LogConfig" where
  "LogConfig_setFile path = hlog (HlogFile path)"

definition LogConfig_setMaxFileSize :: "size_t \<Rightarrow> LogConfig \<Rightarrow> LogConfig" where
  "LogConfig_setMaxFileSize bytes = hlog (HlogMaxSize bytes)"

definition LogConfig_setRemainDays :: "int \<Rightarrow> LogConfig \<Rightarrow> LogConfig" where
  "LogConfig_setRemainDays days = hlog (HlogRemainDays days)"

text \<open>The library's levels, by name.\<close>

definition LogConfig_setLevel :: "int \<Rightarrow> LogConfig \<Rightarrow> LogConfig" where
  "LogConfig_setLevel level =
     hlog (HlogLevel
       (if level = 0 then ''DEBUG'' else if level = 1 then ''INFO'' else if level = 2 then ''WARN''
        else if level = 3 then ''ERROR'' else ''INFO''))"

text \<open>The answers of the file system: exists, is a directory before, the creation works, is one after.\<close>

record dir_answers =
  da_exists :: bool
  da_is_dir :: bool
  da_created :: bool
  da_is_dir_after :: bool

definition ensureDirectory :: "(string \<Rightarrow> dir_answers) \<Rightarrow> string \<Rightarrow> bool" where
  "ensureDirectory fs dir =
     (if dir = [] then False
      else if da_exists (fs dir) then da_is_dir (fs dir)
      else da_created (fs dir) \<and> da_is_dir_after (fs dir))"

definition LogConfig_initialize ::
  "(string \<Rightarrow> dir_answers) \<Rightarrow> string \<Rightarrow> size_t \<Rightarrow> int \<Rightarrow> LogConfig \<Rightarrow> bool \<times> LogConfig" where
  "LogConfig_initialize fs logDir maxFileSize remainDays s =
     (if lc_initialized s then (True, s)
      else if \<not> ensureDirectory fs logDir then (False, s)
      else (True, (LogConfig_setLevel 1
             (LogConfig_setRemainDays remainDays
               (LogConfig_setMaxFileSize maxFileSize
                 (LogConfig_setFile (c_str (logDir @ ''/fw.log'')) s))))\<lparr>lc_initialized := True\<rparr>))"

text \<open>
  Once an initialisation has succeeded, all later ones succeed and change nothing; one that fails changes
  nothing either.
\<close>

lemma LogConfig_initialize_once:
  "LogConfig_initialize fs dir bytes days s = (r, s') \<Longrightarrow>
     (r \<longleftrightarrow> lc_initialized s') \<and> (\<not> r \<longrightarrow> s' = s)
     \<and> (r \<longrightarrow> LogConfig_initialize fs2 dir2 bytes2 days2 s' = (True, s'))"
  by (auto simp: LogConfig_initialize_def hlog_def LogConfig_setFile_def LogConfig_setMaxFileSize_def
      LogConfig_setRemainDays_def LogConfig_setLevel_def split: if_splits)

end
