(* ===== verification/Base64.thy ===== *)
theory Base64 imports Prelude begin

text \<open>
  The guards around the library's codec (\<open>src/src/Base64.cpp\<close>).  The codec of libhv is a parameter; it is
  called with the length cast to \<open>unsigned int\<close>, so it sees only that many of the bytes.
\<close>

definition hv_len :: "nat \<Rightarrow> nat" where
  "hv_len len = len mod 2 ^ 32"

text \<open>\<open>None\<close> is a null pointer; the text holds at least \<open>len\<close> bytes.\<close>

definition encode_ptr :: "(string \<Rightarrow> string) \<Rightarrow> string option \<Rightarrow> nat \<Rightarrow> string" where
  "encode_ptr hv_encode data len =
     (case data of None \<Rightarrow> [] | Some bytes \<Rightarrow> if len = 0 then [] else hv_encode (take (hv_len len) bytes))"

definition decode_ptr :: "(string \<Rightarrow> string) \<Rightarrow> string option \<Rightarrow> nat \<Rightarrow> string" where
  "decode_ptr hv_decode data len =
     (case data of None \<Rightarrow> [] | Some chars \<Rightarrow> if len = 0 then [] else hv_decode (take (hv_len len) chars))"

definition encode_string :: "(string \<Rightarrow> string) \<Rightarrow> string \<Rightarrow> string" where
  "encode_string hv_encode data = (if data = [] then [] else encode_ptr hv_encode (Some data) (length data))"

definition decode_string :: "(string \<Rightarrow> string) \<Rightarrow> string \<Rightarrow> string" where
  "decode_string hv_decode encoded = (if encoded = [] then [] else decode_ptr hv_decode (Some encoded) (length encoded))"

definition encode_vector :: "(string \<Rightarrow> string) \<Rightarrow> string \<Rightarrow> string" where
  "encode_vector hv_encode data = (if data = [] then [] else encode_ptr hv_encode (Some data) (length data))"

text \<open>
  Below 4 GB the guards change nothing of what the library promises: a codec whose decoder inverts its
  encoder stays one, also for the empty string, for which the library is not called.
\<close>

theorem Base64_keeps_round_trip:
  assumes "\<And>data. hv_decode (hv_encode data) = data" and "\<And>data. data \<noteq> [] \<Longrightarrow> hv_encode data \<noteq> []"
    and "length data < 2 ^ 32" and "length (hv_encode data) < 2 ^ 32"
  shows "decode_string hv_decode (encode_string hv_encode data) = data"
  using assms by (auto simp: decode_string_def encode_string_def decode_ptr_def encode_ptr_def hv_len_def)

end
