(* ===== verification/IniConfig.thy ===== *)
theory IniConfig imports Prelude begin

text \<open>
  \<open>IniConfig\<close> (\<open>src/src/IniConfig.cpp\<close>): a facade over the \<open>IniParser\<close> of libhv, behind an opaque pointer.
  The parser is not part of the repository: its state is the type \<open>'p\<close> and its calls are the record
  \<open>ini_parser\<close>, an argument of every operation.  \<open>'f\<close> stands for \<open>float\<close>; a \<open>std::list\<close> is a list.
\<close>

section \<open>The parser of the library\<close>

record ('p, 'f) ini_parser =
  ip_new :: 'p
  ip_LoadFromFile :: "string \<Rightarrow> 'p \<Rightarrow> int \<times> 'p"
  ip_LoadFromMem :: "string \<Rightarrow> 'p \<Rightarrow> int \<times> 'p"
  ip_Save :: "'p \<Rightarrow> int \<times> 'p"
  ip_SaveAs :: "string \<Rightarrow> 'p \<Rightarrow> int \<times> 'p"
  ip_Unload :: "'p \<Rightarrow> 'p"
  ip_GetValue :: "string \<Rightarrow> string \<Rightarrow> 'p \<Rightarrow> string"         \<comment> \<open>key, section\<close>
  ip_Get_int :: "string \<Rightarrow> string \<Rightarrow> int \<Rightarrow> 'p \<Rightarrow> int"     \<comment> \<open>key, section, default\<close>
  ip_Get_bool :: "string \<Rightarrow> string \<Rightarrow> bool \<Rightarrow> 'p \<Rightarrow> bool"
  ip_Get_float :: "string \<Rightarrow> string \<Rightarrow> 'f \<Rightarrow> 'p \<Rightarrow> 'f"
  ip_SetValue :: "string \<Rightarrow> string \<Rightarrow> string \<Rightarrow> 'p \<Rightarrow> 'p"   \<comment> \<open>key, value, section\<close>
  ip_Set_int :: "string \<Rightarrow> int \<Rightarrow> string \<Rightarrow> 'p \<Rightarrow> 'p"
  ip_Set_bool :: "string \<Rightarrow> bool \<Rightarrow> string \<Rightarrow> 'p \<Rightarrow> 'p"
  ip_Set_float :: "string \<Rightarrow> 'f \<Rightarrow> string \<Rightarrow> 'p \<Rightarrow> 'p"
  ip_GetSections :: "'p \<Rightarrow> string list"
  ip_GetKeys :: "string \<Rightarrow> 'p \<Rightarrow> string list"

section \<open>The facade\<close>

record 'p IniConfig =
  ic_impl :: 'p

definition IniConfig_ctor :: "('p, 'f) ini_parser \<Rightarrow> 'p IniConfig" where
  "IniConfig_ctor lib = \<lparr>ic_impl = ip_new lib\<rparr>"

text \<open>A call that reports \<open>0\<close> for success.\<close>

definition ini_ok :: "('p \<Rightarrow> int \<times> 'p) \<Rightarrow> 'p IniConfig \<Rightarrow> bool \<times> 'p IniConfig" where
  "ini_ok call c = (case call (ic_impl c) of (ret, p) \<Rightarrow> (ret = 0, c\<lparr>ic_impl := p\<rparr>))"

definition IniConfig_loadFromFile :: "('p, 'f) ini_parser \<Rightarrow> string \<Rightarrow> 'p IniConfig \<Rightarrow> bool \<times> 'p IniConfig" where
  "IniConfig_loadFromFile lib filename = ini_ok (ip_LoadFromFile lib (c_str filename))"

definition IniConfig_loadFromMem :: "('p, 'f) ini_parser \<Rightarrow> string \<Rightarrow> 'p IniConfig \<Rightarrow> bool \<times> 'p IniConfig" where
  "IniConfig_loadFromMem lib content = ini_ok (ip_LoadFromMem lib (c_str content))"

definition IniConfig_save :: "('p, 'f) ini_parser \<Rightarrow> 'p IniConfig \<Rightarrow> bool \<times> 'p IniConfig" where
  "IniConfig_save lib = ini_ok (ip_Save lib)"

definition IniConfig_saveAs :: "('p, 'f) ini_parser \<Rightarrow> string \<Rightarrow> 'p IniConfig \<Rightarrow> bool \<times> 'p IniConfig" where
  "IniConfig_saveAs lib filename = ini_ok (ip_SaveAs lib (c_str filename))"

definition IniConfig_unload :: "('p, 'f) ini_parser \<Rightarrow> 'p IniConfig \<Rightarrow> 'p IniConfig" where
  "IniConfig_unload lib c = c\<lparr>ic_impl := ip_Unload lib (ic_impl c)\<rparr>"

definition IniConfig_getString :: "('p, 'f) ini_parser \<Rightarrow> string \<Rightarrow> string \<Rightarrow> 'p IniConfig \<Rightarrow> string" where
  "IniConfig_getString lib key sec c = ip_GetValue lib (c_str key) (c_str sec) (ic_impl c)"

definition IniConfig_getInt :: "('p, 'f) ini_parser \<Rightarrow> string \<Rightarrow> string \<Rightarrow> int \<Rightarrow> 'p IniConfig \<Rightarrow> int" where
  "IniConfig_getInt lib key sec def c = ip_Get_int lib (c_str key) (c_str sec) def (ic_impl c)"

definition IniConfig_getBool :: "('p, 'f) ini_parser \<Rightarrow> string \<Rightarrow> string \<Rightarrow> bool \<Rightarrow> 'p IniConfig \<Rightarrow> bool" where
  "IniConfig_getBool lib key sec def c = ip_Get_bool lib (c_str key) (c_str sec) def (ic_impl c)"

definition IniConfig_getFloat :: "('p, 'f) ini_parser \<Rightarrow> string \<Rightarrow> string \<Rightarrow> 'f \<Rightarrow> 'p IniConfig \<Rightarrow> 'f" where
  "IniConfig_getFloat lib key sec def c = ip_Get_float lib (c_str key) (c_str sec) def (ic_impl c)"

definition IniConfig_setString :: "('p, 'f) ini_parser \<Rightarrow> string \<Rightarrow> string \<Rightarrow> string \<Rightarrow> 'p IniConfig \<Rightarrow> 'p IniConfig" where
  "IniConfig_setString lib key val sec c = c\<lparr>ic_impl := ip_SetValue lib (c_str key) val (c_str sec) (ic_impl c)\<rparr>"

definition IniConfig_setInt :: "('p, 'f) ini_parser \<Rightarrow> string \<Rightarrow> int \<Rightarrow> string \<Rightarrow> 'p IniConfig \<Rightarrow> 'p IniConfig" where
  "IniConfig_setInt lib key val sec c = c\<lparr>ic_impl := ip_Set_int lib (c_str key) val (c_str sec) (ic_impl c)\<rparr>"

definition IniConfig_setBool :: "('p, 'f) ini_parser \<Rightarrow> string \<Rightarrow> bool \<Rightarrow> string \<Rightarrow> 'p IniConfig \<Rightarrow> 'p IniConfig" where
  "IniConfig_setBool lib key val sec c = c\<lparr>ic_impl := ip_Set_bool lib (c_str key) val (c_str sec) (ic_impl c)\<rparr>"

definition IniConfig_setFloat :: "('p, 'f) ini_parser \<Rightarrow> string \<Rightarrow> 'f \<Rightarrow> string \<Rightarrow> 'p IniConfig \<Rightarrow> 'p IniConfig" where
  "IniConfig_setFloat lib key val sec c = c\<lparr>ic_impl := ip_Set_float lib (c_str key) val (c_str sec) (ic_impl c)\<rparr>"

definition IniConfig_sections :: "('p, 'f) ini_parser \<Rightarrow> 'p IniConfig \<Rightarrow> string list" where
  "IniConfig_sections lib c = ip_GetSections lib (ic_impl c)"

definition IniConfig_keys :: "('p, 'f) ini_parser \<Rightarrow> string \<Rightarrow> 'p IniConfig \<Rightarrow> string list" where
  "IniConfig_keys lib sec c = ip_GetKeys lib (c_str sec) (ic_impl c)"

section \<open>Settings are kept\<close>

text \<open>
  Over a parser whose \<open>SetValue\<close> changes the value of its own key and section only, a sequence of
  \<open>setString\<close> calls behaves as a map from section and key to the text written last.
\<close>

definition ini_writes :: "('p, 'f) ini_parser \<Rightarrow> (string \<times> string \<times> string) list \<Rightarrow> 'p IniConfig \<Rightarrow> 'p IniConfig" where
  "ini_writes lib ws c = foldl (\<lambda>c (key, val, sec). IniConfig_setString lib key val sec c) c ws"

lemma ini_last_write:
  assumes "\<And>k v s k' s' p. ip_GetValue lib k' s' (ip_SetValue lib k v s p) = (if k' = k \<and> s' = s then v else ip_GetValue lib k' s' p)"
  shows "IniConfig_getString lib key sec (ini_writes lib ws c)
    = (case find (\<lambda>(k, v, s). c_str k = c_str key \<and> c_str s = c_str sec) (rev ws) of
         Some (k, v, s) \<Rightarrow> v | None \<Rightarrow> IniConfig_getString lib key sec c)"
proof (induction ws rule: rev_induct)
  case Nil
  then show ?case by (simp add: ini_writes_def)
next
  case (snoc w ws)
  then show ?case
    by (cases w) (auto simp: ini_writes_def IniConfig_getString_def IniConfig_setString_def assms)
qed

end
