(* ===== verification/HttpConstants.thy ===== *)
theory HttpConstants imports Prelude begin

text \<open>
  The constants of \<open>include/intertwine/fw/HttpConstants.hpp\<close>, and the checks of \<open>src/src/HttpConstants.cpp\<close>,
  which the compiler makes: each \<open>static_assert\<close> compares one constant with the enumeration of libhv, which
  is an argument (a function from the names of libhv to their values).
\<close>

definition HttpStatus :: "(string \<times> int) list" where
  "HttpStatus =
     [(''Next'', 0), (''Close'', -100), (''Ok'', 200), (''NoContent'', 204), (''PartialContent'', 206),
      (''BadRequest'', 400), (''Unauthorized'', 401), (''Forbidden'', 403), (''NotFound'', 404),
      (''PayloadTooLarge'', 413), (''PreconditionFailed'', 412), (''NotModified'', 304),
      (''TooManyRequests'', 429), (''InternalError'', 500)]"

definition HttpMethod :: "(string \<times> int) list" where
  "HttpMethod =
     [(''DELETE_'', 0), (''GET'', 1), (''HEAD'', 2), (''POST'', 3), (''PUT'', 4), (''CONNECT'', 5),
      (''OPTIONS'', 6), (''TRACE'', 7), (''PATCH'', 28), (''COPY'', 8), (''LOCK'', 9), (''MKCOL'', 10),
      (''MOVE'', 11), (''PROPFIND'', 12), (''PROPPATCH'', 13), (''UNLOCK'', 15)]"

text \<open>The pairs of names that are compared.\<close>

definition checked_status :: "(string \<times> string) list" where
  "checked_status =
     [(''Close'', ''HTTP_STATUS_CLOSE''), (''Ok'', ''HTTP_STATUS_OK''), (''NoContent'', ''HTTP_STATUS_NO_CONTENT''),
      (''BadRequest'', ''HTTP_STATUS_BAD_REQUEST''), (''Unauthorized'', ''HTTP_STATUS_UNAUTHORIZED''),
      (''Forbidden'', ''HTTP_STATUS_FORBIDDEN''), (''NotFound'', ''HTTP_STATUS_NOT_FOUND''),
      (''TooManyRequests'', ''HTTP_STATUS_TOO_MANY_REQUESTS''), (''InternalError'', ''HTTP_STATUS_INTERNAL_SERVER_ERROR'')]"

definition checked_method :: "(string \<times> string) list" where
  "checked_method =
     [(''DELETE_'', ''HTTP_DELETE''), (''GET'', ''HTTP_GET''), (''HEAD'', ''HTTP_HEAD''), (''POST'', ''HTTP_POST''),
      (''PUT'', ''HTTP_PUT''), (''CONNECT'', ''HTTP_CONNECT''), (''OPTIONS'', ''HTTP_OPTIONS''),
      (''TRACE'', ''HTTP_TRACE''), (''PATCH'', ''HTTP_PATCH'')]"

definition asserts_hold :: "(string \<Rightarrow> int) \<Rightarrow> bool" where
  "asserts_hold hv \<longleftrightarrow> list_all (\<lambda>(fw, lib). map_of HttpStatus fw = Some (hv lib)) checked_status
     \<and> list_all (\<lambda>(fw, lib). map_of HttpMethod fw = Some (hv lib)) checked_method"

text \<open>No two constants coincide, and the value for closing the connection is the only negative one.\<close>

lemma constants_distinct:
  "distinct (map snd HttpStatus)" "distinct (map snd HttpMethod)"
  "(name, n) \<in> set HttpStatus \<Longrightarrow> n < 0 \<longleftrightarrow> name = ''Close''"
  by (auto simp: HttpStatus_def HttpMethod_def)

text \<open>
  If the checks hold, the method numbers of libhv that the framework knows are told apart by their
  values, so that a comparison with a constant of the framework selects one method of libhv.
\<close>

lemma checked_methods_distinct:
  "asserts_hold hv \<Longrightarrow> distinct (map (\<lambda>(fw, lib). hv lib) checked_method)"
  by (auto simp: asserts_hold_def HttpMethod_def checked_method_def)

end
