(* ===== verification/Download.thy ===== *)
theory Download imports Router StreamTransfer begin

text \<open>
  How the router, the middleware chain and the event-driven file transfer share one response: a route whose
  handler serves a file, seen from the router's task (\<open>makeAsyncHandler\<close> in src/src/Router.cpp), which ends a
  response unless the handler has handed it over, and from the transfer, which ends it later on the loop.
\<close>

section \<open>Downloads: router, middleware and file transfer together\<close>

text \<open>A handler that answers a request with a file, by the event-driven strategy.\<close>

definition download_handler ::
  "file_system \<Rightarrow> stream_env \<Rightarrow> bool \<Rightarrow> bool \<Rightarrow> TransferStats \<Rightarrow> TransferParams \<Rightarrow> 'w Handler" where
  "download_handler files env seek posts stats p c = (Inr (), fst (StreamTransfer_send files env seek posts stats p c))"

text \<open>What decides whether the router ends a response: the writer and the handover flag.\<close>

definition seen :: "'w Context \<Rightarrow> writer option \<times> bool" where
  "seen c = (cx_writer c, cx_streamingHandoff c)"

text \<open>A middleware that always goes on, passes an exception on, and leaves both alone.\<close>

definition transparent :: "'w Context middleware_fn \<Rightarrow> bool" where
  "transparent f \<longleftrightarrow> (\<forall>next c. \<exists>c1. seen c1 = seen c \<and> seen (snd (f next c)) = seen (snd (next c1))
     \<and> (isl (fst (f next c)) \<longleftrightarrow> isl (fst (next c1))))"

lemma chain_transparent:
  assumes "\<forall>e\<in>set chain. transparent (en_fn e)"
  shows "\<exists>c1. seen c1 = seen c \<and> seen (snd (chain_execute chain k c)) = seen (snd (k c1))
    \<and> (isl (fst (chain_execute chain k c)) \<longleftrightarrow> isl (fst (k c1)))"
  using assms
proof (induction chain arbitrary: c)
  case (Cons e chain)
  obtain c1 where c1: "seen c1 = seen c"
    "seen (snd (en_fn e (chain_execute chain k) c)) = seen (snd (chain_execute chain k c1))"
    "isl (fst (en_fn e (chain_execute chain k) c)) \<longleftrightarrow> isl (fst (chain_execute chain k c1))"
    using Cons.prems unfolding transparent_def by (meson list.set_intros(1))
  obtain c2 where "seen c2 = seen c1" "seen (snd (chain_execute chain k c1)) = seen (snd (k c2))"
    "isl (fst (chain_execute chain k c1)) \<longleftrightarrow> isl (fst (k c2))"
    using Cons.IH [of c1] Cons.prems by auto
  then show ?case using c1 by auto
qed auto

lemma around_transparent:
  assumes "\<And>c. isl (fst (before c)) = False \<and> seen (snd (before c)) = seen c"
    and "\<And>x c. isl (fst (after x c)) = False \<and> seen (snd (after x c)) = seen c"
  shows "transparent (around before after)"
  unfolding transparent_def
proof (intro allI)
  fix "next" :: "('a Context, int) act" and c
  obtain x c1 where b: "before c = (Inr x, c1)" using assms(1) [of c] by (cases "before c"; cases "fst (before c)") auto
  have "seen c1 = seen c" using assms(1) [of c] b by simp
  moreover have "seen (snd (around before after next c)) = seen (snd (next c1))
      \<and> (isl (fst (around before after next c)) \<longleftrightarrow> isl (fst (next c1)))"
    using assms(2) b by (cases "next c1"; cases "fst (next c1)") (auto simp: around_def act_bind_def)
  ultimately show "\<exists>c1. seen c1 = seen c \<and> seen (snd (around before after next c)) = seen (snd (next c1))
      \<and> (isl (fst (around before after next c)) \<longleftrightarrow> isl (fst (next c1)))" by blast
qed

lemma send_by_writer:
  "cx_writer c1 = cx_writer c2 \<Longrightarrow>
   snd (StreamTransfer_send files env seek posts stats p c1) = snd (StreamTransfer_send files env seek posts stats p c2)"
  by (auto simp: StreamTransfer_send_def Context_writerOwnership_def Let_def split: option.split)

lemma send_seen:
  "seen (fst (StreamTransfer_send files env seek posts stats p c)) =
    (case snd (StreamTransfer_send files env seek posts stats p c) of
       Inl _ \<Rightarrow> seen c | Inr _ \<Rightarrow> (cx_writer c, True))"
  by (auto simp: StreamTransfer_send_def seen_def Context_markStreamingHandoff_def Let_def split: option.split)

lemma async_context_seen:
  fixes w :: 'w
  assumes "\<forall>e\<in>set chain. transparent (en_fn e)" and "lib_send_begin lib (wr_calls wr)"
  shows "cx_writer (async_context lib chain (Some (download_handler files env seek posts stats p)) (req, resp, Some wr) w)
    = (case snd (StreamTransfer_send files env seek posts stats p (Context_async req resp (Some wr) w)) of
         Inl _ \<Rightarrow> Some (wr\<lparr>wr_calls := wr_calls wr @ [EndCall]\<rparr>) | Inr _ \<Rightarrow> Some wr)"
proof -
  let ?h = "final_handler (Some (download_handler files env seek posts stats p))"
  let ?c0 = "Context_async req resp (Some wr) w"
  obtain r c where run: "chain_execute chain ?h ?c0 = (r, c)" by fastforce
  obtain c1 :: "'w Context" where c1: "seen c1 = seen ?c0" "seen c = seen (snd (?h c1))" "isl r \<longleftrightarrow> isl (fst (?h c1))"
    using chain_transparent [OF assms(1), of ?c0 ?h] unfolding run fst_conv snd_conv by blast
  have w: "cx_writer c1 = cx_writer ?c0" "\<not> cx_streamingHandoff c1"
    using c1(1) by (auto simp: seen_def Context_async_def)
  have h: "?h c1 = (Inr (response_status (fst (StreamTransfer_send files env seek posts stats p c1))),
      fst (StreamTransfer_send files env seek posts stats p c1))"
    by (simp add: final_handler_def call_handler_def download_handler_def act_bind_def)
  then obtain n where r: "r = Inr n" using c1(3) by (cases r) auto
  have "seen c = (case snd (StreamTransfer_send files env seek posts stats p ?c0) of
      Inl _ \<Rightarrow> (Some wr, False) | Inr _ \<Rightarrow> (Some wr, True))"
    using c1(2) h send_seen [of files env seek posts stats p c1] w
    by (simp add: send_by_writer [OF w(1)] seen_def Context_async_def split: sum.splits)
  then show ?thesis
    using assms(2) run r
    by (auto simp: async_context_def seen_def Context_isStreamingHandoff_def write_call_def split: sum.splits)
qed

fun count_end :: "writer_call list \<Rightarrow> nat" where
  "count_end [] = 0"
| "count_end (EndCall # calls) = Suc (count_end calls)"
| "count_end (call # calls) = count_end calls"

lemma count_end_append: "count_end (xs @ ys) = count_end xs + count_end ys"
  by (induction xs rule: count_end.induct) simp_all

lemma count_end_wire: "wire_ok s0 calls \<Longrightarrow> count_end calls \<le> 1"
proof -
  have "count_end (map WriteBody chunks) = 0" for chunks by (induction chunks) simp_all
  then show "wire_ok s0 calls \<Longrightarrow> ?thesis" by (auto simp: wire_ok_def wire_def count_end_append)
qed

lemma transfer_wire: "transfer_inv s0 s \<Longrightarrow> wire_ok s0 (st_calls s)"
  by (auto simp: transfer_inv_def waiting_def flowing_at_def ended_def lost_def wire_ok_chunks) (simp_all add: wire_ok_def)

text \<open>A middleware that times the request, and the small file of the transfer's own example.\<close>

definition timing :: "unit Context Entry" where
  "timing = \<lparr>en_name = ''timing'', en_fn = around (\<lambda>c. (Inr (), Context_set ''t'' ''1'' c)) (\<lambda>x c. (Inr x, c))\<rparr>"

lemma timing_transparent: "transparent (en_fn timing)"
proof -
  have "transparent (around (\<lambda>c :: unit Context. (Inr (), Context_set ''t'' ''1'' c)) (\<lambda>x c. (Inr x, c)))"
    by (rule around_transparent) (simp_all add: seen_def Context_set_def)
  then show ?thesis by (simp add: timing_def)
qed

end
