(* ===== verification/Spec2Isabelle.thy ===== *)
theory Spec2Isabelle imports SpscWeak Lockfree Counters PoolLiveness Jwt Password IdThreads HttpClients TcpClient WebSocketClient TransportFactory Context RequestBody Bridges Application FileHeaders TransferService LegacyTransfer PathGuard HashUtil TimeUtil JsonUtil CertUtil Logger Base64 IniConfig HttpConstants Download begin

text \<open>
  A model of the intertwine C++ framework (\<open>src/src\<close>, \<open>src/include/intertwine/fw\<close>) and the properties that
  make it correct.  The framework is a layer over libhv, boost, OpenSSL, spdlog and a JSON library: an HTTP
  server side (routes, middleware, request contexts, file downloads), client transports, queues and a
  thread pool, and utilities.

  \<^bold>\<open>How the model is made.\<close>  A class is a record, an enumeration or tagged choice a datatype, a method one
  definition that takes and returns the state; \<open>std::string\<close> is a list of bytes, a machine integer a word
  where it can wrap and an \<open>int\<close> where it is only compared and stored.  A failing call is a value: an option,
  a sum, or the status the code reports.  Code outside the repository is an argument: a function, or a record
  of what its calls answer, one record for each call of ours (\<open>stream_env\<close>, \<open>tcp_env\<close>, \<open>ws_env\<close>, \<open>cert_env\<close>, \<dots>).
  What is called on a foreign object is recorded in order (\<open>writer_call\<close>, \<open>header_call\<close>, \<open>cert_event\<close>,
  \<open>hlog_call\<close>), so that a property can speak of the calls.

  \<^bold>\<open>Foundations.\<close>  \<open>Prelude\<close>: strings, decimal numbers, \<open>std::stoi\<close>.  \<open>Bits\<close>: words as masks and powers of two.
  \<open>StdMap\<close>: \<open>std::map\<close> with string keys.  \<open>Fifo\<close>: the contract of a bounded queue, as a locale.

  \<^bold>\<open>Queues and threads.\<close>  \<open>Spsc\<close> (SPSCQueue.inl): the ring buffer run alone, interpreted as a bounded queue;
  \<open>SpscConc\<close>: its atomic accesses interleaved, a step relation for each thread, with the invariant that the
  slots hold exactly the published items; \<open>SpscWeak\<close>: the same accesses under the release/acquire rules of C++, where
  a load may be stale and a slot access that does not see the earlier ones is a race.  \<open>Lockfree\<close> (LockfreeQueue.inl): the wrapper of the boost queue.
  \<open>Counters\<close>: AtomicCounter.cpp, FlowController.cpp and the transfer statistics.  \<open>ThreadPool\<close>
  (SupervisedThreadPool.cpp): the program counters of workers, supervisor and callers as datatypes,
  \<open>pool_step\<close> runs one of them for one step, \<open>pool_run\<close> any schedule.  \<open>PoolLiveness\<close>: a running pool takes every
  task it has accepted; in every schedule a second start ends with the supervisor blocked.

  \<^bold>\<open>Credentials and identifiers.\<close>  \<open>Codec\<close>: the two Base64 codecs the framework writes out, with the locale
  \<open>byte_codec\<close>; \<open>Base64\<close>: the guards around that of libhv.  \<open>Jwt\<close> (JwtUtil.cpp): tokens and the revocation list,
  with HMAC as an argument.  \<open>Password\<close> (PasswordUtil.cpp): stored hashes, with PBKDF2 as an argument.  \<open>Ids\<close>
  (IdUtil.cpp): snowflake identifiers over a clock that is a function of how often it has been read;
  \<open>IdThreads\<close>: the generators of several threads, in any order, and when their identifiers coincide.
  \<open>HashUtil\<close>, \<open>CertUtil\<close>: file digests and self-signed certificates over the calls of OpenSSL, those included
  whose results the code ignores.

  \<^bold>\<open>Client transports.\<close>  \<open>Transport\<close>: the request and response types and the contract of \<open>ITransport\<close> as a
  locale.  \<open>HttpText\<close>: URLs and header texts.  \<open>HttpClients\<close> (HttpTransport.cpp, HttpsTransport.cpp),
  \<open>TcpClient\<close> (TcpTransport.cpp), \<open>WebSocketClient\<close> (WebSocketTransport.cpp): one interpretation of the contract
  each.  The callbacks of the library are lists of events at the points where the caller waits; a waiting
  loop has one record for each turn, and a loop that uses them all up is \<open>None\<close>, so that a claim that it
  returns says how many turns it needs.  \<open>TransportFactory\<close>: the factory, and
  the virtual calls, which keep the contract because each transport does.

  \<^bold>\<open>Server.\<close>  \<open>Context\<close> (Context.cpp): what a handler can read and write.  \<open>Middleware\<close> (Middleware.cpp): the
  chain, for any context type.  \<open>RequestBody\<close> (Router.cpp, makeBodyHandler): streamed uploads, refined to one
  optional receiver for each connection.  \<open>Router\<close> (Router.cpp): registration, the synchronous and the
  asynchronous bridge, \<open>async_run\<close> as the schedule of the posted tasks, which the dispatcher may refuse or drop.  \<open>Bridges\<close>: the two bridges give the same
  answer to a handler that cannot tell them apart.  \<open>Application\<close> (Application.cpp,
  HvTransport.cpp): configuration, host check and start.

  \<^bold>\<open>File transfer.\<close>  \<open>FileHeaders\<close> (FileTransferHeaders.hpp) and \<open>FileTransfer\<close>: parameters and headers.
  \<open>StreamTransfer\<close> (StreamTransfer.cpp): the state machine driven by posted tasks, \<open>onwrite\<close> and \<open>onclose\<close>;
  \<open>stream_run\<close> is any sequence of them; \<open>PostedEvents\<close>: how a task gets to the loop, and who frees it;
  \<open>TransferService\<close>: many transfers that share one block of counters.  \<open>WriterLoop\<close> and \<open>LegacyTransfer\<close> (LegacyTransfer.cpp): the blocking
  strategy and its hand-over to the loop, the latter as a two-thread step relation; also AccelTransfer.cpp
  and FileTransferFactory.cpp.  \<open>Download\<close>: router, middleware and transfer on one response.

  \<^bold>\<open>Utilities.\<close>  \<open>PathGuard\<close>, \<open>TimeUtil\<close>, \<open>JsonUtil\<close>, \<open>Logger\<close> (also LogConfig.cpp), \<open>IniConfig\<close>, \<open>HttpConstants\<close>.

  \<^bold>\<open>What the lemmas show.\<close>  Each theory has an invariant or contract with its preservation by every operation
  (\<open>spsc_inv\<close>, \<open>pool_ok\<close>, \<open>clean_context\<close>, \<open>transfer_inv\<close>, \<open>sync_inv\<close>, \<open>log_inv\<close>, \<open>owns\<close>), the behaviour on every
  branch, and its main properties, each under its number.  Where the code does not do what its comments
  say, the theorem states what it does: among others the DST offset of \<open>getSystemTimezone\<close>, the request
  whose address changes while the old connection is open (\<open>ws_url_change_stale\<close>), the fallback of the blocking transfer that
  reports success for a missing file, the identifiers that repeat after an overflow.

  \<^bold>\<open>Bounds and fuel.\<close>  \<open>await_next\<close> has the fuel 5 that the code counts itself.  The loops over files, headers and
  queues are functions with a termination proof; the one loop that need not end, the rounding of the
  capacity, is a partial function with the exact condition under which it does.  The loops that wait for
  the library take as many turns as the environment lists.

  \<^bold>\<open>Not modelled.\<close>  The headers of macros (WinPosixShim.hpp, Log.hpp) have no behaviour.  Time values outside 64 bits of nanoseconds are left out.  Weak memory is modelled for the ring buffer, whose correctness
  rests on it; elsewhere the atomic accesses interleave.
\<close>

section \<open>Properties that span components\<close>

text \<open>
  C15: A file that an asynchronous route serves with the event-driven transfer, behind middleware that only
  looks, is ended at most once between the router and the transfer, whatever the library does later.  If
  the transfer is refused, the router ends the response and the callback has got its failure; if it is
  accepted, the router makes no call on the writer at all and the transfer calls \<open>End\<close> at most once.
\<close>

theorem download_ended_once:
  assumes "\<forall>e\<in>set chain. transparent (en_fn e)" and "lib_send_begin lib (wr_calls wr)"
  shows "(let router = async_context lib chain (Some (download_handler files env seek posts stats p)) (req, resp, Some wr) w
    in case snd (StreamTransfer_send files env seek posts stats p (Context_async req resp (Some wr) w)) of
         Inl completed \<Rightarrow> completed = complete_call p False
           \<and> cx_writer router = Some (wr\<lparr>wr_calls := wr_calls wr @ [EndCall]\<rparr>)
       | Inr s \<Rightarrow> cx_writer router = Some wr \<and> (\<forall>evs. count_end (st_calls (stream_run evs s)) \<le> 1))"
proof (cases "snd (StreamTransfer_send files env seek posts stats p (Context_async req resp (Some wr) w))")
  case (Inl completed)
  then have "completed = complete_call p False"
    by (auto simp: StreamTransfer_send_def Let_def split: option.splits if_splits)
  then show ?thesis using Inl async_context_seen [OF assms, of files env seek posts stats p req resp w] by (simp add: Let_def)
next
  case (Inr s)
  obtain content where content: "files (tp_physicalPath p) = Some content" using send_file [OF Inr] by blast
  obtain c' where "StreamTransfer_send files env seek posts stats p (Context_async req resp (Some wr) w) = (c', Inr s)"
    using Inr by (cases "StreamTransfer_send files env seek posts stats p (Context_async req resp (Some wr) w)") auto
  from send_prepared(2) [OF this content]
  have "count_end (st_calls (stream_run evs s)) \<le> 1" for evs
    using transfer_wire [OF stream_run_inv] count_end_wire by blast
  then show ?thesis using Inr async_context_seen [OF assms, of files env seek posts stats p req resp w] by (simp add: Let_def)
qed

theorem download_ended_once_witness:
  "cx_writer (async_context demo_lib [timing]
       (Some (download_handler demo_files stream_ready True True TransferStats_ctor demo_params))
       (demo_request, demo_response, Some demo_writer) ()) = Some demo_writer
   \<and> count_end (st_calls (stream_run [EvPosted stream_ready, EvWrite stream_ready, EvClose stream_ready] demo_stream)) \<le> 1"
proof -
  have "\<forall>e\<in>set [timing]. transparent (en_fn e)" using timing_transparent by simp
  moreover have "lib_send_begin demo_lib (wr_calls demo_writer)" by (simp add: demo_lib_def demo_writer_def)
  ultimately show ?thesis
    using download_ended_once [of "[timing]" demo_lib demo_writer demo_files stream_ready True True TransferStats_ctor
        demo_params demo_request demo_response "()"]
    by (simp add: demo_send Let_def)
qed

end
